(* ===== verification/Prelude.thy ===== *)
theory Prelude
  imports Main "HOL-Library.Word"
begin

text \<open>
  What every component shares: the machine types the Go code uses (byte slices, 20-byte
  addresses, 32-byte hashes, \<open>uint64\<close>), the error values that travel through the program and
  the way they are compared, the outcome of a Go call that may panic, and the development's
  collections of simplification rules.

  A \<open>big.Int\<close> is an \<open>int\<close>, a \<open>uint64\<close> a \<open>64 word\<close>, a \<open>[]byte\<close> a list of bytes (a nil
  slice and an empty one are the same value here, as \<open>len\<close> does not tell them apart), a
  \<open>time.Time\<close> the integer number of nanoseconds since Go's zero time, so that \<open>IsZero\<close> is
  equality with 0.
\<close>

section \<open>Collections of rules\<close>

named_theorems orm_simps \<open>what the operations of internal/models unfold to\<close>
named_theorems sql_simps \<open>the meaning of single SQL statements\<close>

section \<open>Types\<close>

type_synonym bytes = "8 word list"
type_synonym address = "160 word"
type_synonym hash = "256 word"
type_synonym time = int
type_synonym uint64 = "64 word"

section \<open>Errors\<close>

text \<open>
  The data member of a JSON-RPC error is an untyped interface value; the program only looks at
  it when it is a string.
\<close>

datatype errdata = DataString string | DataOther

text \<open>
  \<open>ErrNoRows\<close> is \<open>sql.ErrNoRows\<close>, \<open>ErrNotFound\<close> is \<open>ethereum.NotFound\<close>, \<open>ErrJSONRPC\<close> any
  error that implements \<open>rpc.Error\<close> and \<open>rpc.DataError\<close> (message, code, data), \<open>ErrMsg\<close> any
  other error without a cause and \<open>ErrWrap\<close> an error built by \<open>fmt.Errorf\<close> with \<open>%w\<close> or by
  \<open>errors.Wrap\<close>.
\<close>

datatype goerror =
    ErrNoRows
  | ErrNotFound
  | ErrJSONRPC string int errdata
  | ErrMsg string
  | ErrWrap string goerror

text \<open>\<open>errors.Is\<close> follows the chain of causes; Go's \<open>==\<close> on errors is plain equality.\<close>

fun errors_Is :: "goerror \<Rightarrow> goerror \<Rightarrow> bool" where
  "errors_Is (ErrWrap m e) t = (ErrWrap m e = t \<or> errors_Is e t)"
| "errors_Is e t = (e = t)"

text \<open>A call returns or panics; nothing in the program recovers outside the gRPC server.\<close>

datatype 'a outcome = Returned 'a | Panicked string

fun panicked :: "'a outcome \<Rightarrow> bool" where
  "panicked (Returned x) = False"
| "panicked (Panicked m) = True"

section \<open>Lists\<close>

lemma map_eq_imp_same_length: "map f xs = map g ys \<Longrightarrow> length xs = length ys"
  by (metis length_map)

lemma filter_single_distinct:
  assumes "distinct (map f xs)" and "x \<in> set xs"
  shows "filter (\<lambda>y. f y = f x) xs = [x]"
  using assms
proof (induction xs)
  case Nil
  then show ?case by simp
next
  case (Cons y ys)
  show ?case
  proof (cases "x = y")
    case True
    with Cons.prems have "filter (\<lambda>z. f z = f x) ys = []"
      by (auto simp: filter_empty_conv image_iff)
    with True show ?thesis by simp
  next
    case False
    with Cons.prems have "f y \<noteq> f x" by force
    with Cons False show ?thesis by simp
  qed
qed

lemma distinct_map_inj_on_set:
  "distinct (map f xs) \<Longrightarrow> x \<in> set xs \<Longrightarrow> y \<in> set xs \<Longrightarrow> f x = f y \<Longrightarrow> x = y"
  by (auto simp: distinct_map inj_on_def)

text \<open>Prefix-free codes: two concatenations of code words are equal only word by word.\<close>

lemma concat_code_inject:
  assumes "\<And>a b xs ys. f a @ xs = f b @ ys \<Longrightarrow> a = b \<and> xs = (ys :: 'c list)"
    and "\<And>a. f a \<noteq> []"
  shows "concat (map f as) = concat (map f bs) \<Longrightarrow> as = bs"
proof (induction as arbitrary: bs)
  case Nil
  then show ?case using assms(2) by (cases bs) auto
next
  case (Cons a as)
  from Cons.prems assms(2) obtain b bs' where bs: "bs = b # bs'"
    by (cases bs) auto
  with Cons.prems have "f a @ concat (map f as) = f b @ concat (map f bs')" by simp
  then have "a = b" and "concat (map f as) = concat (map f bs')"
    using assms(1) by blast+
  with Cons.IH bs show ?case by simp
qed

lemma list_all2_right:
  "list_all2 R xs ys \<Longrightarrow> y \<in> set ys \<Longrightarrow> \<exists>x \<in> set xs. R x y"
  by (induction rule: list_all2_induct) auto

lemma list_all2_left:
  "list_all2 R xs ys \<Longrightarrow> x \<in> set xs \<Longrightarrow> \<exists>y \<in> set ys. R x y"
  by (induction rule: list_all2_induct) auto

section \<open>Decimal integers\<close>

text \<open>\<open>strconv.Itoa\<close>.\<close>

fun nat_digits :: "nat \<Rightarrow> string" where
  "nat_digits n =
     (if n < 10 then [char_of (48 + n)] else nat_digits (n div 10) @ [char_of (48 + n mod 10)])"

declare nat_digits.simps [simp del]

definition Itoa :: "int \<Rightarrow> string" where
  "Itoa i = (if i < 0 then CHR ''-'' # nat_digits (nat (- i)) else nat_digits (nat i))"

definition digit_val :: "char \<Rightarrow> nat" where
  "digit_val c = of_char c - 48"

definition digits_val :: "string \<Rightarrow> nat" where
  "digits_val s = foldl (\<lambda>acc c. 10 * acc + digit_val c) 0 s"

definition numeral_char :: "char \<Rightarrow> bool" where
  "numeral_char c = (c = CHR ''-'' \<or> (48 \<le> (of_char c :: nat) \<and> (of_char c :: nat) \<le> 57))"

lemma digits_val_snoc: "digits_val (s @ [c]) = 10 * digits_val s + digit_val c"
  by (simp add: digits_val_def)

lemma digit_val_char_of: "d < 10 \<Longrightarrow> digit_val (char_of (48 + d)) = d"
  by (simp add: digit_val_def)

lemma digits_val_nat_digits: "digits_val (nat_digits n) = n"
proof (induction n rule: nat_digits.induct)
  case (1 n)
  show ?case
  proof (cases "n < 10")
    case True
    then show ?thesis
      by (subst nat_digits.simps) (simp add: digits_val_def digit_val_char_of)
  next
    case False
    with "1.IH" have ih: "digits_val (nat_digits (n div 10)) = n div 10" by simp
    from False show ?thesis
      by (subst nat_digits.simps) (simp add: digits_val_snoc ih digit_val_char_of)
  qed
qed

lemma nat_digits_chars: "c \<in> set (nat_digits n) \<Longrightarrow> 48 \<le> (of_char c :: nat) \<and> (of_char c :: nat) \<le> 57"
proof (induction n rule: nat_digits.induct)
  case (1 n)
  show ?case
  proof (cases "n < 10")
    case True
    with "1.prems" show ?thesis
      by (subst (asm) nat_digits.simps) auto
  next
    case False
    with "1.prems" have "c \<in> set (nat_digits (n div 10)) \<or> c = char_of (48 + n mod 10)"
      by (subst (asm) nat_digits.simps) auto
    with "1.IH" False show ?thesis
      by (auto simp: less_Suc_eq_le [symmetric])
  qed
qed

lemma Itoa_chars: "c \<in> set (Itoa i) \<Longrightarrow> numeral_char c"
  by (auto simp: Itoa_def numeral_char_def dest: nat_digits_chars split: if_splits)

lemma nat_digits_inject: "nat_digits m = nat_digits n \<Longrightarrow> m = n"
  by (metis digits_val_nat_digits)

lemma nat_digits_no_minus: "nat_digits m \<noteq> CHR ''-'' # s"
proof
  assume "nat_digits m = CHR ''-'' # s"
  then have "CHR ''-'' \<in> set (nat_digits m)" by simp
  then show False by (auto dest: nat_digits_chars)
qed

lemma Itoa_inject: "Itoa i = Itoa j \<Longrightarrow> i = j"
  by (auto simp: Itoa_def nat_digits_no_minus dest: nat_digits_inject sym [of "CHR ''-'' # _"]
      split: if_splits)

text \<open>A number followed by text that does not go on with a digit can be read back.\<close>

lemma Itoa_append_inject:
  assumes eq: "Itoa i @ xs = Itoa j @ ys"
    and xs: "xs = [] \<or> \<not> numeral_char (hd xs)" and ys: "ys = [] \<or> \<not> numeral_char (hd ys)"
  shows "i = j \<and> xs = ys"
proof -
  have tw: "takeWhile numeral_char (Itoa k @ zs) = Itoa k"
    if "zs = [] \<or> \<not> numeral_char (hd zs)" for k zs
    using that by (cases zs) (auto simp: takeWhile_append2 Itoa_chars takeWhile_eq_all_conv)
  have "Itoa i = Itoa j" using tw [OF xs, of i] tw [OF ys, of j] eq by simp
  then show ?thesis using eq Itoa_inject by simp
qed

end
