(* ===== verification/Schema.thy ===== *)
theory Schema
  imports Prelude
begin

text \<open>
  The table \<open>meta_transaction_requests\<close>: the struct of internal/models that mirrors a row, its
  columns, the generated \<open>where\<close> helpers, and the meaning of the SQL statements the generated
  code sends. The constraints are those of the migrations. The struct and a stored row are the
  same type: \<open>boil\<close> binds columns to fields one to one.

  The service's PostgreSQL server is not part of the program; what is written out here is the
  meaning of the SQL text of the repository (the statements of internal/models, the table
  definition of migrations/), which is the language those texts are in. The order the server
  gives to text values is the parameter \<open>le\<close>: it is the collation of the database. Where SQL
  leaves the answer of a query open, so does \<open>answers\<close>.
\<close>

section \<open>Columns\<close>

datatype col =
    Col_id | Col_nonce | Col_gas_price | Col_to | Col_data | Col_hash
  | Col_submitted_block_number | Col_submitted_block_hash
  | Col_mined_block_number | Col_mined_block_hash
  | Col_created_at | Col_updated_at
  | Col_boosted_block_number | Col_boosted_block_hash
  | Col_wallet_index

fun MetaTransactionRequestColumns :: "col \<Rightarrow> string" where
  "MetaTransactionRequestColumns Col_id = ''id''"
| "MetaTransactionRequestColumns Col_nonce = ''nonce''"
| "MetaTransactionRequestColumns Col_gas_price = ''gas_price''"
| "MetaTransactionRequestColumns Col_to = ''to''"
| "MetaTransactionRequestColumns Col_data = ''data''"
| "MetaTransactionRequestColumns Col_hash = ''hash''"
| "MetaTransactionRequestColumns Col_submitted_block_number = ''submitted_block_number''"
| "MetaTransactionRequestColumns Col_submitted_block_hash = ''submitted_block_hash''"
| "MetaTransactionRequestColumns Col_mined_block_number = ''mined_block_number''"
| "MetaTransactionRequestColumns Col_mined_block_hash = ''mined_block_hash''"
| "MetaTransactionRequestColumns Col_created_at = ''created_at''"
| "MetaTransactionRequestColumns Col_updated_at = ''updated_at''"
| "MetaTransactionRequestColumns Col_boosted_block_number = ''boosted_block_number''"
| "MetaTransactionRequestColumns Col_boosted_block_hash = ''boosted_block_hash''"
| "MetaTransactionRequestColumns Col_wallet_index = ''wallet_index''"

definition MetaTransactionRequestTableColumns :: "col \<Rightarrow> string" where
  "MetaTransactionRequestTableColumns c =
     ''meta_transaction_requests.'' @ MetaTransactionRequestColumns c"

definition metaTransactionRequestAllColumns :: "col list" where
  "metaTransactionRequestAllColumns =
     [Col_id, Col_nonce, Col_gas_price, Col_to, Col_data, Col_hash, Col_submitted_block_number,
      Col_submitted_block_hash, Col_mined_block_number, Col_mined_block_hash, Col_created_at,
      Col_updated_at, Col_boosted_block_number, Col_boosted_block_hash, Col_wallet_index]"

definition metaTransactionRequestColumnsWithoutDefault :: "col list" where
  "metaTransactionRequestColumnsWithoutDefault = [Col_id, Col_to, Col_data, Col_wallet_index]"

definition metaTransactionRequestColumnsWithDefault :: "col list" where
  "metaTransactionRequestColumnsWithDefault =
     [Col_nonce, Col_gas_price, Col_hash, Col_submitted_block_number, Col_submitted_block_hash,
      Col_mined_block_number, Col_mined_block_hash, Col_created_at, Col_updated_at,
      Col_boosted_block_number, Col_boosted_block_hash]"

definition metaTransactionRequestPrimaryKeyColumns :: "col list" where
  "metaTransactionRequestPrimaryKeyColumns = [Col_id]"

definition metaTransactionRequestGeneratedColumns :: "col list" where
  "metaTransactionRequestGeneratedColumns = []"

section \<open>Rows\<close>

text \<open>
  \<open>types.NullDecimal\<close> of a \<open>numeric(n)\<close> column (scale 0) is an \<open>int option\<close>, \<open>null.Bytes\<close> a
  \<open>bytes option\<close>; \<open>IsZero\<close> of either is \<open>= None\<close>.
\<close>

record MetaTransactionRequest =
  ID :: string
  Nonce :: "int option"
  GasPrice :: "int option"
  To :: bytes
  Data :: bytes
  Hash :: "bytes option"
  SubmittedBlockNumber :: "int option"
  SubmittedBlockHash :: "bytes option"
  MinedBlockNumber :: "int option"
  MinedBlockHash :: "bytes option"
  CreatedAt :: time
  UpdatedAt :: time
  BoostedBlockNumber :: "int option"
  BoostedBlockHash :: "bytes option"
  WalletIndex :: int

type_synonym table = "MetaTransactionRequest list"

text \<open>The zero value of the struct, as \<open>&MetaTransactionRequest{}\<close> makes it.\<close>

definition zero_request :: MetaTransactionRequest where
  "zero_request =
     \<lparr>ID = '''', Nonce = None, GasPrice = None, To = [], Data = [], Hash = None,
      SubmittedBlockNumber = None, SubmittedBlockHash = None, MinedBlockNumber = None,
      MinedBlockHash = None, CreatedAt = 0, UpdatedAt = 0, BoostedBlockNumber = None,
      BoostedBlockHash = None, WalletIndex = 0\<rparr>"

datatype sql_value =
    VNull | VText string | VNum int | VBytes bytes | VTime time | VInt int

definition of_num :: "int option \<Rightarrow> sql_value" where
  "of_num x = (case x of None \<Rightarrow> VNull | Some n \<Rightarrow> VNum n)"

definition of_bytes :: "bytes option \<Rightarrow> sql_value" where
  "of_bytes x = (case x of None \<Rightarrow> VNull | Some b \<Rightarrow> VBytes b)"

text \<open>The value of the field bound to a column (the \<open>boil\<close> tags of the struct).\<close>

fun field_value :: "col \<Rightarrow> MetaTransactionRequest \<Rightarrow> sql_value" where
  "field_value Col_id r = VText (ID r)"
| "field_value Col_nonce r = of_num (Nonce r)"
| "field_value Col_gas_price r = of_num (GasPrice r)"
| "field_value Col_to r = VBytes (To r)"
| "field_value Col_data r = VBytes (Data r)"
| "field_value Col_hash r = of_bytes (Hash r)"
| "field_value Col_submitted_block_number r = of_num (SubmittedBlockNumber r)"
| "field_value Col_submitted_block_hash r = of_bytes (SubmittedBlockHash r)"
| "field_value Col_mined_block_number r = of_num (MinedBlockNumber r)"
| "field_value Col_mined_block_hash r = of_bytes (MinedBlockHash r)"
| "field_value Col_created_at r = VTime (CreatedAt r)"
| "field_value Col_updated_at r = VTime (UpdatedAt r)"
| "field_value Col_boosted_block_number r = of_num (BoostedBlockNumber r)"
| "field_value Col_boosted_block_hash r = of_bytes (BoostedBlockHash r)"
| "field_value Col_wallet_index r = VInt (WalletIndex r)"

definition bound_values :: "col list \<Rightarrow> MetaTransactionRequest \<Rightarrow> (col \<times> sql_value) list" where
  "bound_values cs r = map (\<lambda>c. (c, field_value c r)) cs"

text \<open>
  Storing a value in a column: \<open>None\<close> is the error for a value of the wrong type or a NULL in a
  column that is NOT NULL.
\<close>

fun num_of :: "sql_value \<Rightarrow> int option option" where
  "num_of VNull = Some None"
| "num_of (VNum n) = Some (Some n)"
| "num_of _ = None"

fun bytes_of :: "sql_value \<Rightarrow> bytes option option" where
  "bytes_of VNull = Some None"
| "bytes_of (VBytes b) = Some (Some b)"
| "bytes_of _ = None"

text \<open>A \<open>char(27)\<close> column pads what it stores with blanks and refuses longer values.\<close>

definition char27 :: "string \<Rightarrow> string option" where
  "char27 s = (if length s \<le> 27 then Some (s @ replicate (27 - length s) CHR '' '') else None)"

text \<open>
  A \<open>timestamptz\<close> keeps microseconds: nanoseconds are rounded to the nearest one (of two equally
  near ones PostgreSQL does not promise which; here the later one).
\<close>

definition to_micros :: "time \<Rightarrow> time" where
  "to_micros t = 1000 * ((t + 500) div 1000)"

text \<open>What is left of a value that is stored in a column, or compared with it.\<close>

fun as_stored :: "sql_value \<Rightarrow> sql_value" where
  "as_stored (VTime t) = VTime (to_micros t)"
| "as_stored v = v"

fun store_col :: "col \<Rightarrow> sql_value \<Rightarrow> MetaTransactionRequest \<Rightarrow> MetaTransactionRequest option" where
  "store_col Col_id v r =
     (case v of VText s \<Rightarrow> map_option (\<lambda>s'. r\<lparr>ID := s'\<rparr>) (char27 s) | _ \<Rightarrow> None)"
| "store_col Col_nonce v r = map_option (\<lambda>x. r\<lparr>Nonce := x\<rparr>) (num_of v)"
| "store_col Col_gas_price v r = map_option (\<lambda>x. r\<lparr>GasPrice := x\<rparr>) (num_of v)"
| "store_col Col_to v r = (case v of VBytes b \<Rightarrow> Some (r\<lparr>To := b\<rparr>) | _ \<Rightarrow> None)"
| "store_col Col_data v r = (case v of VBytes b \<Rightarrow> Some (r\<lparr>Data := b\<rparr>) | _ \<Rightarrow> None)"
| "store_col Col_hash v r = map_option (\<lambda>x. r\<lparr>Hash := x\<rparr>) (bytes_of v)"
| "store_col Col_submitted_block_number v r =
     map_option (\<lambda>x. r\<lparr>SubmittedBlockNumber := x\<rparr>) (num_of v)"
| "store_col Col_submitted_block_hash v r =
     map_option (\<lambda>x. r\<lparr>SubmittedBlockHash := x\<rparr>) (bytes_of v)"
| "store_col Col_mined_block_number v r = map_option (\<lambda>x. r\<lparr>MinedBlockNumber := x\<rparr>) (num_of v)"
| "store_col Col_mined_block_hash v r = map_option (\<lambda>x. r\<lparr>MinedBlockHash := x\<rparr>) (bytes_of v)"
| "store_col Col_created_at v r = (case v of VTime t \<Rightarrow> Some (r\<lparr>CreatedAt := to_micros t\<rparr>) | _ \<Rightarrow> None)"
| "store_col Col_updated_at v r = (case v of VTime t \<Rightarrow> Some (r\<lparr>UpdatedAt := to_micros t\<rparr>) | _ \<Rightarrow> None)"
| "store_col Col_boosted_block_number v r =
     map_option (\<lambda>x. r\<lparr>BoostedBlockNumber := x\<rparr>) (num_of v)"
| "store_col Col_boosted_block_hash v r =
     map_option (\<lambda>x. r\<lparr>BoostedBlockHash := x\<rparr>) (bytes_of v)"
| "store_col Col_wallet_index v r = (case v of VInt i \<Rightarrow> Some (r\<lparr>WalletIndex := i\<rparr>) | _ \<Rightarrow> None)"

fun store_cols ::
  "(col \<times> sql_value) list \<Rightarrow> MetaTransactionRequest \<Rightarrow> MetaTransactionRequest option" where
  "store_cols [] r = Some r"
| "store_cols ((c, v) # vs) r =
     (case store_col c v r of None \<Rightarrow> None | Some r' \<Rightarrow> store_cols vs r')"

text \<open>
  The checks of the migrations: \<open>numeric(20)\<close> and \<open>numeric(78)\<close> bound the digits, and the CHECK
  constraints fix the lengths of addresses and hashes.
\<close>

definition numeric_ok :: "nat \<Rightarrow> int option \<Rightarrow> bool" where
  "numeric_ok p x = (case x of None \<Rightarrow> True | Some n \<Rightarrow> \<bar>n\<bar> < 10 ^ p)"

definition length_ok :: "nat \<Rightarrow> bytes option \<Rightarrow> bool" where
  "length_ok n x = (case x of None \<Rightarrow> True | Some b \<Rightarrow> length b = n)"

definition row_checks :: "MetaTransactionRequest \<Rightarrow> bool" where
  "row_checks r \<longleftrightarrow>
     numeric_ok 20 (Nonce r) \<and> numeric_ok 78 (GasPrice r) \<and> length (To r) = 20 \<and>
     length_ok 32 (Hash r) \<and>
     numeric_ok 78 (SubmittedBlockNumber r) \<and> length_ok 32 (SubmittedBlockHash r) \<and>
     numeric_ok 78 (MinedBlockNumber r) \<and> length_ok 32 (MinedBlockHash r) \<and>
     numeric_ok 78 (BoostedBlockNumber r) \<and> length_ok 32 (BoostedBlockHash r) \<and>
     - (2 ^ 31) \<le> WalletIndex r \<and> WalletIndex r < 2 ^ 31"

text \<open>Two rows clash on the primary key, or on the unique hash (NULLs never clash).\<close>

definition id_clash :: "MetaTransactionRequest \<Rightarrow> table \<Rightarrow> bool" where
  "id_clash r T = list_ex (\<lambda>r'. ID r' = ID r) T"

definition hash_clash :: "MetaTransactionRequest \<Rightarrow> table \<Rightarrow> bool" where
  "hash_clash r T = (Hash r \<noteq> None \<and> list_ex (\<lambda>r'. Hash r' = Hash r) T)"

section \<open>Query modifiers and the generated where helpers\<close>

text \<open>
  A query modifier is the call that makes it: \<open>qmhelper.Where\<close> with an operator,
  \<open>qmhelper.WhereNullEQ\<close> (with its \<open>negated\<close> flag), \<open>WhereIsNull\<close>, \<open>WhereIsNotNull\<close>,
  \<open>qm.WhereIn\<close>, \<open>qm.WhereNotIn\<close>, \<open>qm.Where\<close> with one of the four LIKE operators (negated?,
  ignoring case?), \<open>qm.OrderBy\<close> on a column with its direction, \<open>qm.Limit\<close>, \<open>qm.From\<close> and
  \<open>queries.SetSelect\<close>.
\<close>

datatype cmpop = EQ | NEQ | LT | LTE | GT | GTE

datatype query_mod =
    Where col cmpop sql_value
  | WhereNullEQ col bool sql_value
  | WhereIsNull col
  | WhereIsNotNull col
  | WhereIn col "sql_value list"
  | WhereNotIn col "sql_value list"
  | WhereLike col bool bool string
  | OrderByAsc col
  | Limit nat
  | From string
  | Select "string list"

text \<open>\<open>whereHelperstring\<close>.\<close>

definition whereHelperstring :: "col \<Rightarrow> cmpop \<Rightarrow> string \<Rightarrow> query_mod" where
  "whereHelperstring field oper x = Where field oper (VText x)"

definition whereHelperstring_LIKE :: "col \<Rightarrow> string \<Rightarrow> query_mod" where
  "whereHelperstring_LIKE field x = WhereLike field False False x"

definition whereHelperstring_NLIKE :: "col \<Rightarrow> string \<Rightarrow> query_mod" where
  "whereHelperstring_NLIKE field x = WhereLike field True False x"

definition whereHelperstring_ILIKE :: "col \<Rightarrow> string \<Rightarrow> query_mod" where
  "whereHelperstring_ILIKE field x = WhereLike field False True x"

definition whereHelperstring_NILIKE :: "col \<Rightarrow> string \<Rightarrow> query_mod" where
  "whereHelperstring_NILIKE field x = WhereLike field True True x"

definition whereHelperstring_IN :: "col \<Rightarrow> string list \<Rightarrow> query_mod" where
  "whereHelperstring_IN field xs = WhereIn field (map VText xs)"

definition whereHelperstring_NIN :: "col \<Rightarrow> string list \<Rightarrow> query_mod" where
  "whereHelperstring_NIN field xs = WhereNotIn field (map VText xs)"

text \<open>
  \<open>whereHelpertypes_NullDecimal\<close>: (in)equality goes through \<open>WhereNullEQ\<close>, the orderings
  through \<open>Where\<close>.
\<close>

fun whereHelpertypes_NullDecimal :: "col \<Rightarrow> cmpop \<Rightarrow> int option \<Rightarrow> query_mod" where
  "whereHelpertypes_NullDecimal field EQ x = WhereNullEQ field False (of_num x)"
| "whereHelpertypes_NullDecimal field NEQ x = WhereNullEQ field True (of_num x)"
| "whereHelpertypes_NullDecimal field oper x = Where field oper (of_num x)"

definition whereHelpertypes_NullDecimal_IsNull :: "col \<Rightarrow> query_mod" where
  "whereHelpertypes_NullDecimal_IsNull field = WhereIsNull field"

definition whereHelpertypes_NullDecimal_IsNotNull :: "col \<Rightarrow> query_mod" where
  "whereHelpertypes_NullDecimal_IsNotNull field = WhereIsNotNull field"

definition whereHelper__byte :: "col \<Rightarrow> cmpop \<Rightarrow> bytes \<Rightarrow> query_mod" where
  "whereHelper__byte field oper x = Where field oper (VBytes x)"

fun whereHelpernull_Bytes :: "col \<Rightarrow> cmpop \<Rightarrow> bytes option \<Rightarrow> query_mod" where
  "whereHelpernull_Bytes field EQ x = WhereNullEQ field False (of_bytes x)"
| "whereHelpernull_Bytes field NEQ x = WhereNullEQ field True (of_bytes x)"
| "whereHelpernull_Bytes field oper x = Where field oper (of_bytes x)"

definition whereHelpernull_Bytes_IsNull :: "col \<Rightarrow> query_mod" where
  "whereHelpernull_Bytes_IsNull field = WhereIsNull field"

definition whereHelpernull_Bytes_IsNotNull :: "col \<Rightarrow> query_mod" where
  "whereHelpernull_Bytes_IsNotNull field = WhereIsNotNull field"

definition whereHelpertime_Time :: "col \<Rightarrow> cmpop \<Rightarrow> time \<Rightarrow> query_mod" where
  "whereHelpertime_Time field oper x = Where field oper (VTime x)"

definition whereHelperint :: "col \<Rightarrow> cmpop \<Rightarrow> int \<Rightarrow> query_mod" where
  "whereHelperint field oper x = Where field oper (VInt x)"

definition whereHelperint_IN :: "col \<Rightarrow> int list \<Rightarrow> query_mod" where
  "whereHelperint_IN field xs = WhereIn field (map VInt xs)"

definition whereHelperint_NIN :: "col \<Rightarrow> int list \<Rightarrow> query_mod" where
  "whereHelperint_NIN field xs = WhereNotIn field (map VInt xs)"

text \<open>\<open>MetaTransactionRequestWhere\<close>: the helper of each column and its field, the quoted column.\<close>

datatype where_helper =
  Helper_string | Helper_NullDecimal | Helper_byte | Helper_null_Bytes | Helper_Time | Helper_int

fun where_helper_of :: "col \<Rightarrow> where_helper" where
  "where_helper_of Col_id = Helper_string"
| "where_helper_of Col_nonce = Helper_NullDecimal"
| "where_helper_of Col_gas_price = Helper_NullDecimal"
| "where_helper_of Col_to = Helper_byte"
| "where_helper_of Col_data = Helper_byte"
| "where_helper_of Col_hash = Helper_null_Bytes"
| "where_helper_of Col_submitted_block_number = Helper_NullDecimal"
| "where_helper_of Col_submitted_block_hash = Helper_null_Bytes"
| "where_helper_of Col_mined_block_number = Helper_NullDecimal"
| "where_helper_of Col_mined_block_hash = Helper_null_Bytes"
| "where_helper_of Col_created_at = Helper_Time"
| "where_helper_of Col_updated_at = Helper_Time"
| "where_helper_of Col_boosted_block_number = Helper_NullDecimal"
| "where_helper_of Col_boosted_block_hash = Helper_null_Bytes"
| "where_helper_of Col_wallet_index = Helper_int"

definition quoted :: "string \<Rightarrow> string" where
  "quoted s = CHR 0x22 # s @ [CHR 0x22]"

definition TableNames_MetaTransactionRequests :: string where
  "TableNames_MetaTransactionRequests = ''meta_transaction_requests''"

definition quoted_table :: string where
  "quoted_table = quoted ''meta_transaction_processor'' @ ''.'' @ quoted ''meta_transaction_requests''"

definition MetaTransactionRequestWhere :: "col \<Rightarrow> where_helper \<times> string" where
  "MetaTransactionRequestWhere c =
     (where_helper_of c, quoted_table @ ''.'' @ quoted (MetaTransactionRequestColumns c))"

lemmas where_helper_defs =
  whereHelperstring_LIKE_def whereHelperstring_NLIKE_def whereHelperstring_ILIKE_def
  whereHelperstring_NILIKE_def whereHelperstring_def whereHelperstring_IN_def whereHelperstring_NIN_def
  whereHelpertypes_NullDecimal_IsNull_def whereHelpertypes_NullDecimal_IsNotNull_def
  whereHelper__byte_def whereHelpernull_Bytes_IsNull_def whereHelpernull_Bytes_IsNotNull_def
  whereHelpertime_Time_def whereHelperint_def whereHelperint_IN_def whereHelperint_NIN_def

section \<open>Meaning of a query\<close>

text \<open>
  SQL compares values of one type; any comparison with NULL is not true. Byte strings are
  ordered lexicographically, text by the collation \<open>le\<close>.
\<close>

fun bytes_less :: "bytes \<Rightarrow> bytes \<Rightarrow> bool" where
  "bytes_less xs [] = False"
| "bytes_less [] (y # ys) = True"
| "bytes_less (x # xs) (y # ys) = (x < y \<or> (x = y \<and> bytes_less xs ys))"

fun value_le :: "(string \<Rightarrow> string \<Rightarrow> bool) \<Rightarrow> sql_value \<Rightarrow> sql_value \<Rightarrow> bool" where
  "value_le le (VText a) (VText b) = le a b"
| "value_le le (VNum a) (VNum b) = (a \<le> b)"
| "value_le le (VBytes a) (VBytes b) = (a = b \<or> bytes_less a b)"
| "value_le le (VTime a) (VTime b) = (a \<le> b)"
| "value_le le (VInt a) (VInt b) = (a \<le> b)"
| "value_le le _ _ = False"

fun same_type :: "sql_value \<Rightarrow> sql_value \<Rightarrow> bool" where
  "same_type (VText a) (VText b) = True"
| "same_type (VNum a) (VNum b) = True"
| "same_type (VBytes a) (VBytes b) = True"
| "same_type (VTime a) (VTime b) = True"
| "same_type (VInt a) (VInt b) = True"
| "same_type _ _ = False"

fun cmp_holds :: "(string \<Rightarrow> string \<Rightarrow> bool) \<Rightarrow> cmpop \<Rightarrow> sql_value \<Rightarrow> sql_value \<Rightarrow> bool" where
  "cmp_holds le EQ a b = (same_type a b \<and> a = b)"
| "cmp_holds le NEQ a b = (same_type a b \<and> a \<noteq> b)"
| "cmp_holds le LT a b = (value_le le a b \<and> a \<noteq> b)"
| "cmp_holds le LTE a b = value_le le a b"
| "cmp_holds le GT a b = (value_le le b a \<and> a \<noteq> b)"
| "cmp_holds le GTE a b = value_le le b a"

text \<open>
  LIKE: \<open>%\<close> stands for any characters, \<open>_\<close> for one, a backslash takes the next character
  literally; a pattern that ends with a backslash matches nothing. ILIKE ignores the case of
  ASCII letters.
\<close>

fun like :: "string \<Rightarrow> string \<Rightarrow> bool" where
  "like [] s = (s = [])"
| "like (p # ps) [] = (p = CHR ''%'' \<and> like ps [])"
| "like (p # ps) (c # s) =
     (if p = CHR ''%'' then like ps (c # s) \<or> like (p # ps) s
      else if p = CHR ''_'' then like ps s
      else if p = CHR 0x5C then
        (case ps of [] \<Rightarrow> False | q # qs \<Rightarrow> q = c \<and> like qs s)
      else p = c \<and> like ps s)"

definition ascii_lower :: "char \<Rightarrow> char" where
  "ascii_lower c =
     (let n = of_char c :: nat in if 65 \<le> n \<and> n \<le> 90 then char_of (n + 32) else c)"

fun like_holds :: "bool \<Rightarrow> bool \<Rightarrow> string \<Rightarrow> sql_value \<Rightarrow> bool" where
  "like_holds neg ci x (VText s) =
     ((if ci then like (map ascii_lower x) (map ascii_lower s) else like x s) \<noteq> neg)"
| "like_holds neg ci x _ = False"

fun mod_holds ::
  "(string \<Rightarrow> string \<Rightarrow> bool) \<Rightarrow> MetaTransactionRequest \<Rightarrow> query_mod \<Rightarrow> bool" where
  "mod_holds le r (Where c oper v) = cmp_holds le oper (field_value c r) (as_stored v)"
| "mod_holds le r (WhereNullEQ c neg v) =
     (if v = VNull then (field_value c r = VNull) \<noteq> neg
      else cmp_holds le (if neg then NEQ else EQ) (field_value c r) (as_stored v))"
| "mod_holds le r (WhereIsNull c) = (field_value c r = VNull)"
| "mod_holds le r (WhereIsNotNull c) = (field_value c r \<noteq> VNull)"
| "mod_holds le r (WhereIn c vs) = list_ex (\<lambda>v. cmp_holds le EQ (field_value c r) (as_stored v)) vs"
| "mod_holds le r (WhereNotIn c vs) = list_all (\<lambda>v. cmp_holds le NEQ (field_value c r) (as_stored v)) vs"
| "mod_holds le r (WhereLike c neg ci x) = like_holds neg ci x (field_value c r)"
| "mod_holds le r _ = True"

definition matches ::
  "(string \<Rightarrow> string \<Rightarrow> bool) \<Rightarrow> query_mod list \<Rightarrow> MetaTransactionRequest \<Rightarrow> bool" where
  "matches le ms r = list_all (mod_holds le r) ms"

fun order_col :: "query_mod list \<Rightarrow> col option" where
  "order_col [] = None"
| "order_col (OrderByAsc c # ms) = Some c"
| "order_col (_ # ms) = order_col ms"

text \<open>A later \<open>Limit\<close> replaces an earlier one (\<open>queries.SetLimit\<close> sets the field).\<close>

fun limit_of :: "query_mod list \<Rightarrow> nat option" where
  "limit_of [] = None"
| "limit_of (Limit n # ms) = (case limit_of ms of None \<Rightarrow> Some n | Some m \<Rightarrow> Some m)"
| "limit_of (_ # ms) = limit_of ms"

definition row_le ::
  "(string \<Rightarrow> string \<Rightarrow> bool) \<Rightarrow> col \<Rightarrow> MetaTransactionRequest \<Rightarrow> MetaTransactionRequest \<Rightarrow> bool" where
  "row_le le c a b = value_le le (field_value c a) (field_value c b)"

text \<open>
  \<open>answers le ms T rows\<close>: the server may answer the query \<open>ms\<close> on the table \<open>T\<close> with \<open>rows\<close>.
  The rows are distinct matching rows, as many as there are up to the limit, in the order asked
  for, and no matching row that was left out comes strictly before one that was returned. With
  no ORDER BY any choice and any order is an answer.
\<close>

definition answers ::
  "(string \<Rightarrow> string \<Rightarrow> bool) \<Rightarrow> query_mod list \<Rightarrow> table \<Rightarrow> MetaTransactionRequest list \<Rightarrow> bool" where
  "answers le ms T rows \<longleftrightarrow>
     (let cand = filter (matches le ms) T
      in distinct (map ID rows) \<and> list_all (\<lambda>r. r \<in> set cand) rows \<and>
         length rows = (case limit_of ms of None \<Rightarrow> length cand | Some n \<Rightarrow> min n (length cand)) \<and>
         (case order_col ms of None \<Rightarrow> True
          | Some c \<Rightarrow> sorted_wrt (row_le le c) rows \<and>
              list_all (\<lambda>r'. r' \<in> set rows \<or> list_all (\<lambda>r. row_le le c r r') rows) cand))"

section \<open>Meaning of the data-changing statements\<close>

text \<open>
  What the generated code sends: \<open>UPDATE ... SET ... WHERE "id" = $n\<close>, the same over several
  ids, \<open>DELETE\<close> over a list of ids, both over the rows of a query, and
  \<open>INSERT ... ON CONFLICT ... RETURNING\<close>.
\<close>

text \<open>
  \<open>WithText\<close>: a call of \<open>Upsert\<close> with options has written the conflict target or the update set
  itself (an empty text stands for the one generated).
\<close>

datatype conflict_action =
    NoAction
  | DoNothing "col list"
  | DoUpdate "col list" "col list"
  | WithText string string conflict_action

datatype stmt =
    UPDATE "(col \<times> sql_value) list" "string list"
  | DELETE "string list"
  | INSERT "(col \<times> sql_value) list" conflict_action "col list"
  | UPDATE_WHERE "(col \<times> sql_value) list" "query_mod list"
  | DELETE_WHERE "query_mod list"

definition id_in :: "string list \<Rightarrow> MetaTransactionRequest \<Rightarrow> bool" where
  "id_in ids r = list_ex (\<lambda>s. char27 s = Some (ID r)) ids"

text \<open>
  The server answers with the number of affected rows and the rows of the RETURNING clause. An
  UPDATE computes every new row, checks the constraints, and fails as a whole (\<open>None\<close>) when one
  is violated.
\<close>

type_synonym stmt_result = "int \<times> MetaTransactionRequest list"

fun sequence_opt :: "'a option list \<Rightarrow> 'a list option" where
  "sequence_opt [] = Some []"
| "sequence_opt (None # xs) = None"
| "sequence_opt (Some x # xs) = map_option ((#) x) (sequence_opt xs)"

definition unique_ids :: "table \<Rightarrow> bool" where
  "unique_ids T = distinct (map ID T)"

definition unique_hashes :: "table \<Rightarrow> bool" where
  "unique_hashes T = distinct (map Hash (filter (\<lambda>r. Hash r \<noteq> None) T))"

definition changed_row ::
  "(col \<times> sql_value) list \<Rightarrow> MetaTransactionRequest \<Rightarrow> MetaTransactionRequest option" where
  "changed_row vs r =
     (case store_cols vs r of None \<Rightarrow> None | Some r' \<Rightarrow> if row_checks r' then Some r' else None)"

definition change_where ::
  "(MetaTransactionRequest \<Rightarrow> bool) \<Rightarrow> (col \<times> sql_value) list \<Rightarrow> table \<Rightarrow> table option" where
  "change_where P vs T =
     (case sequence_opt (map (\<lambda>r. if P r then changed_row vs r else Some r) T) of
        None \<Rightarrow> None
      | Some T' \<Rightarrow> if unique_ids T' \<and> unique_hashes T' then Some T' else None)"

definition run_UPDATE ::
  "(col \<times> sql_value) list \<Rightarrow> string list \<Rightarrow> table \<Rightarrow> (stmt_result \<times> table) option" where
  "run_UPDATE vs ids T =
     (case change_where (id_in ids) vs T of
        None \<Rightarrow> None
      | Some T' \<Rightarrow> Some ((int (length (filter (id_in ids) T)), []), T'))"

definition run_DELETE :: "string list \<Rightarrow> table \<Rightarrow> (stmt_result \<times> table) option" where
  "run_DELETE ids T =
     Some ((int (length (filter (id_in ids) T)), []), filter (\<lambda>r. \<not> id_in ids r) T)"

text \<open>
  A row to be inserted: columns that are not named take their default (NULL, or the server's
  clock for the two timestamps); the four columns with neither a default nor NULLs must be named.
\<close>

definition inserted_row ::
  "time \<Rightarrow> (col \<times> sql_value) list \<Rightarrow> MetaTransactionRequest option" where
  "inserted_row now vs =
     (if list_all (\<lambda>c. c \<in> set (map fst vs)) metaTransactionRequestColumnsWithoutDefault
      then changed_row vs (zero_request\<lparr>CreatedAt := to_micros now, UpdatedAt := to_micros now\<rparr>) else None)"

text \<open>
  \<open>clash_on\<close>: does the row clash with the table on the unique constraint the conflict target
  names (on any, for no target)? \<open>None\<close>: there is no such constraint.
\<close>

definition clash_on ::
  "col list \<Rightarrow> MetaTransactionRequest \<Rightarrow> MetaTransactionRequest \<Rightarrow> bool option" where
  "clash_on tgt r r' =
     (if tgt = [] then Some (ID r' = ID r \<or> (Hash r \<noteq> None \<and> Hash r' = Hash r))
      else if tgt = [Col_id] then Some (ID r' = ID r)
      else if tgt = [Col_hash] then Some (Hash r \<noteq> None \<and> Hash r' = Hash r)
      else None)"

definition append_row ::
  "MetaTransactionRequest \<Rightarrow> table \<Rightarrow> (stmt_result \<times> table) option" where
  "append_row r T =
     (if id_clash r T \<or> hash_clash r T then None else Some ((1, [r]), T @ [r]))"

text \<open>What SQL text written by the caller does is left open.\<close>

definition run_INSERT ::
  "time \<Rightarrow> (col \<times> sql_value) list \<Rightarrow> conflict_action \<Rightarrow> table \<Rightarrow> (stmt_result \<times> table) option" where
  "run_INSERT now vs act T =
     (case inserted_row now vs of
        None \<Rightarrow> None
      | Some r \<Rightarrow>
          (case act of
             NoAction \<Rightarrow> append_row r T
           | DoNothing tgt \<Rightarrow>
               (if clash_on tgt r r = None then None
                else if list_ex (\<lambda>r'. clash_on tgt r r' = Some True) T then Some ((0, []), T)
                else append_row r T)
           | DoUpdate tgt upd \<Rightarrow>
               (if tgt = [] \<or> clash_on tgt r r = None then None
                else if list_ex (\<lambda>r'. clash_on tgt r r' = Some True) T
                then (case change_where (\<lambda>r'. clash_on tgt r r' = Some True)
                             (bound_values upd r) T of
                        None \<Rightarrow> None
                      | Some T' \<Rightarrow>
                          Some ((1, filter (\<lambda>r'. ID r' = ID r \<or> clash_on tgt r r' = Some True) T'), T'))
                else append_row r T)
           | WithText tgt upd act' \<Rightarrow> undefined))"

text \<open>
  The statements over a query: PostgreSQL knows neither ORDER BY nor LIMIT there, and an UPDATE
  names at least one column.
\<close>

definition run_UPDATE_WHERE ::
  "(string \<Rightarrow> string \<Rightarrow> bool) \<Rightarrow> (col \<times> sql_value) list \<Rightarrow> query_mod list \<Rightarrow> table \<Rightarrow>
   (stmt_result \<times> table) option" where
  "run_UPDATE_WHERE le vs ms T =
     (if vs = [] \<or> order_col ms \<noteq> None \<or> limit_of ms \<noteq> None then None
      else (case change_where (matches le ms) vs T of
              None \<Rightarrow> None
            | Some T' \<Rightarrow> Some ((int (length (filter (matches le ms) T)), []), T')))"

definition run_DELETE_WHERE ::
  "(string \<Rightarrow> string \<Rightarrow> bool) \<Rightarrow> query_mod list \<Rightarrow> table \<Rightarrow> (stmt_result \<times> table) option" where
  "run_DELETE_WHERE le ms T =
     (if order_col ms \<noteq> None \<or> limit_of ms \<noteq> None then None
      else Some ((int (length (filter (matches le ms) T)), []), filter (\<lambda>r. \<not> matches le ms r) T))"

fun run_stmt ::
  "(string \<Rightarrow> string \<Rightarrow> bool) \<Rightarrow> time \<Rightarrow> stmt \<Rightarrow> table \<Rightarrow> (stmt_result \<times> table) option" where
  "run_stmt le now (UPDATE vs ids) T = run_UPDATE vs ids T"
| "run_stmt le now (DELETE ids) T = run_DELETE ids T"
| "run_stmt le now (INSERT vs act ret) T = run_INSERT now vs act T"
| "run_stmt le now (UPDATE_WHERE vs ms) T = run_UPDATE_WHERE le vs ms T"
| "run_stmt le now (DELETE_WHERE ms) T = run_DELETE_WHERE le ms T"

end
