(* ===== verification/Table.thy ===== *)
theory Table
  imports Schema
begin

text \<open>
  Facts about the table: storing columns changes these columns and no other, the constraints
  are kept by every statement, and on a well-formed table each statement the program sends acts
  on the map from ids to rows as an update of one key. The interface that the components rely
  on is the locale \<open>keyed_store\<close>; its interpretation on the SQL statements is at the end.
\<close>

section \<open>Storing columns\<close>

lemma of_num_inject [simp]: "of_num a = of_num b \<longleftrightarrow> a = b"
  by (auto simp: of_num_def split: option.splits)

lemma of_bytes_inject [simp]: "of_bytes a = of_bytes b \<longleftrightarrow> a = b"
  by (auto simp: of_bytes_def split: option.splits)

lemma of_num_simps [simp]: "of_num None = VNull" "of_num (Some n) = VNum n"
  "of_num x = VNull \<longleftrightarrow> x = None" "of_num x = VNum n \<longleftrightarrow> x = Some n"
  by (auto simp: of_num_def split: option.splits)

lemma of_bytes_simps [simp]: "of_bytes None = VNull" "of_bytes (Some b) = VBytes b"
  "of_bytes x = VNull \<longleftrightarrow> x = None" "of_bytes x = VBytes b \<longleftrightarrow> x = Some b"
  by (auto simp: of_bytes_def split: option.splits)

lemma num_of_eq: "num_of v = Some x \<longleftrightarrow> v = of_num x"
  by (cases v; cases x) auto

lemma bytes_of_eq: "bytes_of v = Some x \<longleftrightarrow> v = of_bytes x"
  by (cases v; cases x) auto

lemma store_col_other:
  "store_col c v r = Some r' \<Longrightarrow> d \<noteq> c \<Longrightarrow> field_value d r' = field_value d r"
  by (cases c; cases d; auto split: sql_value.splits)

lemma as_stored_simps [simp]:
  "as_stored (of_num x) = of_num x" "as_stored (of_bytes y) = of_bytes y"
  by (simp_all add: of_num_def of_bytes_def split: option.splits)

lemma as_stored_iffs [simp]:
  "as_stored v = VNull \<longleftrightarrow> v = VNull" "as_stored v = VText s \<longleftrightarrow> v = VText s"
  "as_stored v = VNum n \<longleftrightarrow> v = VNum n" "as_stored v = VBytes b \<longleftrightarrow> v = VBytes b"
  "as_stored v = VInt i \<longleftrightarrow> v = VInt i"
  by (cases v; simp)+

lemma store_col_same:
  "store_col c v r = Some r' \<Longrightarrow> c \<noteq> Col_id \<Longrightarrow> field_value c r' = as_stored v"
  by (cases c; auto simp: num_of_eq bytes_of_eq split: sql_value.splits)

text \<open>A time that is stored again stays as it is.\<close>

lemma to_micros_again [simp]: "to_micros (to_micros t) = to_micros t"
  by (simp add: to_micros_def)

lemma to_micros_numeral [simp]: "to_micros (numeral n) = 1000 * ((numeral n + 500) div 1000)"
  by (simp add: to_micros_def)

lemma to_micros_near: "1000 dvd to_micros t \<and> \<bar>to_micros t - t\<bar> \<le> 500"
proof -
  have "t + 500 = 1000 * ((t + 500) div 1000) + (t + 500) mod 1000" by simp
  moreover have "0 \<le> (t + 500) mod 1000" "(t + 500) mod 1000 < 1000" by simp_all
  ultimately show ?thesis unfolding to_micros_def by (auto simp: abs_if)
qed

lemma store_col_id: "store_col Col_id v r = Some r' \<Longrightarrow>
  \<exists>s s'. v = VText s \<and> char27 s = Some s' \<and> r' = r\<lparr>ID := s'\<rparr>"
  by (auto split: sql_value.splits)

lemma store_cols_other:
  "store_cols vs r = Some r' \<Longrightarrow> d \<notin> fst ` set vs \<Longrightarrow> field_value d r' = field_value d r"
proof (induction vs arbitrary: r)
  case Nil
  then show ?case by simp
next
  case (Cons cv vs)
  obtain c v where cv: "cv = (c, v)" by force
  from Cons.prems cv obtain r1 where r1: "store_col c v r = Some r1" "store_cols vs r1 = Some r'"
    by (auto split: option.splits)
  from Cons.prems(2) cv have "d \<noteq> c" "d \<notin> fst ` set vs" by auto
  with Cons.IH [OF r1(2)] store_col_other [OF r1(1)] show ?case by simp
qed

lemma store_cols_same:
  "store_cols vs r = Some r' \<Longrightarrow> distinct (map fst vs) \<Longrightarrow> (c, v) \<in> set vs \<Longrightarrow> c \<noteq> Col_id \<Longrightarrow>
   field_value c r' = as_stored v"
proof (induction vs arbitrary: r)
  case Nil
  then show ?case by simp
next
  case (Cons cw vs)
  obtain d w where cw: "cw = (d, w)" by force
  from Cons.prems cw obtain r1 where r1: "store_col d w r = Some r1" "store_cols vs r1 = Some r'"
    by (auto split: option.splits)
  show ?case
  proof (cases "(c, v) \<in> set vs")
    case True
    with Cons.IH [OF r1(2)] Cons.prems(2,4) show ?thesis by simp
  next
    case False
    with Cons.prems cw have eq: "d = c" "w = v" and "c \<notin> fst ` set vs"
      by (auto simp: image_iff)
    then show ?thesis
      using store_col_same [OF r1(1)] store_cols_other [OF r1(2), of c] Cons.prems(4) by simp
  qed
qed

lemma field_id_eq: "field_value Col_id r = field_value Col_id r' \<longleftrightarrow> ID r = ID r'" by simp

lemma store_cols_ID: "store_cols vs r = Some r' \<Longrightarrow> Col_id \<notin> fst ` set vs \<Longrightarrow> ID r' = ID r"
  using store_cols_other [of vs r r' Col_id] by simp

lemma store_cols_WalletIndex:
  "store_cols vs r = Some r' \<Longrightarrow> Col_wallet_index \<notin> fst ` set vs \<Longrightarrow> WalletIndex r' = WalletIndex r"
  using store_cols_other [of vs r r' Col_wallet_index] by simp

lemma map_fst_bound_values [simp]: "map fst (bound_values cs r) = cs"
  by (simp add: bound_values_def comp_def)

lemma fst_set_bound_values [simp]: "fst ` set (bound_values cs r) = set cs"
  by (simp flip: set_map)

lemma mem_bound_values: "(c, v) \<in> set (bound_values cs r) \<longleftrightarrow> c \<in> set cs \<and> v = field_value c r"
  by (auto simp: bound_values_def)

lemma map_of_bound_values [simp]:
  "map_of (bound_values cs r) c = (if c \<in> set cs then Some (field_value c r) else None)"
  by (induction cs) (auto simp: bound_values_def)

lemma store_bound_values_same:
  "store_cols (bound_values cs o') r = Some r' \<Longrightarrow> distinct cs \<Longrightarrow> c \<in> set cs \<Longrightarrow> c \<noteq> Col_id \<Longrightarrow>
   field_value c r' = as_stored (field_value c o')"
  by (rule store_cols_same [where vs = "bound_values cs o'"]) (auto simp: mem_bound_values)

section \<open>Well-formed tables\<close>

text \<open>
  Ids are stored with 27 characters, no two rows share an id or a hash, and every row satisfies
  the CHECK constraints.
\<close>

definition table_ok :: "table \<Rightarrow> bool" where
  "table_ok T \<longleftrightarrow> unique_ids T \<and> unique_hashes T \<and>
     (\<forall>r \<in> set T. length (ID r) = 27 \<and> row_checks r)"

lemma table_ok_Nil [simp]: "table_ok []"
  by (simp add: table_ok_def unique_ids_def unique_hashes_def)

lemma char27_length: "char27 s = Some s' \<Longrightarrow> length s' = 27"
  by (auto simp: char27_def split: if_splits)

lemma char27_id [simp]: "length s = 27 \<Longrightarrow> char27 s = Some s"
  by (simp add: char27_def)

lemma char27_short: "char27 s \<noteq> None \<longleftrightarrow> length s \<le> 27"
  by (simp add: char27_def)

text \<open>The abstraction: the rows by id.\<close>

definition rows_by_id :: "table \<Rightarrow> string \<rightharpoonup> MetaTransactionRequest" where
  "rows_by_id T = map_of (map (\<lambda>r. (ID r, r)) T)"

lemma rows_by_id_Nil [simp]: "rows_by_id [] = Map.empty"
  by (simp add: rows_by_id_def)

lemma rows_by_id_Cons [simp]: "rows_by_id (r # T) = (rows_by_id T)(ID r \<mapsto> r)"
  by (simp add: rows_by_id_def)

lemma rows_by_id_ID: "rows_by_id T i = Some r \<Longrightarrow> ID r = i \<and> r \<in> set T"
  by (induction T) (auto split: if_splits)

lemma rows_by_id_mem: "unique_ids T \<Longrightarrow> r \<in> set T \<Longrightarrow> rows_by_id T (ID r) = Some r"
  by (induction T) (auto simp: unique_ids_def image_iff)

lemma rows_by_id_iff: "unique_ids T \<Longrightarrow> rows_by_id T i = Some r \<longleftrightarrow> r \<in> set T \<and> ID r = i"
  using rows_by_id_ID rows_by_id_mem by metis

lemma rows_by_id_None: "rows_by_id T i = None \<longleftrightarrow> i \<notin> ID ` set T"
  by (induction T) auto

lemma ran_rows_by_id: "unique_ids T \<Longrightarrow> ran (rows_by_id T) = set T"
  by (auto simp: ran_def rows_by_id_iff)

lemma table_ok_unique: "table_ok T \<Longrightarrow> unique_ids T"
  by (simp add: table_ok_def)

lemma rows_by_id_filter:
  "unique_ids T \<Longrightarrow>
   rows_by_id (filter P T) i = (case rows_by_id T i of None \<Rightarrow> None | Some r \<Rightarrow> if P r then Some r else None)"
proof (induction T)
  case Nil
  then show ?case by simp
next
  case (Cons r T)
  then have "unique_ids T" and fresh: "ID r \<notin> ID ` set T" by (auto simp: unique_ids_def)
  from fresh have "rows_by_id T (ID r) = None" by (simp add: rows_by_id_None)
  with Cons.IH [OF \<open>unique_ids T\<close>] show ?case by auto
qed

section \<open>The statements on a well-formed table\<close>

lemma id_in_single: "length i = 27 \<Longrightarrow> id_in [i] r \<longleftrightarrow> ID r = i"
  by (auto simp: id_in_def)

lemma unique_filter: "unique_ids T \<Longrightarrow> unique_ids (filter P T)"
  by (auto simp: unique_ids_def distinct_map inj_on_def)

lemma unique_hashes_filter: "unique_hashes T \<Longrightarrow> unique_hashes (filter P T)"
proof -
  assume "unique_hashes T"
  moreover have "filter (\<lambda>r. Hash r \<noteq> None) (filter P T) = filter P (filter (\<lambda>r. Hash r \<noteq> None) T)"
    by (simp only: filter_filter conj_commute)
  ultimately show ?thesis
    unfolding unique_hashes_def by (auto simp: distinct_map inj_on_def simp del: filter_filter)
qed

lemma run_DELETE_ok:
  assumes "table_ok T" and "run_DELETE ids T = Some (res, T')"
  shows "table_ok T'"
  using assms by (auto simp: run_DELETE_def table_ok_def unique_filter unique_hashes_filter)

lemma run_DELETE_rows:
  assumes "table_ok T" and "length i = 27" and "run_DELETE [i] T = Some (res, T')"
  shows "rows_by_id T' = (rows_by_id T)(i := None)"
proof
  fix j
  from assms(3) have T': "T' = filter (\<lambda>r. \<not> id_in [i] r) T" by (simp add: run_DELETE_def)
  have "rows_by_id T' j =
      (case rows_by_id T j of None \<Rightarrow> None | Some r \<Rightarrow> if \<not> id_in [i] r then Some r else None)"
    unfolding T' using assms(1) by (simp add: rows_by_id_filter table_ok_def)
  then show "rows_by_id T' j = ((rows_by_id T)(i := None)) j"
    using assms(2) rows_by_id_ID [of T j] by (auto simp: id_in_single split: option.splits)
qed

lemma sequence_opt_Some: "sequence_opt (map f xs) = Some ys \<longleftrightarrow> list_all2 (\<lambda>x y. f x = Some y) xs ys"
proof (induction xs arbitrary: ys)
  case Nil
  then show ?case by auto
next
  case (Cons x xs)
  then show ?case by (cases "f x") (auto simp: list_all2_Cons1)
qed

lemma change_where_rel:
  "change_where P vs T = Some T' \<Longrightarrow>
   list_all2 (\<lambda>r r'. if P r then changed_row vs r = Some r' else r' = r) T T' \<and>
   unique_ids T' \<and> unique_hashes T'"
  by (auto simp: change_where_def sequence_opt_Some split: option.splits if_splits
      elim!: list_all2_mono)

lemma changed_row_Some:
  "changed_row vs r = Some r' \<longleftrightarrow> store_cols vs r = Some r' \<and> row_checks r'"
  by (auto simp: changed_row_def split: option.splits if_splits)

lemma changed_row_length:
  assumes "changed_row vs r = Some r'" and "length (ID r) = 27"
  shows "length (ID r') = 27"
proof -
  have "length (ID r') = 27" if "store_cols vs r = Some r'" "length (ID r) = 27" for vs r
    using that
  proof (induction vs arbitrary: r)
    case Nil
    then show ?case by simp
  next
    case (Cons cv vs)
    obtain c v where cv: "cv = (c, v)" by force
    from Cons.prems cv obtain r1 where r1: "store_col c v r = Some r1" "store_cols vs r1 = Some r'"
      by (auto split: option.splits)
    have "length (ID r1) = 27"
      using store_col_other [OF r1(1), of Col_id] Cons.prems(2) store_col_id r1(1) char27_length
      by (cases "c = Col_id") (auto split: sql_value.splits)
    with Cons.IH r1(2) show ?case by blast
  qed
  with assms show ?thesis unfolding changed_row_Some by blast
qed

lemma change_where_ok:
  assumes "table_ok T" and "change_where P vs T = Some T'"
  shows "table_ok T'"
proof -
  from change_where_rel [OF assms(2)]
  have rel: "list_all2 (\<lambda>r r'. if P r then changed_row vs r = Some r' else r' = r) T T'"
    and uniq: "unique_ids T'" "unique_hashes T'" by auto
  have "length (ID r') = 27 \<and> row_checks r'" if "r' \<in> set T'" for r'
  proof -
    from list_all2_right [OF rel that]
    obtain r where "r \<in> set T" "if P r then changed_row vs r = Some r' else r' = r" by blast
    with assms(1) changed_row_length [of vs r r'] show ?thesis
      by (auto simp: table_ok_def changed_row_Some split: if_splits)
  qed
  with uniq show ?thesis by (simp add: table_ok_def)
qed

text \<open>
  A change by rows that keeps every id changes the map pointwise.
\<close>

lemma rows_by_id_list_all2:
  assumes "list_all2 (\<lambda>r r'. ID r' = ID r \<and> R r r') T T'"
  shows "rel_option R (rows_by_id T i) (rows_by_id T' i)"
  using assms by (induction rule: list_all2_induct) auto

lemma change_where_rows:
  assumes "change_where P vs T = Some T'" and "Col_id \<notin> fst ` set vs"
  shows "rel_option (\<lambda>r r'. if P r then changed_row vs r = Some r' else r' = r)
           (rows_by_id T i) (rows_by_id T' i)"
proof (rule rows_by_id_list_all2)
  from change_where_rel [OF assms(1)]
  have "list_all2 (\<lambda>r r'. if P r then changed_row vs r = Some r' else r' = r) T T'" by simp
  then show "list_all2 (\<lambda>r r'. ID r' = ID r \<and>
      (if P r then changed_row vs r = Some r' else r' = r)) T T'"
    by (rule list_all2_mono)
       (use assms(2) in \<open>auto simp: changed_row_Some dest: store_cols_ID split: if_splits\<close>)
qed

lemma run_UPDATE_ok:
  "table_ok T \<Longrightarrow> run_UPDATE vs ids T = Some (res, T') \<Longrightarrow> table_ok T'"
  by (auto simp: run_UPDATE_def dest: change_where_ok split: option.splits)

lemma run_UPDATE_rows:
  assumes "table_ok T" and "length i = 27" and "Col_id \<notin> fst ` set vs"
    and "run_UPDATE vs [i] T = Some (res, T')"
  shows "case rows_by_id T i of
      None \<Rightarrow> rows_by_id T' = rows_by_id T
    | Some r \<Rightarrow> \<exists>r'. changed_row vs r = Some r' \<and> rows_by_id T' = (rows_by_id T)(i \<mapsto> r')"
proof -
  from assms(4) have ch: "change_where (id_in [i]) vs T = Some T'"
    by (auto simp: run_UPDATE_def split: option.splits)
  have rel: "rel_option (\<lambda>r r'. if ID r = i then changed_row vs r = Some r' else r' = r)
      (rows_by_id T j) (rows_by_id T' j)" for j
    using change_where_rows [OF ch assms(3), of j] by (simp add: id_in_single assms(2))
  have other: "rows_by_id T' j = rows_by_id T j" if "j \<noteq> i" for j
    using rel [of j] that rows_by_id_ID [of T j] by (auto elim!: option.rel_cases split: if_splits)
  show ?thesis
  proof (cases "rows_by_id T i")
    case None
    with rel [of i] have "rows_by_id T' i = None" by simp
    with None other have "rows_by_id T' = rows_by_id T" by (metis ext)
    with None show ?thesis by simp
  next
    case (Some r)
    with rel [of i] obtain r' where r': "rows_by_id T' i = Some r'"
        "if ID r = i then changed_row vs r = Some r' else r' = r"
      by (auto elim: option.rel_cases)
    from Some have "ID r = i" by (simp add: rows_by_id_ID)
    with r' other have "changed_row vs r = Some r' \<and> rows_by_id T' = (rows_by_id T)(i \<mapsto> r')"
      by (auto simp: fun_eq_iff)
    with Some show ?thesis by auto
  qed
qed

lemma unique_ids_snoc: "unique_ids (T @ [r]) \<longleftrightarrow> unique_ids T \<and> \<not> id_clash r T"
  by (auto simp: unique_ids_def id_clash_def list_ex_iff) (metis imageI)

lemma unique_hashes_snoc: "unique_hashes (T @ [r]) \<longleftrightarrow> unique_hashes T \<and> \<not> hash_clash r T"
  by (force simp: unique_hashes_def hash_clash_def list_ex_iff)

lemma append_row_ok:
  assumes "table_ok T" and "append_row r T = Some (res, T')" and "length (ID r) = 27"
    and "row_checks r"
  shows "table_ok T' \<and> rows_by_id T (ID r) = None \<and> rows_by_id T' = (rows_by_id T)(ID r \<mapsto> r)"
proof -
  from assms(2) have c: "\<not> id_clash r T" "\<not> hash_clash r T" and T': "T' = T @ [r]"
    by (auto simp: append_row_def split: if_splits)
  with assms have ok: "table_ok T'"
    by (auto simp: table_ok_def unique_ids_snoc unique_hashes_snoc)
  from c have none: "rows_by_id T (ID r) = None"
    by (auto simp: rows_by_id_None id_clash_def list_ex_iff)
  then have "rows_by_id T' = (rows_by_id T)(ID r \<mapsto> r)"
    unfolding T' rows_by_id_def by (auto simp: map_add_def fun_eq_iff split: option.splits)
  with ok none show ?thesis by blast
qed

lemma inserted_row_length:
  assumes "inserted_row now vs = Some r" and "distinct (map fst vs)"
  shows "length (ID r) = 27"
proof -
  have "length (ID r') = 27"
    if "store_cols vs r0 = Some r'" "Col_id \<in> fst ` set vs" "distinct (map fst vs)" for vs r0 r'
    using that
  proof (induction vs arbitrary: r0)
    case Nil
    then show ?case by simp
  next
    case (Cons cv vs)
    obtain c v where cv: "cv = (c, v)" by force
    from Cons.prems cv obtain r1 where r1: "store_col c v r0 = Some r1" "store_cols vs r1 = Some r'"
      by (auto split: option.splits)
    show ?case
    proof (cases "c = Col_id")
      case True
      with Cons.prems cv have "Col_id \<notin> fst ` set vs" by (auto simp: image_iff)
      with store_cols_ID [OF r1(2)] store_col_id r1(1) True char27_length show ?thesis
        by fastforce
    next
      case False
      with Cons.prems cv Cons.IH [OF r1(2)] show ?thesis by auto
    qed
  qed
  moreover from assms(1) have "store_cols vs
      (zero_request\<lparr>CreatedAt := to_micros now, UpdatedAt := to_micros now\<rparr>) = Some r"
    and "Col_id \<in> fst ` set vs"
    by (auto simp: inserted_row_def changed_row_Some metaTransactionRequestColumnsWithoutDefault_def
        split: if_splits)
  ultimately show ?thesis using assms(2) by blast
qed

lemma inserted_row_checks: "inserted_row now vs = Some r \<Longrightarrow> row_checks r"
  by (auto simp: inserted_row_def changed_row_Some split: if_splits)

text \<open>An insert that ignores a clash on the id adds the row or leaves the table alone.\<close>

lemma run_INSERT_DoNothing:
  assumes "table_ok T" and "distinct (map fst vs)"
    and "run_INSERT now vs (DoNothing [Col_id]) T = Some (res, T')"
  shows "\<exists>r. inserted_row now vs = Some r \<and> table_ok T' \<and>
    (case rows_by_id T (ID r) of
       Some r0 \<Rightarrow> T' = T \<and> res = (0, [])
     | None \<Rightarrow> rows_by_id T' = (rows_by_id T)(ID r \<mapsto> r) \<and> res = (1, [r]))"
proof -
  from assms(3) obtain r where r: "inserted_row now vs = Some r"
    by (auto simp: run_INSERT_def split: option.splits)
  note len = inserted_row_length [OF r assms(2)] and chk = inserted_row_checks [OF r]
  show ?thesis
  proof (cases "rows_by_id T (ID r)")
    case None
    then have "\<not> list_ex (\<lambda>r'. ID r' = ID r) T"
      by (auto simp: rows_by_id_None list_ex_iff) (metis imageI)
    with assms(3) r have app: "append_row r T = Some (res, T')"
      by (auto simp: run_INSERT_def clash_on_def)
    then have "res = (1, [r])" by (auto simp: append_row_def split: if_splits)
    with append_row_ok [OF assms(1) app len chk] r None show ?thesis by auto
  next
    case (Some r0)
    then have "list_ex (\<lambda>r'. ID r' = ID r) T"
      using rows_by_id_ID [OF Some] by (auto simp: list_ex_iff)
    with assms(1,3) r Some show ?thesis
      by (auto simp: run_INSERT_def clash_on_def)
  qed
qed

section \<open>The interface of the store\<close>

text \<open>
  What the components rely on: three kinds of atomic change (remove a key, change the row of a
  key, add a row unless its key is taken) and the map they act on. The rows belong to owners
  (wallets) and may be active (submitted); the lemmas about "at most one active row per owner"
  are proved here once, from the laws alone.
\<close>

definition at_most_one :: "('v \<Rightarrow> 'w) \<Rightarrow> ('v \<Rightarrow> bool) \<Rightarrow> ('k \<rightharpoonup> 'v) \<Rightarrow> bool" where
  "at_most_one own act m \<longleftrightarrow>
     (\<forall>k k' v v'. m k = Some v \<and> m k' = Some v' \<and> act v \<and> act v' \<and> own v = own v' \<longrightarrow> k = k')"

definition idle :: "('v \<Rightarrow> 'w) \<Rightarrow> ('v \<Rightarrow> bool) \<Rightarrow> 'w \<Rightarrow> ('k \<rightharpoonup> 'v) \<Rightarrow> bool" where
  "idle own act w m \<longleftrightarrow> (\<forall>k v. m k = Some v \<and> own v = w \<longrightarrow> \<not> act v)"

locale keyed_store =
  fixes inv :: "'t \<Rightarrow> bool"
    and rows :: "'t \<Rightarrow> 'k \<rightharpoonup> 'v"
    and removes :: "'k \<Rightarrow> 't \<Rightarrow> 't \<Rightarrow> bool"
    and changes :: "'k \<Rightarrow> ('v \<Rightarrow> 'v \<Rightarrow> bool) \<Rightarrow> 't \<Rightarrow> 't \<Rightarrow> bool"
    and adds :: "'v \<Rightarrow> 't \<Rightarrow> 't \<Rightarrow> bool"
    and key :: "'v \<Rightarrow> 'k"
  assumes removes_law: "inv t \<Longrightarrow> removes k t t' \<Longrightarrow> inv t' \<and> rows t' = (rows t)(k := None)"
    and changes_law: "inv t \<Longrightarrow> changes k R t t' \<Longrightarrow> inv t' \<and>
      (case rows t k of None \<Rightarrow> rows t' = rows t
       | Some v \<Rightarrow> \<exists>v'. R v v' \<and> rows t' = (rows t)(k \<mapsto> v'))"
    and adds_law: "inv t \<Longrightarrow> adds v t t' \<Longrightarrow> inv t' \<and>
      (if rows t (key v) = None then rows t' = (rows t)(key v \<mapsto> v) else rows t' = rows t)"
begin

lemma removes_gone: "inv t \<Longrightarrow> removes k t t' \<Longrightarrow> rows t' k = None"
  using removes_law by fastforce

lemma removes_other: "inv t \<Longrightarrow> removes k t t' \<Longrightarrow> j \<noteq> k \<Longrightarrow> rows t' j = rows t j"
  using removes_law by fastforce

lemma changes_other: "inv t \<Longrightarrow> changes k R t t' \<Longrightarrow> j \<noteq> k \<Longrightarrow> rows t' j = rows t j"
  using changes_law [of t k R t'] by (auto split: option.splits)

lemma changes_dom: "inv t \<Longrightarrow> changes k R t t' \<Longrightarrow> dom (rows t') = dom (rows t)"
  using changes_law [of t k R t'] by (auto split: option.splits if_splits)

lemma adds_keeps: "inv t \<Longrightarrow> adds v t t' \<Longrightarrow> rows t k = Some u \<Longrightarrow> rows t' k = Some u"
  using adds_law [of t v t'] by (auto split: if_splits)

lemma adds_twice:
  assumes "inv t" and "adds v t t'" and "adds u t' t''" and "key u = key v"
  shows "rows t'' = rows t'"
proof -
  from adds_law [OF assms(1,2)] have "inv t'" and "rows t' (key v) \<noteq> None"
    by (auto split: if_splits)
  with adds_law [OF _ assms(3)] assms(4) show ?thesis by auto
qed

end

locale owned_store = keyed_store inv rows removes changes adds key
  for inv :: "'t \<Rightarrow> bool"
    and rows :: "'t \<Rightarrow> 'k \<rightharpoonup> 'v"
    and removes :: "'k \<Rightarrow> 't \<Rightarrow> 't \<Rightarrow> bool"
    and changes :: "'k \<Rightarrow> ('v \<Rightarrow> 'v \<Rightarrow> bool) \<Rightarrow> 't \<Rightarrow> 't \<Rightarrow> bool"
    and adds :: "'v \<Rightarrow> 't \<Rightarrow> 't \<Rightarrow> bool"
    and key :: "'v \<Rightarrow> 'k" +
  fixes own :: "'v \<Rightarrow> 'w" and act :: "'v \<Rightarrow> bool"
begin

lemma removes_at_most_one:
  "inv t \<Longrightarrow> removes k t t' \<Longrightarrow> at_most_one own act (rows t) \<Longrightarrow> at_most_one own act (rows t')"
  using removes_law [of t k t'] by (auto simp: at_most_one_def split: if_splits)

lemma adds_at_most_one:
  assumes "inv t" and "adds v t t'" and "\<not> act v" and "at_most_one own act (rows t)"
  shows "at_most_one own act (rows t')"
  using adds_law [OF assms(1,2)] assms(3,4)
  by (auto simp: at_most_one_def split: if_splits)

text \<open>A change that activates no row, and one that activates a row of an idle owner.\<close>

lemma changes_at_most_one:
  assumes "inv t" and "changes k R t t'"
    and "\<And>v v'. R v v' \<Longrightarrow> own v' = own v \<and> (act v' \<longrightarrow> act v)"
    and "at_most_one own act (rows t)"
  shows "at_most_one own act (rows t')"
proof (cases "rows t k")
  case None
  with changes_law [OF assms(1,2)] assms(4) show ?thesis by simp
next
  case (Some v)
  with changes_law [OF assms(1,2)] obtain v' where v': "R v v'" "rows t' = (rows t)(k \<mapsto> v')"
    by auto
  from assms(3) [OF v'(1)] v'(2) Some assms(4) show ?thesis
    unfolding at_most_one_def by (metis fun_upd_apply option.inject)
qed

lemma activates_at_most_one:
  assumes "inv t" and "changes k R t t'"
    and "\<And>v v'. R v v' \<Longrightarrow> own v' = own v"
    and "\<And>v. rows t k = Some v \<Longrightarrow> idle own act (own v) (rows t)"
    and "at_most_one own act (rows t)"
  shows "at_most_one own act (rows t')"
proof (cases "rows t k")
  case None
  with changes_law [OF assms(1,2)] assms(5) show ?thesis by simp
next
  case (Some v)
  with changes_law [OF assms(1,2)] obtain v' where v': "R v v'" "rows t' = (rows t)(k \<mapsto> v')"
    by auto
  from assms(3) [OF v'(1)] assms(4) [OF Some] v'(2) assms(5) show ?thesis
    unfolding at_most_one_def idle_def by (metis fun_upd_apply option.inject)
qed

text \<open>Removing the only active row of an owner leaves the owner idle.\<close>

lemma removes_idle:
  assumes "inv t" and "removes k t t'" and "at_most_one own act (rows t)"
    and "rows t k = Some v" and "act v" and "own v = w"
  shows "idle own act w (rows t')"
proof -
  from removes_law [OF assms(1,2)] have "rows t' = (rows t)(k := None)" by simp
  with assms(3-6) show ?thesis
    unfolding at_most_one_def idle_def by (metis fun_upd_apply option.distinct(1))
qed

lemma removes_keeps_idle:
  "inv t \<Longrightarrow> removes k t t' \<Longrightarrow> idle own act w (rows t) \<Longrightarrow> idle own act w (rows t')"
  using removes_law [of t k t'] by (auto simp: idle_def split: if_splits)

lemma adds_keeps_idle:
  "inv t \<Longrightarrow> adds v t t' \<Longrightarrow> \<not> act v \<Longrightarrow> idle own act w (rows t) \<Longrightarrow> idle own act w (rows t')"
  using adds_law [of t v t'] by (auto simp: idle_def split: if_splits)

lemma changes_keeps_idle:
  assumes "inv t" and "changes k R t t'" and "idle own act w (rows t)"
    and "\<And>v v'. R v v' \<Longrightarrow> own v' = own v"
    and "\<And>v v'. rows t k = Some v \<Longrightarrow> R v v' \<Longrightarrow> own v = w \<Longrightarrow> \<not> act v'"
  shows "idle own act w (rows t')"
proof (cases "rows t k")
  case None
  with changes_law [OF assms(1,2)] assms(3) show ?thesis by simp
next
  case (Some v)
  with changes_law [OF assms(1,2)] obtain v' where v': "R v v'" "rows t' = (rows t)(k \<mapsto> v')"
    by auto
  from assms(4) [OF v'(1)] assms(5) [OF Some v'(1)] v'(2) assms(3) show ?thesis
    unfolding idle_def by (metis fun_upd_apply option.inject)
qed

end

section \<open>The SQL statements provide the interface\<close>

definition sql_removes :: "string \<Rightarrow> table \<Rightarrow> table \<Rightarrow> bool" where
  "sql_removes i T T' \<longleftrightarrow> length i = 27 \<and> (\<exists>res. run_DELETE [i] T = Some (res, T'))"

definition sql_changes ::
  "string \<Rightarrow> (MetaTransactionRequest \<Rightarrow> MetaTransactionRequest \<Rightarrow> bool) \<Rightarrow> table \<Rightarrow> table \<Rightarrow> bool" where
  "sql_changes i R T T' \<longleftrightarrow> length i = 27 \<and>
     (\<exists>vs res. Col_id \<notin> fst ` set vs \<and> run_UPDATE vs [i] T = Some (res, T') \<and>
        (\<forall>r r'. changed_row vs r = Some r' \<longrightarrow> R r r'))"

definition sql_adds :: "MetaTransactionRequest \<Rightarrow> table \<Rightarrow> table \<Rightarrow> bool" where
  "sql_adds r T T' \<longleftrightarrow>
     (\<exists>now vs res. distinct (map fst vs) \<and> inserted_row now vs = Some r \<and>
        run_INSERT now vs (DoNothing [Col_id]) T = Some (res, T'))"

definition active :: "MetaTransactionRequest \<Rightarrow> bool" where
  "active r \<longleftrightarrow> SubmittedBlockNumber r \<noteq> None"

interpretation requests: owned_store table_ok rows_by_id sql_removes sql_changes sql_adds ID WalletIndex active
proof unfold_locales
  fix T T' i
  assume "table_ok T" "sql_removes i T T'"
  then show "table_ok T' \<and> rows_by_id T' = (rows_by_id T)(i := None)"
    by (auto simp: sql_removes_def dest: run_DELETE_ok run_DELETE_rows)
next
  fix T T' i R
  assume ok: "table_ok T" and "sql_changes i R T T'"
  then obtain vs res where i: "length i = 27" and vs: "Col_id \<notin> fst ` set vs"
    and run: "run_UPDATE vs [i] T = Some (res, T')"
    and R: "\<And>r r'. changed_row vs r = Some r' \<Longrightarrow> R r r'"
    by (auto simp: sql_changes_def)
  from run_UPDATE_rows [OF ok i vs run] R run_UPDATE_ok [OF ok run]
  show "table_ok T' \<and> (case rows_by_id T i of None \<Rightarrow> rows_by_id T' = rows_by_id T
      | Some v \<Rightarrow> \<exists>v'. R v v' \<and> rows_by_id T' = (rows_by_id T)(i \<mapsto> v'))"
    by (auto split: option.splits)
next
  fix T T' r
  assume ok: "table_ok T" and "sql_adds r T T'"
  then obtain now vs res where "distinct (map fst vs)" and r: "inserted_row now vs = Some r"
    and "run_INSERT now vs (DoNothing [Col_id]) T = Some (res, T')"
    by (auto simp: sql_adds_def)
  from run_INSERT_DoNothing [OF ok this(1,3)] r
  show "table_ok T' \<and> (if rows_by_id T (ID r) = None then rows_by_id T' = (rows_by_id T)(ID r \<mapsto> r)
      else rows_by_id T' = rows_by_id T)"
    by (auto split: option.splits)
qed

end
