(* ===== verification/Status.thy ===== *)
theory Status
  imports Prelude
begin

text \<open>
  internal/status/status.go: the four status messages, the \<open>Producer\<close> interface, the JSON
  document a message becomes and the Kafka producer that sends it. \<open>encoding/json\<close> is modelled
  up to the document tree (\<open>json\<close>), following the tags of the structs; how the \<open>CloudEvent\<close>
  envelope of DIMO-Network/shared and go-ethereum's fixed-size byte types are written is not in
  this repository, so those are parameters (\<open>json_lib\<close>). The broker is a parameter as well; it
  may store a message and still report an error.
\<close>

section \<open>Messages\<close>

record Log =
  Address :: address
  Topics :: "hash list"
  LogData :: bytes

record SubmittedMsg =
  SubmittedMsg_ID :: string
  SubmittedMsg_Hash :: hash

record MinedMsg =
  MinedMsg_ID :: string
  MinedMsg_Hash :: hash

record ConfirmedMsg =
  ConfirmedMsg_ID :: string
  ConfirmedMsg_Hash :: hash
  ConfirmedMsg_Logs :: "Log list"
  ConfirmedMsg_Successful :: bool

record FailedMsg =
  FailedMsg_ID :: string
  FailedMsg_Data :: bytes

text \<open>The methods of the interface \<open>Producer\<close>: one constructor per method.\<close>

datatype Producer =
    Submitted SubmittedMsg
  | Mined MinedMsg
  | Confirmed ConfirmedMsg
  | Failed FailedMsg

fun request_id :: "Producer \<Rightarrow> string" where
  "request_id (Submitted m) = SubmittedMsg_ID m"
| "request_id (Mined m) = MinedMsg_ID m"
| "request_id (Confirmed m) = ConfirmedMsg_ID m"
| "request_id (Failed m) = FailedMsg_ID m"

section \<open>The event data and its JSON\<close>

record tx =
  tx_Hash :: hash
  tx_Successful :: "bool option"
  tx_Logs :: "Log list"

record reason =
  reason_Data :: bytes

record ceData =
  RequestID :: string
  Type :: string
  Transaction :: "tx option"
  Reason :: "reason option"

datatype json = JStr string | JBool bool | JArr "json list" | JObj "(string \<times> json) list"

record json_lib =
  hash_text :: "hash \<Rightarrow> string"
  address_text :: "address \<Rightarrow> string"
  bytes_text :: "bytes \<Rightarrow> string"

definition Log_json :: "json_lib \<Rightarrow> Log \<Rightarrow> json" where
  "Log_json L l = JObj
     [(''address'', JStr (address_text L (Address l))),
      (''topics'', JArr (map (\<lambda>h. JStr (hash_text L h)) (Topics l))),
      (''data'', JStr (bytes_text L (LogData l)))]"

text \<open>\<open>omitempty\<close> drops a nil pointer and an empty slice.\<close>

definition tx_json :: "json_lib \<Rightarrow> tx \<Rightarrow> json" where
  "tx_json L t = JObj
     ([(''hash'', JStr (hash_text L (tx_Hash t)))] @
      (case tx_Successful t of None \<Rightarrow> [] | Some b \<Rightarrow> [(''successful'', JBool b)]) @
      (if tx_Logs t = [] then [] else [(''logs'', JArr (map (Log_json L) (tx_Logs t)))]))"

definition reason_json :: "json_lib \<Rightarrow> reason \<Rightarrow> json" where
  "reason_json L r = JObj [(''data'', JStr (bytes_text L (reason_Data r)))]"

definition ceData_json :: "json_lib \<Rightarrow> ceData \<Rightarrow> json" where
  "ceData_json L d = JObj
     ([(''requestId'', JStr (RequestID d)), (''type'', JStr (Type d))] @
      (case Transaction d of None \<Rightarrow> [] | Some t \<Rightarrow> [(''transaction'', tx_json L t)]) @
      (case Reason d of None \<Rightarrow> [] | Some r \<Rightarrow> [(''reason'', reason_json L r)]))"

section \<open>The Kafka producer\<close>

record 'a CloudEvent =
  ce_ID :: string
  ce_Source :: string
  ce_Subject :: string
  ce_SpecVersion :: string
  ce_Time :: time
  ce_Type :: string
  ce_Data :: 'a

definition envelope :: "string \<Rightarrow> time \<Rightarrow> string \<Rightarrow> 'a \<Rightarrow> 'a CloudEvent" where
  "envelope new now subject d =
     \<lparr>ce_ID = new, ce_Source = ''meta-transaction-processor'', ce_Subject = subject,
      ce_SpecVersion = ''1.0'', ce_Time = now,
      ce_Type = ''zone.dimo.transaction.request.event'', ce_Data = d\<rparr>"

definition Confirmed_event :: "string \<Rightarrow> time \<Rightarrow> ConfirmedMsg \<Rightarrow> ceData CloudEvent" where
  "Confirmed_event new now msg = envelope new now (ConfirmedMsg_ID msg)
     \<lparr>RequestID = ConfirmedMsg_ID msg, Type = ''Confirmed'',
      Transaction = Some \<lparr>tx_Hash = ConfirmedMsg_Hash msg,
        tx_Successful = Some (ConfirmedMsg_Successful msg), tx_Logs = ConfirmedMsg_Logs msg\<rparr>,
      Reason = None\<rparr>"

definition Submitted_event :: "string \<Rightarrow> time \<Rightarrow> SubmittedMsg \<Rightarrow> ceData CloudEvent" where
  "Submitted_event new now msg = envelope new now (SubmittedMsg_ID msg)
     \<lparr>RequestID = SubmittedMsg_ID msg, Type = ''Submitted'',
      Transaction = Some \<lparr>tx_Hash = SubmittedMsg_Hash msg, tx_Successful = None, tx_Logs = []\<rparr>,
      Reason = None\<rparr>"

definition Mined_event :: "string \<Rightarrow> time \<Rightarrow> MinedMsg \<Rightarrow> ceData CloudEvent" where
  "Mined_event new now msg = envelope new now (MinedMsg_ID msg)
     \<lparr>RequestID = MinedMsg_ID msg, Type = ''Mined'',
      Transaction = Some \<lparr>tx_Hash = MinedMsg_Hash msg, tx_Successful = None, tx_Logs = []\<rparr>,
      Reason = None\<rparr>"

definition Failed_event :: "string \<Rightarrow> time \<Rightarrow> FailedMsg \<Rightarrow> ceData CloudEvent" where
  "Failed_event new now msg = envelope new now (FailedMsg_ID msg)
     \<lparr>RequestID = FailedMsg_ID msg, Type = ''Failed'', Transaction = None,
      Reason = Some \<lparr>reason_Data = FailedMsg_Data msg\<rparr>\<rparr>"

fun event_of :: "string \<Rightarrow> time \<Rightarrow> Producer \<Rightarrow> ceData CloudEvent" where
  "event_of new now (Submitted m) = Submitted_event new now m"
| "event_of new now (Mined m) = Mined_event new now m"
| "event_of new now (Confirmed m) = Confirmed_event new now m"
| "event_of new now (Failed m) = Failed_event new now m"

lemmas event_defs =
  envelope_def Confirmed_event_def Submitted_event_def Mined_event_def Failed_event_def

record ProducerMessage =
  pm_Topic :: string
  pm_Value :: bytes

text \<open>
  What comes of one \<open>SendMessage\<close>. The library sends again what the broker has not acknowledged in
  time, so that the topic may get several copies: at least one when the message is acknowledged
  (\<open>Acked n\<close>: one and \<open>n\<close> more), any number when it is not.
\<close>

datatype send_result = Acked nat | NotAcked nat goerror

text \<open>
  The producer's surroundings: a ksuid generator, the clock and the broker, over a state \<open>'e\<close>
  the program does not see; \<open>marshal\<close> writes an envelope whose data is already a document.
\<close>

record 'e kafka_lib =
  ksuid_New :: "'e \<Rightarrow> string \<times> 'e"
  time_Now :: "'e \<Rightarrow> time \<times> 'e"
  marshal :: "json CloudEvent \<Rightarrow> goerror + bytes"
  SendMessage :: "ProducerMessage \<Rightarrow> 'e \<Rightarrow> send_result \<times> 'e"

record 'e broker =
  stored :: "ProducerMessage list"
  surroundings :: 'e

definition with_data :: "('a \<Rightarrow> 'b) \<Rightarrow> 'a CloudEvent \<Rightarrow> 'b CloudEvent" where
  "with_data f e =
     \<lparr>ce_ID = ce_ID e, ce_Source = ce_Source e, ce_Subject = ce_Subject e,
      ce_SpecVersion = ce_SpecVersion e, ce_Time = ce_Time e, ce_Type = ce_Type e,
      ce_Data = f (ce_Data e)\<rparr>"

text \<open>
  A method of \<open>kafkaProducer\<close>: build the event, marshal it (an error is logged and ends the
  call), send it (an error is logged). Nothing is returned to the caller.
\<close>

definition kafkaProducer ::
  "json_lib \<Rightarrow> 'e kafka_lib \<Rightarrow> string \<Rightarrow> Producer \<Rightarrow> 'e broker \<Rightarrow> 'e broker" where
  "kafkaProducer L K topic msg b =
     (let (new, e1) = ksuid_New K (surroundings b);
          (now, e2) = time_Now K e1;
          event = event_of new now msg
      in case marshal K (with_data (ceData_json L) event) of
           Inl err \<Rightarrow> b\<lparr>surroundings := e2\<rparr>
         | Inr bs \<Rightarrow>
             (let m = \<lparr>pm_Topic = topic, pm_Value = bs\<rparr>
              in case SendMessage K m e2 of
                   (Acked n, e3) \<Rightarrow> b\<lparr>stored := stored b @ replicate (Suc n) m, surroundings := e3\<rparr>
                 | (NotAcked n err, e3) \<Rightarrow> b\<lparr>stored := stored b @ replicate n m, surroundings := e3\<rparr>))"

text \<open>\<open>NewKafka\<close> fails exactly when the synchronous producer cannot be made.\<close>

definition NewKafka :: "(goerror + 'kp) \<Rightarrow> string \<Rightarrow> goerror + ('kp \<times> string)" where
  "NewKafka kp topic = (case kp of Inl err \<Rightarrow> Inl err | Inr p \<Rightarrow> Inr (p, topic))"

section \<open>Reading a message back\<close>

text \<open>
  The reader's side, as a specification of what the document carries: which message was sent is
  recovered from its JSON, given readers for the three text forms.
\<close>

record json_reader =
  read_hash :: "string \<Rightarrow> hash option"
  read_address :: "string \<Rightarrow> address option"
  read_bytes :: "string \<Rightarrow> bytes option"

definition reads_back :: "json_lib \<Rightarrow> json_reader \<Rightarrow> bool" where
  "reads_back L R \<longleftrightarrow>
     (\<forall>h. read_hash R (hash_text L h) = Some h) \<and>
     (\<forall>a. read_address R (address_text L a) = Some a) \<and>
     (\<forall>b. read_bytes R (bytes_text L b) = Some b)"

fun member :: "string \<Rightarrow> json \<Rightarrow> json option" where
  "member k (JObj kvs) = map_of kvs k"
| "member k _ = None"

fun str_of :: "json \<Rightarrow> string option" where
  "str_of (JStr s) = Some s"
| "str_of _ = None"

fun bool_of :: "json \<Rightarrow> bool option" where
  "bool_of (JBool b) = Some b"
| "bool_of _ = None"

fun elems :: "json \<Rightarrow> json list option" where
  "elems (JArr js) = Some js"
| "elems _ = None"

fun traverse :: "('a \<Rightarrow> 'b option) \<Rightarrow> 'a list \<Rightarrow> 'b list option" where
  "traverse f [] = Some []"
| "traverse f (x # xs) =
     (case f x of None \<Rightarrow> None | Some y \<Rightarrow> map_option ((#) y) (traverse f xs))"

definition read_str :: "(string \<Rightarrow> 'a option) \<Rightarrow> string \<Rightarrow> json \<Rightarrow> 'a option" where
  "read_str f k j = Option.bind (member k j) (\<lambda>v. Option.bind (str_of v) f)"

definition read_Log :: "json_reader \<Rightarrow> json \<Rightarrow> Log option" where
  "read_Log R j =
     Option.bind (read_str (read_address R) ''address'' j) (\<lambda>a.
     Option.bind (Option.bind (member ''topics'' j) elems) (\<lambda>ts.
     Option.bind (traverse (\<lambda>t. Option.bind (str_of t) (read_hash R)) ts) (\<lambda>hs.
     Option.bind (read_str (read_bytes R) ''data'' j) (\<lambda>d.
       Some \<lparr>Address = a, Topics = hs, LogData = d\<rparr>))))"

definition read_logs :: "json_reader \<Rightarrow> json \<Rightarrow> Log list option" where
  "read_logs R t =
     (case member ''logs'' t of None \<Rightarrow> Some []
      | Some ls \<Rightarrow> Option.bind (elems ls) (traverse (read_Log R)))"

definition read_status :: "json_reader \<Rightarrow> json \<Rightarrow> Producer option" where
  "read_status R j =
     Option.bind (read_str Some ''requestId'' j) (\<lambda>i.
     Option.bind (read_str Some ''type'' j) (\<lambda>ty.
       if ty = ''Failed'' then
         Option.bind (member ''reason'' j) (\<lambda>r.
         Option.bind (read_str (read_bytes R) ''data'' r) (\<lambda>d.
           Some (Failed \<lparr>FailedMsg_ID = i, FailedMsg_Data = d\<rparr>)))
       else
         Option.bind (member ''transaction'' j) (\<lambda>t.
         Option.bind (read_str (read_hash R) ''hash'' t) (\<lambda>h.
           if ty = ''Submitted'' then Some (Submitted \<lparr>SubmittedMsg_ID = i, SubmittedMsg_Hash = h\<rparr>)
           else if ty = ''Mined'' then Some (Mined \<lparr>MinedMsg_ID = i, MinedMsg_Hash = h\<rparr>)
           else if ty = ''Confirmed'' then
             Option.bind (Option.bind (member ''successful'' t) bool_of) (\<lambda>ok.
             Option.bind (read_logs R t) (\<lambda>ls.
               Some (Confirmed \<lparr>ConfirmedMsg_ID = i, ConfirmedMsg_Hash = h,
                 ConfirmedMsg_Logs = ls, ConfirmedMsg_Successful = ok\<rparr>)))
           else None))))"

lemma traverse_map: "(\<And>x. x \<in> set xs \<Longrightarrow> f (g x) = Some x) \<Longrightarrow> traverse f (map g xs) = Some xs"
  by (induction xs) auto

lemma read_Log_json: "reads_back L R \<Longrightarrow> read_Log R (Log_json L l) = Some l"
  by (simp add: read_Log_def Log_json_def read_str_def reads_back_def traverse_map)

lemma read_logs_json:
  assumes "reads_back L R"
  shows "read_logs R (tx_json L t) = Some (tx_Logs t)"
  using assms
  by (auto simp: read_logs_def tx_json_def traverse_map read_Log_json split: option.splits)

lemma member_tx_json [simp]:
  "member ''hash'' (tx_json L t) = Some (JStr (hash_text L (tx_Hash t)))"
  "member ''successful'' (tx_json L t) = map_option JBool (tx_Successful t)"
  by (auto simp: tx_json_def split: option.splits)

lemma member_ceData_json [simp]:
  "member ''requestId'' (ceData_json L d) = Some (JStr (RequestID d))"
  "member ''type'' (ceData_json L d) = Some (JStr (Type d))"
  "member ''transaction'' (ceData_json L d) = map_option (tx_json L) (Transaction d)"
  "member ''reason'' (ceData_json L d) = map_option (reason_json L) (Reason d)"
  by (auto simp: ceData_json_def split: option.splits)

lemma read_status_event:
  assumes "reads_back L R"
  shows "read_status R (ceData_json L (ce_Data (event_of new now msg))) = Some msg"
  using assms
  by (cases msg)
    (auto simp: read_status_def read_str_def event_defs read_logs_json reason_json_def
      reads_back_def)

text \<open>
  The effect of the producer on the topic, for every outcome of marshalling and sending.
\<close>

lemma kafkaProducer_stored:
  "\<exists>new now. stored (kafkaProducer L K topic msg b) = stored b \<or>
     (\<exists>bs n. marshal K (with_data (ceData_json L) (event_of new now msg)) = Inr bs \<and>
        stored (kafkaProducer L K topic msg b) =
          stored b @ replicate n \<lparr>pm_Topic = topic, pm_Value = bs\<rparr>)"
proof -
  obtain new e1 where n: "ksuid_New K (surroundings b) = (new, e1)" by force
  obtain now e2 where t: "time_Now K e1 = (now, e2)" by force
  show ?thesis
    by (rule exI [of _ new], rule exI [of _ now])
      (auto simp: kafkaProducer_def n t Let_def simp flip: replicate_Suc
        split: sum.splits prod.splits send_result.splits)
qed

end
