(* ===== verification/Effects.thy ===== *)
theory Effects
  imports Table Status
begin

text \<open>
  How the stateful code is modelled. A Go function that talks to the outside is a \<open>prog\<close>: a
  tree whose nodes are the calls it makes on the database, the Ethereum node, the signer, the
  status producer, the clock, the metrics registry, the random source and the Kafka session, in
  the order the code makes them, each with a continuation for every answer; an early return is a
  leaf. Nothing is assumed about the answers here. An \<open>event\<close> is a call together with its
  answer; \<open>step_prog\<close> and \<open>run_trace\<close> run a program against given events, so a list of events is
  an execution, a proper prefix of one is an execution cut off by a crash, and the events of
  several programs can be interleaved.

  The locale \<open>monitor\<close> is the proof method for all of them: a monitor observes the events,
  relies on the answers being possible and guarantees the calls; \<open>safe\<close> follows the tree of a
  program once, and \<open>safe_run\<close> turns it into a statement about every execution and every prefix.
\<close>

section \<open>The values that go over the interfaces\<close>

record Header =
  Number :: int
  HeaderHash :: hash

record Receipt =
  BlockNumber :: int
  BlockHash :: hash
  ReceiptStatus :: uint64
  Logs :: "Log list"

record CallMsg =
  CallMsg_From :: address
  CallMsg_To :: address
  CallMsg_GasPrice :: int
  CallMsg_Data :: bytes

record LegacyTx =
  LegacyTx_Nonce :: uint64
  LegacyTx_GasPrice :: int
  LegacyTx_Gas :: uint64
  LegacyTx_To :: address
  LegacyTx_Data :: bytes

record SignedTx =
  inner :: LegacyTx
  signature :: bytes

text \<open>
  A value of a gauge is kept as the float expression the code computes it with
  (\<open>Float64\<close> of a big integer, a difference, a literal), not as its rounded result.
\<close>

datatype float64 = OfBig int | FSub float64 float64 | FLit int

datatype gauge = LatestBlock | SubmittedTxBlockAge string

datatype counter = RequestsTotal | TicksTotal | TickErrorsTotal string | GRPCPanicsCount

record Message =
  Partition :: int
  Offset :: int
  Value :: bytes

section \<open>Programs\<close>

datatype 'r prog =
    Ret 'r
  | CallNow "time \<Rightarrow> 'r prog"
  | CallQuery "query_mod list" "goerror + MetaTransactionRequest list \<Rightarrow> 'r prog"
  | CallCount "query_mod list" "goerror + int \<Rightarrow> 'r prog"
  | CallExec stmt "goerror + stmt_result \<Rightarrow> 'r prog"
  | CallHeaderByNumber "goerror + Header \<Rightarrow> 'r prog"
  | CallTransactionReceipt hash "goerror + Receipt \<Rightarrow> 'r prog"
  | CallSuggestGasPrice "goerror + int \<Rightarrow> 'r prog"
  | CallEstimateGas CallMsg "goerror + uint64 \<Rightarrow> 'r prog"
  | CallSendTransaction SignedTx "goerror option \<Rightarrow> 'r prog"
  | CallPendingNonceAt address "goerror + uint64 \<Rightarrow> 'r prog"
  | CallSign hash "goerror + bytes \<Rightarrow> 'r prog"
  | CallProducer Producer "'r prog"
  | CallSetGauge gauge float64 "'r prog"
  | CallInc counter "'r prog"
  | CallIntN int "int \<Rightarrow> 'r prog"
  | CallMarkMessage Message "'r prog"

datatype event =
    Now time
  | Query "query_mod list" "goerror + MetaTransactionRequest list"
  | Count "query_mod list" "goerror + int"
  | Exec stmt "goerror + stmt_result"
  | HeaderByNumber "goerror + Header"
  | TransactionReceipt hash "goerror + Receipt"
  | SuggestGasPrice "goerror + int"
  | EstimateGas CallMsg "goerror + uint64"
  | SendTransaction SignedTx "goerror option"
  | PendingNonceAt address "goerror + uint64"
  | Sign hash "goerror + bytes"
  | Notify Producer
  | SetGauge gauge float64
  | Inc counter
  | IntN int int
  | MarkMessage Message

primrec step_prog :: "'r prog \<Rightarrow> event \<Rightarrow> 'r prog option" where
  "step_prog (Ret r) ev = None"
| "step_prog (CallNow k) ev = (case ev of Now t \<Rightarrow> Some (k t) | _ \<Rightarrow> None)"
| "step_prog (CallQuery q k) ev =
     (case ev of Query q' r \<Rightarrow> if q' = q then Some (k r) else None | _ \<Rightarrow> None)"
| "step_prog (CallCount q k) ev =
     (case ev of Count q' r \<Rightarrow> if q' = q then Some (k r) else None | _ \<Rightarrow> None)"
| "step_prog (CallExec s k) ev =
     (case ev of Exec s' r \<Rightarrow> if s' = s then Some (k r) else None | _ \<Rightarrow> None)"
| "step_prog (CallHeaderByNumber k) ev =
     (case ev of HeaderByNumber r \<Rightarrow> Some (k r) | _ \<Rightarrow> None)"
| "step_prog (CallTransactionReceipt h k) ev =
     (case ev of TransactionReceipt h' r \<Rightarrow> if h' = h then Some (k r) else None | _ \<Rightarrow> None)"
| "step_prog (CallSuggestGasPrice k) ev =
     (case ev of SuggestGasPrice r \<Rightarrow> Some (k r) | _ \<Rightarrow> None)"
| "step_prog (CallEstimateGas m k) ev =
     (case ev of EstimateGas m' r \<Rightarrow> if m' = m then Some (k r) else None | _ \<Rightarrow> None)"
| "step_prog (CallSendTransaction t k) ev =
     (case ev of SendTransaction t' r \<Rightarrow> if t' = t then Some (k r) else None | _ \<Rightarrow> None)"
| "step_prog (CallPendingNonceAt a k) ev =
     (case ev of PendingNonceAt a' r \<Rightarrow> if a' = a then Some (k r) else None | _ \<Rightarrow> None)"
| "step_prog (CallSign h k) ev =
     (case ev of Sign h' r \<Rightarrow> if h' = h then Some (k r) else None | _ \<Rightarrow> None)"
| "step_prog (CallProducer m p) ev =
     (case ev of Notify m' \<Rightarrow> if m' = m then Some p else None | _ \<Rightarrow> None)"
| "step_prog (CallSetGauge g v p) ev =
     (case ev of SetGauge g' v' \<Rightarrow> if g' = g \<and> v' = v then Some p else None | _ \<Rightarrow> None)"
| "step_prog (CallInc c p) ev = (case ev of Inc c' \<Rightarrow> if c' = c then Some p else None | _ \<Rightarrow> None)"
| "step_prog (CallIntN n k) ev =
     (case ev of IntN n' r \<Rightarrow> if n' = n then Some (k r) else None | _ \<Rightarrow> None)"
| "step_prog (CallMarkMessage m p) ev =
     (case ev of MarkMessage m' \<Rightarrow> if m' = m then Some p else None | _ \<Rightarrow> None)"

fun run_trace :: "'r prog \<Rightarrow> event list \<Rightarrow> 'r prog option" where
  "run_trace p [] = Some p"
| "run_trace p (e # es) = (case step_prog p e of None \<Rightarrow> None | Some p' \<Rightarrow> run_trace p' es)"

lemma run_trace_append:
  "run_trace p (es @ fs) = (case run_trace p es of None \<Rightarrow> None | Some p' \<Rightarrow> run_trace p' fs)"
  by (induction es arbitrary: p) (auto split: option.splits)

lemma run_trace_Ret [simp]: "run_trace (Ret r) es = (if es = [] then Some (Ret r) else None)"
  by (cases es) auto

text \<open>A program waits for exactly one call: two events it accepts differ in the answer only.\<close>

lemma run_trace_prefix:
  "run_trace p (es @ fs) = Some p' \<Longrightarrow> \<exists>p1. run_trace p es = Some p1 \<and> run_trace p1 fs = Some p'"
  by (auto simp: run_trace_append split: option.splits)

text \<open>An execution to the end begins with the call the program waits for.\<close>

lemma complete_iffs:
  "run_trace (Ret x) es = Some (Ret y) \<longleftrightarrow> es = [] \<and> y = x"
  "run_trace (CallNow k) es = Some (Ret y) \<longleftrightarrow>
     (\<exists>t es'. es = Now t # es' \<and> run_trace (k t) es' = Some (Ret y))"
  "run_trace (CallQuery ms kq) es = Some (Ret y) \<longleftrightarrow>
     (\<exists>a es'. es = Query ms a # es' \<and> run_trace (kq a) es' = Some (Ret y))"
  "run_trace (CallExec s kx) es = Some (Ret y) \<longleftrightarrow>
     (\<exists>a es'. es = Exec s a # es' \<and> run_trace (kx a) es' = Some (Ret y))"
  "run_trace (CallHeaderByNumber kh) es = Some (Ret y) \<longleftrightarrow>
     (\<exists>a es'. es = HeaderByNumber a # es' \<and> run_trace (kh a) es' = Some (Ret y))"
  "run_trace (CallTransactionReceipt h kr) es = Some (Ret y) \<longleftrightarrow>
     (\<exists>a es'. es = TransactionReceipt h a # es' \<and> run_trace (kr a) es' = Some (Ret y))"
  "run_trace (CallSuggestGasPrice kp) es = Some (Ret y) \<longleftrightarrow>
     (\<exists>a es'. es = SuggestGasPrice a # es' \<and> run_trace (kp a) es' = Some (Ret y))"
  "run_trace (CallEstimateGas c ke) es = Some (Ret y) \<longleftrightarrow>
     (\<exists>a es'. es = EstimateGas c a # es' \<and> run_trace (ke a) es' = Some (Ret y))"
  "run_trace (CallSendTransaction st ks) es = Some (Ret y) \<longleftrightarrow>
     (\<exists>a es'. es = SendTransaction st a # es' \<and> run_trace (ks a) es' = Some (Ret y))"
  "run_trace (CallPendingNonceAt ad ke) es = Some (Ret y) \<longleftrightarrow>
     (\<exists>a es'. es = PendingNonceAt ad a # es' \<and> run_trace (ke a) es' = Some (Ret y))"
  "run_trace (CallSign h kg) es = Some (Ret y) \<longleftrightarrow>
     (\<exists>a es'. es = Sign h a # es' \<and> run_trace (kg a) es' = Some (Ret y))"
  "run_trace (CallProducer m p) es = Some (Ret y) \<longleftrightarrow>
     (\<exists>es'. es = Notify m # es' \<and> run_trace p es' = Some (Ret y))"
  "run_trace (CallSetGauge g v p) es = Some (Ret y) \<longleftrightarrow>
     (\<exists>es'. es = SetGauge g v # es' \<and> run_trace p es' = Some (Ret y))"
  by (cases es; auto split: event.splits if_splits)+

text \<open>Running one program after another.\<close>

primrec bind_prog :: "'r prog \<Rightarrow> ('r \<Rightarrow> 's prog) \<Rightarrow> 's prog" where
  "bind_prog (Ret r) f = f r"
| "bind_prog (CallNow k) f = CallNow (\<lambda>x. bind_prog (k x) f)"
| "bind_prog (CallQuery m k) f = CallQuery m (\<lambda>x. bind_prog (k x) f)"
| "bind_prog (CallCount m k) f = CallCount m (\<lambda>x. bind_prog (k x) f)"
| "bind_prog (CallExec s k) f = CallExec s (\<lambda>x. bind_prog (k x) f)"
| "bind_prog (CallHeaderByNumber k) f = CallHeaderByNumber (\<lambda>x. bind_prog (k x) f)"
| "bind_prog (CallTransactionReceipt h k) f = CallTransactionReceipt h (\<lambda>x. bind_prog (k x) f)"
| "bind_prog (CallSuggestGasPrice k) f = CallSuggestGasPrice (\<lambda>x. bind_prog (k x) f)"
| "bind_prog (CallEstimateGas m k) f = CallEstimateGas m (\<lambda>x. bind_prog (k x) f)"
| "bind_prog (CallSendTransaction t k) f = CallSendTransaction t (\<lambda>x. bind_prog (k x) f)"
| "bind_prog (CallPendingNonceAt a k) f = CallPendingNonceAt a (\<lambda>x. bind_prog (k x) f)"
| "bind_prog (CallSign h k) f = CallSign h (\<lambda>x. bind_prog (k x) f)"
| "bind_prog (CallProducer m p) f = CallProducer m (bind_prog p f)"
| "bind_prog (CallSetGauge g v p) f = CallSetGauge g v (bind_prog p f)"
| "bind_prog (CallInc c p) f = CallInc c (bind_prog p f)"
| "bind_prog (CallIntN n k) f = CallIntN n (\<lambda>x. bind_prog (k x) f)"
| "bind_prog (CallMarkMessage m p) f = CallMarkMessage m (bind_prog p f)"

lemma step_bind: "step_prog p ev = Some p' \<Longrightarrow> step_prog (bind_prog p f) ev = Some (bind_prog p' f)"
  by (cases p) (auto split: event.splits if_splits)

lemma run_bind: "run_trace p es = Some p' \<Longrightarrow> run_trace (bind_prog p f) es = Some (bind_prog p' f)"
  by (induction es arbitrary: p) (auto split: option.splits simp: step_bind [where f = f])

lemma step_bind_iff:
  assumes "\<And>r. p \<noteq> Ret r"
  shows "step_prog (bind_prog p f) ev = map_option (\<lambda>p'. bind_prog p' f) (step_prog p ev)"
  using assms by (cases p) (auto split: event.splits)

text \<open>An execution of a sequence is within the first program, or goes through its end.\<close>

lemma run_bind_cases:
  assumes "run_trace (bind_prog p f) es = Some p'"
  shows "(\<exists>p1. run_trace p es = Some p1 \<and> p' = bind_prog p1 f) \<or>
    (\<exists>es1 es2 r. es = es1 @ es2 \<and> run_trace p es1 = Some (Ret r) \<and> run_trace (f r) es2 = Some p')"
  using assms
proof (induction es arbitrary: p)
  case (Cons e es)
  show ?case
  proof (cases "\<exists>r. p = Ret r")
    case True
    then obtain r where "p = Ret r" by blast
    with Cons.prems have "e # es = [] @ (e # es) \<and> run_trace p [] = Some (Ret r) \<and> run_trace (f r) (e # es) = Some p'"
      by simp
    then show ?thesis by blast
  next
    case False
    then have "step_prog (bind_prog p f) e = map_option (\<lambda>p'. bind_prog p' f) (step_prog p e)"
      by (intro step_bind_iff) blast
    with Cons.prems obtain p1 where p1: "step_prog p e = Some p1" "run_trace (bind_prog p1 f) es = Some p'"
      by (auto split: option.splits)
    from Cons.IH [OF p1(2)] show ?thesis
    proof
      assume "\<exists>p2. run_trace p1 es = Some p2 \<and> p' = bind_prog p2 f"
      with p1(1) show ?thesis by auto
    next
      assume "\<exists>es1 es2 r. es = es1 @ es2 \<and> run_trace p1 es1 = Some (Ret r) \<and> run_trace (f r) es2 = Some p'"
      then obtain es1 es2 r where "es = es1 @ es2" "run_trace p1 es1 = Some (Ret r)"
        "run_trace (f r) es2 = Some p'" by blast
      with p1(1) have "e # es = (e # es1) @ es2 \<and> run_trace p (e # es1) = Some (Ret r) \<and> run_trace (f r) es2 = Some p'"
        by simp
      then show ?thesis by blast
    qed
  qed
qed simp

lemma bind_prog_Ret: "bind_prog p f = Ret y \<Longrightarrow> \<exists>r. p = Ret r \<and> f r = Ret y"
  by (cases p) auto

lemma complete_bind:
  assumes "run_trace (bind_prog p f) es = Some (Ret y)"
  shows "\<exists>es1 es2 r. es = es1 @ es2 \<and> run_trace p es1 = Some (Ret r) \<and> run_trace (f r) es2 = Some (Ret y)"
  using run_bind_cases [OF assms]
proof
  assume "\<exists>p1. run_trace p es = Some p1 \<and> Ret y = bind_prog p1 f"
  then obtain p1 where p1: "run_trace p es = Some p1" "bind_prog p1 f = Ret y" by auto
  from bind_prog_Ret [OF p1(2)] obtain r where "p1 = Ret r" "f r = Ret y" by blast
  with p1(1) have "es = es @ [] \<and> run_trace p es = Some (Ret r) \<and> run_trace (f r) [] = Some (Ret y)" by simp
  then show ?thesis by blast
qed

section \<open>Monitors\<close>

locale monitor =
  fixes rely :: "'q \<Rightarrow> event \<Rightarrow> bool"
    and guar :: "'q \<Rightarrow> event \<Rightarrow> bool"
    and nxt :: "'q \<Rightarrow> event \<Rightarrow> 'q"
    and fin :: "'q \<Rightarrow> 'r \<Rightarrow> bool"
begin

definition admits :: "'q \<Rightarrow> event \<Rightarrow> ('q \<Rightarrow> bool) \<Rightarrow> bool" where
  "admits q ev rest \<longleftrightarrow> (rely q ev \<longrightarrow> guar q ev \<and> rest (nxt q ev))"

primrec safe :: "'r prog \<Rightarrow> 'q \<Rightarrow> bool" where
  "safe (Ret r) q = fin q r"
| "safe (CallNow k) q = (\<forall>t. admits q (Now t) (safe (k t)))"
| "safe (CallQuery m k) q = (\<forall>r. admits q (Query m r) (safe (k r)))"
| "safe (CallCount m k) q = (\<forall>r. admits q (Count m r) (safe (k r)))"
| "safe (CallExec s k) q = (\<forall>r. admits q (Exec s r) (safe (k r)))"
| "safe (CallHeaderByNumber k) q = (\<forall>r. admits q (HeaderByNumber r) (safe (k r)))"
| "safe (CallTransactionReceipt h k) q = (\<forall>r. admits q (TransactionReceipt h r) (safe (k r)))"
| "safe (CallSuggestGasPrice k) q = (\<forall>r. admits q (SuggestGasPrice r) (safe (k r)))"
| "safe (CallEstimateGas m k) q = (\<forall>r. admits q (EstimateGas m r) (safe (k r)))"
| "safe (CallSendTransaction t k) q = (\<forall>r. admits q (SendTransaction t r) (safe (k r)))"
| "safe (CallPendingNonceAt a k) q = (\<forall>r. admits q (PendingNonceAt a r) (safe (k r)))"
| "safe (CallSign h k) q = (\<forall>r. admits q (Sign h r) (safe (k r)))"
| "safe (CallProducer m p) q = admits q (Notify m) (safe p)"
| "safe (CallSetGauge g v p) q = admits q (SetGauge g v) (safe p)"
| "safe (CallInc c p) q = admits q (Inc c) (safe p)"
| "safe (CallIntN n k) q = (\<forall>r. admits q (IntN n r) (safe (k r)))"
| "safe (CallMarkMessage m p) q = admits q (MarkMessage m) (safe p)"

text \<open>
  The events so far were possible (\<open>relies\<close>); the calls so far were right (\<open>guars\<close>).
\<close>

primrec relies :: "event list \<Rightarrow> 'q \<Rightarrow> bool" where
  "relies [] q = True"
| "relies (e # es) q = (rely q e \<and> relies es (nxt q e))"

primrec guars :: "event list \<Rightarrow> 'q \<Rightarrow> bool" where
  "guars [] q = True"
| "guars (e # es) q = (guar q e \<and> guars es (nxt q e))"

lemma safe_step:
  assumes "safe p q" and "step_prog p ev = Some p'" and "rely q ev"
  shows "guar q ev \<and> safe p' (nxt q ev)"
  using assms by (cases p) (auto simp: admits_def split: event.splits if_splits)

lemma safe_run:
  assumes "safe p q" and "run_trace p es = Some p'" and "relies es q"
  shows "guars es q \<and> safe p' (foldl nxt q es)"
  using assms
proof (induction es arbitrary: p q)
  case Nil
  then show ?case by simp
next
  case (Cons e es)
  from Cons.prems(2) obtain p1 where p1: "step_prog p e = Some p1" "run_trace p1 es = Some p'"
    by (auto split: option.splits)
  from safe_step [OF Cons.prems(1) p1(1)] Cons.prems(3)
  have "guar q e" "safe p1 (nxt q e)" by auto
  with Cons.IH [OF _ p1(2)] Cons.prems(3) show ?case by simp
qed

corollary safe_result:
  "safe p q \<Longrightarrow> run_trace p es = Some (Ret r) \<Longrightarrow> relies es q \<Longrightarrow> fin (foldl nxt q es) r"
  using safe_run by fastforce

lemma guars_append: "guars (es @ fs) q \<longleftrightarrow> guars es q \<and> guars fs (foldl nxt q es)"
  by (induction es arbitrary: q) auto

lemma relies_append: "relies (es @ fs) q \<longleftrightarrow> relies es q \<and> relies fs (foldl nxt q es)"
  by (induction es arbitrary: q) auto

text \<open>The guarantee at one event of an execution, from the state the events before it lead to.\<close>

lemma safe_at:
  assumes "safe p q" and "run_trace p (es @ e # fs) = Some p'" and "relies (es @ e # fs) q"
  shows "guar (foldl nxt q es) e"
  using safe_run [OF assms] by (simp add: guars_append)

end

lemma safe_bind:
  assumes "monitor.safe rely guar nxt fin p q"
    and "\<And>r q'. fin q' r \<Longrightarrow> monitor.safe rely guar nxt fin' (f r) q'"
  shows "monitor.safe rely guar nxt fin' (bind_prog p f) q"
  using assms(1)
  by (induction p arbitrary: q) (simp_all add: assms(2) monitor.safe.simps monitor.admits_def)

section \<open>The database's answers\<close>

text \<open>
  \<open>db_event le now ev T T'\<close>: with the table \<open>T\<close>, the event \<open>ev\<close> is possible and leaves \<open>T'\<close>. A
  statement that is reported to have failed may still have been carried out (the connection can
  be lost after the commit); a failure is not reported as \<open>sql.ErrNoRows\<close>, which says that
  the server answered and had no row; every other call leaves the table alone.
\<close>

definition db_event ::
  "(string \<Rightarrow> string \<Rightarrow> bool) \<Rightarrow> time \<Rightarrow> event \<Rightarrow> table \<Rightarrow> table \<Rightarrow> bool" where
  "db_event le now ev T T' \<longleftrightarrow>
     (case ev of
        Query ms (Inr rows) \<Rightarrow> answers le ms T rows \<and> T' = T
      | Query ms (Inl err) \<Rightarrow> \<not> errors_Is err ErrNoRows \<and> T' = T
      | Count ms (Inr n) \<Rightarrow> n = int (length (filter (matches le ms) T)) \<and> T' = T
      | Exec s (Inr res) \<Rightarrow> run_stmt le now s T = Some (res, T')
      | Exec s (Inl err) \<Rightarrow> \<not> errors_Is err ErrNoRows \<and>
          (T' = T \<or> map_option snd (run_stmt le now s T) = Some T')
      | _ \<Rightarrow> T' = T)"

lemma db_event_simps [simp]:
  "db_event le now (Query ms (Inr rows)) T T' \<longleftrightarrow> answers le ms T rows \<and> T' = T"
  "db_event le now (Query ms (Inl err)) T T' \<longleftrightarrow> \<not> errors_Is err ErrNoRows \<and> T' = T"
  "db_event le now (Exec s (Inr res)) T T' \<longleftrightarrow> run_stmt le now s T = Some (res, T')"
  "db_event le now (Exec s (Inl err)) T T' \<longleftrightarrow> \<not> errors_Is err ErrNoRows \<and>
     (T' = T \<or> map_option snd (run_stmt le now s T) = Some T')"
  by (auto simp: db_event_def)

lemma db_event_no_exec:
  "db_event le now ev T T' \<Longrightarrow> (\<And>s r. ev \<noteq> Exec s r) \<Longrightarrow> T' = T"
  by (auto simp: db_event_def split: event.splits sum.splits)

text \<open>Whatever is reported, a statement was carried out or nothing happened.\<close>

lemma db_event_exec:
  "db_event le now (Exec s r) T T' \<Longrightarrow> T' = T \<or> (\<exists>res. run_stmt le now s T = Some (res, T'))"
  by (cases r) auto

lemma answers_mem:
  "answers le ms T rows \<Longrightarrow> r \<in> set rows \<Longrightarrow> r \<in> set T \<and> matches le ms r"
  by (auto simp: answers_def Let_def list_all_iff)

lemma answers_Nil:
  "answers le ms T [] \<Longrightarrow> limit_of ms \<noteq> Some 0 \<Longrightarrow> r \<in> set T \<Longrightarrow> \<not> matches le ms r"
  by (auto simp: answers_def Let_def min_def filter_empty_conv split: option.splits if_splits)

lemma answers_one:
  "answers le ms T rows \<Longrightarrow> limit_of ms = Some 1 \<Longrightarrow> length rows \<le> 1"
  by (auto simp: answers_def Let_def)

text \<open>
  An execution of one program alone against the database, from a table to a table.
\<close>

inductive db_run :: "(string \<Rightarrow> string \<Rightarrow> bool) \<Rightarrow> event list \<Rightarrow> table \<Rightarrow> table \<Rightarrow> bool"
  for le where
  db_run_Nil: "db_run le [] T T"
| db_run_Cons: "db_event le now e T T1 \<Longrightarrow> db_run le es T1 T2 \<Longrightarrow> db_run le (e # es) T T2"

inductive_cases db_run_NilE: "db_run le [] T T'"
inductive_cases db_run_ConsE: "db_run le (e # es) T T'"
inductive_simps db_run_Nil_iff [simp]: "db_run le [] T T'"
inductive_simps db_run_Cons_iff: "db_run le (e # es) T T'"

lemma db_run_append:
  "db_run le (es @ fs) T T' \<Longrightarrow> \<exists>T1. db_run le es T T1 \<and> db_run le fs T1 T'"
proof (induction es arbitrary: T)
  case Nil
  then show ?case by auto
next
  case (Cons e es)
  from Cons.prems obtain now T1 where T1: "db_event le now e T T1" "db_run le (es @ fs) T1 T'"
    by (auto simp: db_run_Cons_iff)
  from Cons.IH [OF T1(2)] obtain T2 where "db_run le es T1 T2" "db_run le fs T2 T'" by blast
  with T1(1) show ?case by (blast intro: db_run_Cons)
qed

lemma db_run_appendI: "db_run le es T T1 \<Longrightarrow> db_run le fs T1 T' \<Longrightarrow> db_run le (es @ fs) T T'"
  by (induction rule: db_run.induct) (auto intro: db_run_Cons)

end
