(* ===== verification/Models.thy ===== *)
theory Models
  imports Effects
begin

text \<open>
  The operations of internal/models (generated by SQLBoiler and committed): the hooks, the query
  finishers, \<open>Find\<close>, \<open>Insert\<close>, \<open>Update\<close>, \<open>Upsert\<close>, \<open>Delete\<close>, \<open>DeleteAll\<close>, \<open>UpdateAll\<close>,
  \<open>Reload\<close>, and the two caches' keys and entries (internal/models/boil_types.go,
  psql_upsert.go). A statement is sent as its structure (\<open>stmt\<close>); the text SQLBoiler's helper
  packages would give it is not modelled, apart from the upsert text that psql_upsert.go builds
  itself.

  What the code takes from SQLBoiler (column sets, the zero test on default columns, set
  operations on column names) is the parameter record \<open>boil_lib\<close>, with its documented behaviour
  in \<open>boil_laws\<close>. Logging and the debug writer are left out. \<open>RowsAffected\<close> on a result the
  driver has returned does not fail.
\<close>

section \<open>What SQLBoiler's packages provide\<close>

record Columns =
  Kind :: int
  Cols :: "col list"

record boil_lib =
  Whitelist :: "col list \<Rightarrow> Columns"
  NoColumns :: Columns
  Infer :: Columns
  IsWhitelist :: "Columns \<Rightarrow> bool"
  UpdateColumnSet :: "Columns \<Rightarrow> col list \<Rightarrow> col list \<Rightarrow> col list"
  InsertColumnSet ::
    "Columns \<Rightarrow> col list \<Rightarrow> col list \<Rightarrow> col list \<Rightarrow> col list \<Rightarrow> col list \<times> col list"
  NonZeroDefaultSet :: "col list \<Rightarrow> MetaTransactionRequest \<Rightarrow> col list"
  SetComplement :: "col list \<Rightarrow> col list \<Rightarrow> col list"
  SetIntersect :: "col list \<Rightarrow> col list \<Rightarrow> col list"

definition nonzero_field :: "MetaTransactionRequest \<Rightarrow> col \<Rightarrow> bool" where
  "nonzero_field r c \<longleftrightarrow> field_value c r \<noteq> field_value c zero_request"

text \<open>
  The documented behaviour of \<open>boil.Columns\<close> and its helpers: a whitelist overrides every
  inference, \<open>None\<close> names no column to update, inference inserts the columns without a default
  and the defaulted ones whose field is not zero and returns the other defaulted ones; the set operations keep the order of their
  first argument.
\<close>

definition boil_laws :: "boil_lib \<Rightarrow> bool" where
  "boil_laws B \<longleftrightarrow>
     (\<forall>cs al pk. UpdateColumnSet B (Whitelist B cs) al pk = cs) \<and>
     (\<forall>cs. IsWhitelist B (Whitelist B cs)) \<and>
     (\<forall>al pk. UpdateColumnSet B (NoColumns B) al pk = []) \<and>
     (\<forall>al wd wo nz. set (fst (InsertColumnSet B (Infer B) al wd wo nz)) = set wo \<union> set nz) \<and>
     (\<forall>al wd wo nz. set (snd (InsertColumnSet B (Infer B) al wd wo nz)) = set wd - set nz) \<and>
     (\<forall>al wd wo nz. distinct al \<longrightarrow> distinct (fst (InsertColumnSet B (Infer B) al wd wo nz))) \<and>
     (\<forall>cs r. NonZeroDefaultSet B cs r = filter (nonzero_field r) cs) \<and>
     (\<forall>xs ys. SetComplement B xs ys = filter (\<lambda>c. c \<notin> set ys) xs) \<and>
     (\<forall>xs ys. SetIntersect B xs ys = filter (\<lambda>c. c \<in> set ys) xs)"

section \<open>Hooks\<close>

datatype HookPoint =
    AfterSelect | BeforeInsert | AfterInsert | BeforeUpdate | AfterUpdate
  | BeforeDelete | AfterDelete | BeforeUpsert | AfterUpsert

type_synonym hook = "MetaTransactionRequest \<Rightarrow> goerror + MetaTransactionRequest"

text \<open>
  The surroundings of an operation: the library, the two flags of the context, and the hooks
  registered so far. This program sets no flag and registers no hook (\<open>plain\<close>).
\<close>

record boil_env =
  lib :: boil_lib
  HooksAreSkipped :: bool
  TimestampsAreSkipped :: bool
  hooks :: "HookPoint \<Rightarrow> hook list"

definition plain :: "boil_env \<Rightarrow> bool" where
  "plain B \<longleftrightarrow> boil_laws (lib B) \<and> \<not> HooksAreSkipped B \<and> \<not> TimestampsAreSkipped B \<and>
     hooks B = (\<lambda>p. [])"

fun run_hooks :: "hook list \<Rightarrow> MetaTransactionRequest \<Rightarrow> goerror + MetaTransactionRequest" where
  "run_hooks [] r = Inr r"
| "run_hooks (h # hs) r = (case h r of Inl e \<Rightarrow> Inl e | Inr r' \<Rightarrow> run_hooks hs r')"

text \<open>The nine functions \<open>doAfterSelectHooks\<close> \<dots> \<open>doAfterUpsertHooks\<close>, by hook point.\<close>

definition doHooks ::
  "boil_env \<Rightarrow> HookPoint \<Rightarrow> MetaTransactionRequest \<Rightarrow> goerror + MetaTransactionRequest" where
  "doHooks B p r = (if HooksAreSkipped B then Inr r else run_hooks (hooks B p) r)"

definition AddMetaTransactionRequestHook :: "HookPoint \<Rightarrow> hook \<Rightarrow> boil_env \<Rightarrow> boil_env" where
  "AddMetaTransactionRequestHook p h B = B\<lparr>hooks := (hooks B)(p := hooks B p @ [h])\<rparr>"

lemma doHooks_plain [simp]: "plain B \<Longrightarrow> doHooks B p r = Inr r"
  by (simp add: plain_def doHooks_def)

lemma run_hooks_append:
  "run_hooks (hs @ gs) r = (case run_hooks hs r of Inl e \<Rightarrow> Inl e | Inr r' \<Rightarrow> run_hooks gs r')"
  by (induction hs arbitrary: r) (auto split: sum.splits)

section \<open>Query finishers\<close>

text \<open>
  \<open>NewQuery\<close> applies the modifiers; \<open>MetaTransactionRequests\<close> appends the table to them and
  selects all its columns when nothing is selected.
\<close>

fun selected :: "query_mod list \<Rightarrow> string list" where
  "selected [] = []"
| "selected (Select cs # ms) = cs @ selected ms"
| "selected (_ # ms) = selected ms"

definition MetaTransactionRequests :: "query_mod list \<Rightarrow> query_mod list" where
  "MetaTransactionRequests mods =
     (let mods = mods @ [From quoted_table]
      in if length (selected mods) = 0 then mods @ [Select [quoted_table @ ''.*'']] else mods)"

lemma selected_append [simp]: "selected (ms @ ns) = selected ms @ selected ns"
  by (induction ms rule: selected.induct) auto

lemma MetaTransactionRequests_eq:
  "selected mods = [] \<Longrightarrow>
   MetaTransactionRequests mods = mods @ [From quoted_table, Select [quoted_table @ ''.*'']]"
  by (simp add: MetaTransactionRequests_def Let_def)

definition wrap :: "string \<Rightarrow> goerror \<Rightarrow> goerror" where
  "wrap m e = ErrWrap m e"

lemma wrap_neq [simp]: "wrap m e \<noteq> ErrNoRows" "wrap m e \<noteq> ErrNotFound"
  by (simp_all add: wrap_def)

text \<open>
  \<open>One\<close>: limit 1, bind the first row; no row, and any error that is \<open>sql.ErrNoRows\<close> underneath,
  is \<open>sql.ErrNoRows\<close> itself.
\<close>

definition One ::
  "boil_env \<Rightarrow> query_mod list \<Rightarrow> (goerror + MetaTransactionRequest \<Rightarrow> 'r prog) \<Rightarrow> 'r prog" where
  "One B mods k = CallQuery (MetaTransactionRequests mods @ [Limit 1]) (\<lambda>res.
     case res of
       Inl err \<Rightarrow>
         if errors_Is err ErrNoRows then k (Inl ErrNoRows)
         else k (Inl (wrap ''models: failed to execute a one query for meta_transaction_requests'' err))
     | Inr [] \<Rightarrow> k (Inl ErrNoRows)
     | Inr (r # rs) \<Rightarrow> k (doHooks B AfterSelect r))"

fun hooks_all ::
  "boil_env \<Rightarrow> HookPoint \<Rightarrow> MetaTransactionRequest list \<Rightarrow> goerror + MetaTransactionRequest list" where
  "hooks_all B p [] = Inr []"
| "hooks_all B p (r # rs) =
     (case doHooks B p r of Inl e \<Rightarrow> Inl e
      | Inr r' \<Rightarrow> (case hooks_all B p rs of Inl e \<Rightarrow> Inl e | Inr rs' \<Rightarrow> Inr (r' # rs')))"

definition All ::
  "boil_env \<Rightarrow> query_mod list \<Rightarrow> (goerror + MetaTransactionRequest list \<Rightarrow> 'r prog) \<Rightarrow> 'r prog" where
  "All B mods k = CallQuery (MetaTransactionRequests mods) (\<lambda>res.
     case res of
       Inl err \<Rightarrow>
         k (Inl (wrap ''models: failed to assign all query results to MetaTransactionRequest slice'' err))
     | Inr rs \<Rightarrow> k (if hooks B AfterSelect = [] then Inr rs else hooks_all B AfterSelect rs))"

text \<open>\<open>queries.SetSelect(q, nil)\<close>.\<close>

fun unselect :: "query_mod list \<Rightarrow> query_mod list" where
  "unselect [] = []"
| "unselect (Select cs # ms) = unselect ms"
| "unselect (m # ms) = m # unselect ms"

definition Count_query :: "query_mod list \<Rightarrow> (goerror + int \<Rightarrow> 'r prog) \<Rightarrow> 'r prog" where
  "Count_query mods k = CallCount (unselect (MetaTransactionRequests mods)) (\<lambda>res.
     case res of
       Inl err \<Rightarrow> k (Inl (wrap ''models: failed to count meta_transaction_requests rows'' err))
     | Inr n \<Rightarrow> k (Inr n))"

definition Exists_query :: "query_mod list \<Rightarrow> (goerror + bool \<Rightarrow> 'r prog) \<Rightarrow> 'r prog" where
  "Exists_query mods k = CallCount (unselect (MetaTransactionRequests mods) @ [Limit 1]) (\<lambda>res.
     case res of
       Inl err \<Rightarrow> k (Inl (wrap ''models: failed to check if meta_transaction_requests exists'' err))
     | Inr n \<Rightarrow> k (Inr (n > 0)))"

text \<open>Scanning copies the named columns of a returned row into the struct.\<close>

fun copy_col :: "MetaTransactionRequest \<Rightarrow> col \<Rightarrow> MetaTransactionRequest \<Rightarrow> MetaTransactionRequest" where
  "copy_col src Col_id dst = dst\<lparr>ID := ID src\<rparr>"
| "copy_col src Col_nonce dst = dst\<lparr>Nonce := Nonce src\<rparr>"
| "copy_col src Col_gas_price dst = dst\<lparr>GasPrice := GasPrice src\<rparr>"
| "copy_col src Col_to dst = dst\<lparr>To := To src\<rparr>"
| "copy_col src Col_data dst = dst\<lparr>Data := Data src\<rparr>"
| "copy_col src Col_hash dst = dst\<lparr>Hash := Hash src\<rparr>"
| "copy_col src Col_submitted_block_number dst =
     dst\<lparr>SubmittedBlockNumber := SubmittedBlockNumber src\<rparr>"
| "copy_col src Col_submitted_block_hash dst = dst\<lparr>SubmittedBlockHash := SubmittedBlockHash src\<rparr>"
| "copy_col src Col_mined_block_number dst = dst\<lparr>MinedBlockNumber := MinedBlockNumber src\<rparr>"
| "copy_col src Col_mined_block_hash dst = dst\<lparr>MinedBlockHash := MinedBlockHash src\<rparr>"
| "copy_col src Col_created_at dst = dst\<lparr>CreatedAt := CreatedAt src\<rparr>"
| "copy_col src Col_updated_at dst = dst\<lparr>UpdatedAt := UpdatedAt src\<rparr>"
| "copy_col src Col_boosted_block_number dst = dst\<lparr>BoostedBlockNumber := BoostedBlockNumber src\<rparr>"
| "copy_col src Col_boosted_block_hash dst = dst\<lparr>BoostedBlockHash := BoostedBlockHash src\<rparr>"
| "copy_col src Col_wallet_index dst = dst\<lparr>WalletIndex := WalletIndex src\<rparr>"

definition scan_into ::
  "col list \<Rightarrow> MetaTransactionRequest \<Rightarrow> MetaTransactionRequest \<Rightarrow> MetaTransactionRequest" where
  "scan_into cs src dst = fold (copy_col src) cs dst"

definition FindMetaTransactionRequest ::
  "boil_env \<Rightarrow> string \<Rightarrow> col list \<Rightarrow> (goerror + MetaTransactionRequest \<Rightarrow> 'r prog) \<Rightarrow> 'r prog" where
  "FindMetaTransactionRequest B iD selectCols k =
     CallQuery [Where Col_id EQ (VText iD)] (\<lambda>res.
       case res of
         Inl err \<Rightarrow>
           if errors_Is err ErrNoRows then k (Inl ErrNoRows)
           else k (Inl (wrap ''models: unable to select from meta_transaction_requests'' err))
       | Inr [] \<Rightarrow> k (Inl ErrNoRows)
       | Inr (r # rs) \<Rightarrow>
           k (doHooks B AfterSelect
               (scan_into (if selectCols = [] then metaTransactionRequestAllColumns else selectCols)
                 r zero_request)))"

text \<open>\<open>Reload\<close> replaces the object by the stored row, or leaves it when that cannot be had.\<close>

definition Reload ::
  "boil_env \<Rightarrow> MetaTransactionRequest \<Rightarrow>
   (goerror option \<Rightarrow> MetaTransactionRequest \<Rightarrow> 'r prog) \<Rightarrow> 'r prog" where
  "Reload B obj k = FindMetaTransactionRequest B (ID obj) [] (\<lambda>res.
     case res of Inl err \<Rightarrow> k (Some err) obj | Inr ret \<Rightarrow> k None ret)"

section \<open>Cache keys\<close>

definition names :: "col list \<Rightarrow> string" where
  "names cs = concat (map MetaTransactionRequestColumns cs)"

definition makeCacheKey :: "Columns \<Rightarrow> col list \<Rightarrow> string" where
  "makeCacheKey columns nzDefaults =
     Itoa (Kind columns) @ names (Cols columns) @
     (if nzDefaults \<noteq> [] then ''.'' else '''') @ names nzDefaults"

definition upsertKey :: "bool \<Rightarrow> col list \<Rightarrow> Columns \<Rightarrow> Columns \<Rightarrow> col list \<Rightarrow> string" where
  "upsertKey updateOnConflict conflictColumns updateColumns insertColumns nzDefaults =
     (if updateOnConflict then ''t'' else ''f'') @ ''.'' @ names conflictColumns @ ''.'' @
     Itoa (Kind updateColumns) @ names (Cols updateColumns) @ ''.'' @
     Itoa (Kind insertColumns) @ names (Cols insertColumns) @ ''.'' @ names nzDefaults"

section \<open>Insert\<close>

record insertCache =
  ic_columns :: "col list"
  ic_action :: conflict_action
  ic_retMapping :: "col list"

definition insert_entry :: "boil_env \<Rightarrow> Columns \<Rightarrow> col list \<Rightarrow> insertCache" where
  "insert_entry B columns nzDefaults =
     (let (wl, returnColumns) = InsertColumnSet (lib B) columns metaTransactionRequestAllColumns
            metaTransactionRequestColumnsWithDefault metaTransactionRequestColumnsWithoutDefault
            nzDefaults
      in \<lparr>ic_columns = wl, ic_action = NoAction, ic_retMapping = returnColumns\<rparr>)"

definition entry_stmt :: "insertCache \<Rightarrow> MetaTransactionRequest \<Rightarrow> stmt" where
  "entry_stmt c obj = INSERT (bound_values (ic_columns c) obj) (ic_action c) (ic_retMapping c)"

text \<open>
  Sending an insert: with RETURNING columns it is a row query whose single row is scanned into
  the object (no row is \<open>sql.ErrNoRows\<close>), without them a plain execution.
\<close>

definition send_insert ::
  "insertCache \<Rightarrow> MetaTransactionRequest \<Rightarrow>
   (goerror option \<Rightarrow> MetaTransactionRequest \<Rightarrow> 'r prog) \<Rightarrow> 'r prog" where
  "send_insert c obj k = CallExec (entry_stmt c obj) (\<lambda>res.
     case res of
       Inl err \<Rightarrow> k (Some err) obj
     | Inr (n, rows) \<Rightarrow>
         if ic_retMapping c \<noteq> [] then
           (case rows of [] \<Rightarrow> k (Some ErrNoRows) obj
            | r # rs \<Rightarrow> k None (scan_into (ic_retMapping c) r obj))
         else k None obj)"

definition stamp_insert :: "time \<Rightarrow> MetaTransactionRequest \<Rightarrow> MetaTransactionRequest" where
  "stamp_insert currTime obj =
     (let obj = (if CreatedAt obj = 0 then obj\<lparr>CreatedAt := currTime\<rparr> else obj)
      in if UpdatedAt obj = 0 then obj\<lparr>UpdatedAt := currTime\<rparr> else obj)"

definition with_time ::
  "boil_env \<Rightarrow> (time \<Rightarrow> MetaTransactionRequest \<Rightarrow> MetaTransactionRequest) \<Rightarrow>
   MetaTransactionRequest \<Rightarrow> (MetaTransactionRequest \<Rightarrow> 'r prog) \<Rightarrow> 'r prog" where
  "with_time B f obj k =
     (if TimestampsAreSkipped B then k obj else CallNow (\<lambda>currTime. k (f currTime obj)))"

definition Insert ::
  "boil_env \<Rightarrow> MetaTransactionRequest \<Rightarrow> Columns \<Rightarrow>
   (goerror option \<Rightarrow> MetaTransactionRequest \<Rightarrow> 'r prog) \<Rightarrow> 'r prog" where
  "Insert B obj columns k = with_time B stamp_insert obj (\<lambda>obj.
     case doHooks B BeforeInsert obj of
       Inl err \<Rightarrow> k (Some err) obj
     | Inr obj \<Rightarrow>
         (let nzDefaults =
                NonZeroDefaultSet (lib B) metaTransactionRequestColumnsWithDefault obj
          in send_insert (insert_entry B columns nzDefaults) obj (\<lambda>err obj.
               case err of
                 Some e \<Rightarrow>
                   k (Some (wrap ''models: unable to insert into meta_transaction_requests'' e)) obj
               | None \<Rightarrow>
                   (case doHooks B AfterInsert obj of
                      Inl e \<Rightarrow> k (Some e) obj | Inr obj \<Rightarrow> k None obj))))"

text \<open>The same with the cache of generated inserts.\<close>

definition Insert_cached ::
  "boil_env \<Rightarrow> MetaTransactionRequest \<Rightarrow> Columns \<Rightarrow> (string \<rightharpoonup> insertCache) \<Rightarrow>
   (goerror option \<Rightarrow> MetaTransactionRequest \<Rightarrow> (string \<rightharpoonup> insertCache) \<Rightarrow> 'r prog) \<Rightarrow> 'r prog" where
  "Insert_cached B obj columns cache k = with_time B stamp_insert obj (\<lambda>obj.
     case doHooks B BeforeInsert obj of
       Inl err \<Rightarrow> k (Some err) obj cache
     | Inr obj \<Rightarrow>
         (let nzDefaults =
                NonZeroDefaultSet (lib B) metaTransactionRequestColumnsWithDefault obj;
              key = makeCacheKey columns nzDefaults;
              cached = cache key;
              c = (case cached of Some c \<Rightarrow> c | None \<Rightarrow> insert_entry B columns nzDefaults)
          in send_insert c obj (\<lambda>err obj.
               case err of
                 Some e \<Rightarrow>
                   k (Some (wrap ''models: unable to insert into meta_transaction_requests'' e)) obj cache
               | None \<Rightarrow>
                   (let cache' = (if cached = None then cache(key \<mapsto> c) else cache)
                    in case doHooks B AfterInsert obj of
                         Inl e \<Rightarrow> k (Some e) obj cache' | Inr obj \<Rightarrow> k None obj cache'))))"

section \<open>Update\<close>

record updateCache =
  uc_set :: "col list"
  uc_valueMapping :: "col list"

definition update_entry :: "boil_env \<Rightarrow> Columns \<Rightarrow> goerror + updateCache" where
  "update_entry B columns =
     (let wl = UpdateColumnSet (lib B) columns metaTransactionRequestAllColumns
                 metaTransactionRequestPrimaryKeyColumns;
          wl = (if \<not> IsWhitelist (lib B) columns
                then SetComplement (lib B) wl [Col_created_at] else wl)
      in if wl = []
         then Inl (ErrMsg ''models: unable to update meta_transaction_requests, could not build whitelist'')
         else Inr \<lparr>uc_set = wl, uc_valueMapping = wl @ metaTransactionRequestPrimaryKeyColumns\<rparr>)"

text \<open>
  The placeholders of the UPDATE are filled by position: the first values belong to the SET
  list, the rest to the primary key.
\<close>

definition text_of :: "sql_value \<Rightarrow> string" where
  "text_of v = (case v of VText s \<Rightarrow> s | _ \<Rightarrow> '''')"

definition update_stmt :: "updateCache \<Rightarrow> MetaTransactionRequest \<Rightarrow> stmt" where
  "update_stmt c obj =
     (let values = map (\<lambda>col. field_value col obj) (uc_valueMapping c);
          n = length (uc_set c)
      in UPDATE (zip (uc_set c) (take n values)) (map text_of (drop n values)))"

definition stamp_update :: "time \<Rightarrow> MetaTransactionRequest \<Rightarrow> MetaTransactionRequest" where
  "stamp_update currTime obj = obj\<lparr>UpdatedAt := currTime\<rparr>"

text \<open>
  \<open>Update\<close> with its cache: look the key up, build the entry when it is not there, send the
  statement, store a new entry when the statement went through.
\<close>

definition Update_cached ::
  "boil_env \<Rightarrow> MetaTransactionRequest \<Rightarrow> Columns \<Rightarrow> (string \<rightharpoonup> updateCache) \<Rightarrow>
   (goerror + int \<Rightarrow> MetaTransactionRequest \<Rightarrow> (string \<rightharpoonup> updateCache) \<Rightarrow> 'r prog) \<Rightarrow> 'r prog" where
  "Update_cached B obj columns cache k = with_time B stamp_update obj (\<lambda>obj.
     case doHooks B BeforeUpdate obj of
       Inl err \<Rightarrow> k (Inl err) obj cache
     | Inr obj \<Rightarrow>
         (let key = makeCacheKey columns [];
              cached = cache key
          in case (case cached of Some c \<Rightarrow> Inr c | None \<Rightarrow> update_entry B columns) of
               Inl err \<Rightarrow> k (Inl err) obj cache
             | Inr c \<Rightarrow> CallExec (update_stmt c obj) (\<lambda>res.
                 case res of
                   Inl err \<Rightarrow>
                     k (Inl (wrap ''models: unable to update meta_transaction_requests row'' err)) obj cache
                 | Inr (rowsAff, rows) \<Rightarrow>
                     (let cache' = (if cached = None then cache(key \<mapsto> c) else cache)
                      in case doHooks B AfterUpdate obj of
                           Inl err \<Rightarrow> k (Inl err) obj cache'
                         | Inr obj \<Rightarrow> k (Inr rowsAff) obj cache'))))"

text \<open>The same without the cache: the entry is built every time.\<close>

definition Update ::
  "boil_env \<Rightarrow> MetaTransactionRequest \<Rightarrow> Columns \<Rightarrow>
   (goerror + int \<Rightarrow> MetaTransactionRequest \<Rightarrow> 'r prog) \<Rightarrow> 'r prog" where
  "Update B obj columns k = with_time B stamp_update obj (\<lambda>obj.
     case doHooks B BeforeUpdate obj of
       Inl err \<Rightarrow> k (Inl err) obj
     | Inr obj \<Rightarrow>
         (case update_entry B columns of
            Inl err \<Rightarrow> k (Inl err) obj
          | Inr c \<Rightarrow> CallExec (update_stmt c obj) (\<lambda>res.
              case res of
                Inl err \<Rightarrow>
                  k (Inl (wrap ''models: unable to update meta_transaction_requests row'' err)) obj
              | Inr (rowsAff, rows) \<Rightarrow>
                  (case doHooks B AfterUpdate obj of
                     Inl err \<Rightarrow> k (Inl err) obj
                   | Inr obj \<Rightarrow> k (Inr rowsAff) obj))))"

text \<open>
  \<open>UpdateAll\<close> on a slice of objects, with the columns of the map \<open>M\<close> in some order.
\<close>

definition UpdateAll_slice ::
  "MetaTransactionRequest list \<Rightarrow> (col \<times> sql_value) list \<Rightarrow> (goerror + int \<Rightarrow> 'r prog) \<Rightarrow> 'r prog" where
  "UpdateAll_slice objs cols k =
     (if objs = [] then k (Inr 0)
      else if cols = []
      then k (Inl (ErrMsg ''models: update all requires at least one column argument''))
      else CallExec (UPDATE cols (map ID objs)) (\<lambda>res.
        case res of
          Inl err \<Rightarrow> k (Inl (wrap ''models: unable to update all in metaTransactionRequest slice'' err))
        | Inr (rowsAff, rows) \<Rightarrow> k (Inr rowsAff)))"

text \<open>\<open>UpdateAll\<close> on a query.\<close>

definition UpdateAll_query ::
  "query_mod list \<Rightarrow> (col \<times> sql_value) list \<Rightarrow> (goerror + int \<Rightarrow> 'r prog) \<Rightarrow> 'r prog" where
  "UpdateAll_query mods cols k = CallExec (UPDATE_WHERE cols (MetaTransactionRequests mods)) (\<lambda>res.
     case res of
       Inl err \<Rightarrow> k (Inl (wrap ''models: unable to update all for meta_transaction_requests'' err))
     | Inr (rowsAff, rows) \<Rightarrow> k (Inr rowsAff))"

section \<open>Upsert\<close>

text \<open>The option functions of a call, applied one after the other to empty options.\<close>

record UpsertOptions =
  conflictTarget :: string
  updateSet :: string

type_synonym UpsertOptionFunc = "UpsertOptions \<Rightarrow> UpsertOptions"

definition UpsertConflictTarget :: "string \<Rightarrow> UpsertOptionFunc" where
  "UpsertConflictTarget t o' = o'\<lparr>conflictTarget := t\<rparr>"

definition UpsertUpdateSet :: "string \<Rightarrow> UpsertOptionFunc" where
  "UpsertUpdateSet u o' = o'\<lparr>updateSet := u\<rparr>"

definition apply_options :: "UpsertOptionFunc list \<Rightarrow> UpsertOptions" where
  "apply_options opts = fold (\<lambda>f o'. f o') opts \<lparr>conflictTarget = [], updateSet = []\<rparr>"

text \<open>
  The clause after ON CONFLICT: the text of an option replaces what is generated, the update set
  only where one is written at all.
\<close>

definition conflict_clause ::
  "bool \<Rightarrow> col list \<Rightarrow> col list \<Rightarrow> UpsertOptionFunc list \<Rightarrow> conflict_action" where
  "conflict_clause updateOnConflict conflict update opts =
     (let upsertOpts = apply_options opts;
          updates = (updateOnConflict \<and> update \<noteq> []);
          generated = (if updates then DoUpdate conflict update else DoNothing conflict);
          set_text = (if updates then updateSet upsertOpts else [])
      in if conflictTarget upsertOpts = [] \<and> set_text = [] then generated
         else WithText (conflictTarget upsertOpts) set_text generated)"

definition upsert_entry ::
  "boil_env \<Rightarrow> bool \<Rightarrow> col list \<Rightarrow> Columns \<Rightarrow> Columns \<Rightarrow> UpsertOptionFunc list \<Rightarrow> col list \<Rightarrow>
   goerror + insertCache" where
  "upsert_entry B updateOnConflict conflictColumns updateColumns insertColumns opts nzDefaults =
     (let (insert, returned) = InsertColumnSet (lib B) insertColumns metaTransactionRequestAllColumns
            metaTransactionRequestColumnsWithDefault metaTransactionRequestColumnsWithoutDefault
            nzDefaults;
          update = UpdateColumnSet (lib B) updateColumns metaTransactionRequestAllColumns
            metaTransactionRequestPrimaryKeyColumns
      in if updateOnConflict \<and> update = []
         then Inl (ErrMsg ''models: unable to upsert meta_transaction_requests, could not build update column list'')
         else
           (let ret = SetComplement (lib B) metaTransactionRequestAllColumns
                        (SetIntersect (lib B) insert update);
                conflict = (if conflictColumns = [] \<and> updateOnConflict \<and> update \<noteq> []
                            then metaTransactionRequestPrimaryKeyColumns else conflictColumns)
            in Inr \<lparr>ic_columns = insert,
                 ic_action = conflict_clause updateOnConflict conflict update opts,
                 ic_retMapping = ret\<rparr>))"

definition stamp_upsert :: "time \<Rightarrow> MetaTransactionRequest \<Rightarrow> MetaTransactionRequest" where
  "stamp_upsert currTime obj =
     (if CreatedAt obj = 0 then obj\<lparr>CreatedAt := currTime\<rparr> else obj)\<lparr>UpdatedAt := currTime\<rparr>"

text \<open>
  \<open>Upsert\<close> with its cache. A row query without a row is not an error here: PostgreSQL returns
  nothing when there was nothing to do. The key of the cache does not mention the options.
\<close>

definition Upsert_cached ::
  "boil_env \<Rightarrow> MetaTransactionRequest \<Rightarrow> bool \<Rightarrow> col list \<Rightarrow> Columns \<Rightarrow> Columns \<Rightarrow> UpsertOptionFunc list \<Rightarrow>
   (string \<rightharpoonup> insertCache) \<Rightarrow>
   (goerror option \<Rightarrow> MetaTransactionRequest \<Rightarrow> (string \<rightharpoonup> insertCache) \<Rightarrow> 'r prog) \<Rightarrow> 'r prog" where
  "Upsert_cached B obj updateOnConflict conflictColumns updateColumns insertColumns opts cache k =
     with_time B stamp_upsert obj (\<lambda>obj.
       case doHooks B BeforeUpsert obj of
         Inl err \<Rightarrow> k (Some err) obj cache
       | Inr obj \<Rightarrow>
           (let nzDefaults =
                  NonZeroDefaultSet (lib B) metaTransactionRequestColumnsWithDefault obj;
                key = upsertKey updateOnConflict conflictColumns updateColumns insertColumns nzDefaults;
                cached = cache key
            in case (case cached of Some c \<Rightarrow> Inr c
                     | None \<Rightarrow> upsert_entry B updateOnConflict conflictColumns updateColumns
                                insertColumns opts nzDefaults) of
                 Inl err \<Rightarrow> k (Some err) obj cache
               | Inr c \<Rightarrow> send_insert c obj (\<lambda>err obj.
                   case (case err of Some e \<Rightarrow> if errors_Is e ErrNoRows then None else Some e
                         | None \<Rightarrow> None) of
                     Some e \<Rightarrow>
                       k (Some (wrap ''models: unable to upsert meta_transaction_requests'' e)) obj cache
                   | None \<Rightarrow>
                       (let cache' = (if cached = None then cache(key \<mapsto> c) else cache)
                        in case doHooks B AfterUpsert obj of
                             Inl e \<Rightarrow> k (Some e) obj cache'
                           | Inr obj \<Rightarrow> k None obj cache'))))"

definition Upsert ::
  "boil_env \<Rightarrow> MetaTransactionRequest \<Rightarrow> bool \<Rightarrow> col list \<Rightarrow> Columns \<Rightarrow> Columns \<Rightarrow> UpsertOptionFunc list \<Rightarrow>
   (goerror option \<Rightarrow> MetaTransactionRequest \<Rightarrow> 'r prog) \<Rightarrow> 'r prog" where
  "Upsert B obj updateOnConflict conflictColumns updateColumns insertColumns opts k =
     with_time B stamp_upsert obj (\<lambda>obj.
       case doHooks B BeforeUpsert obj of
         Inl err \<Rightarrow> k (Some err) obj
       | Inr obj \<Rightarrow>
           (case upsert_entry B updateOnConflict conflictColumns updateColumns insertColumns opts
                   (NonZeroDefaultSet (lib B) metaTransactionRequestColumnsWithDefault obj) of
              Inl err \<Rightarrow> k (Some err) obj
            | Inr c \<Rightarrow> send_insert c obj (\<lambda>err obj.
                case (case err of Some e \<Rightarrow> if errors_Is e ErrNoRows then None else Some e
                      | None \<Rightarrow> None) of
                  Some e \<Rightarrow>
                    k (Some (wrap ''models: unable to upsert meta_transaction_requests'' e)) obj
                | None \<Rightarrow>
                    (case doHooks B AfterUpsert obj of
                       Inl e \<Rightarrow> k (Some e) obj | Inr obj \<Rightarrow> k None obj))))"

section \<open>Delete\<close>

definition Delete ::
  "boil_env \<Rightarrow> MetaTransactionRequest \<Rightarrow> (goerror + int \<Rightarrow> 'r prog) \<Rightarrow> 'r prog" where
  "Delete B obj k =
     (case doHooks B BeforeDelete obj of
        Inl err \<Rightarrow> k (Inl err)
      | Inr obj \<Rightarrow> CallExec (DELETE [ID obj]) (\<lambda>res.
          case res of
            Inl err \<Rightarrow> k (Inl (wrap ''models: unable to delete from meta_transaction_requests'' err))
          | Inr (rowsAff, rows) \<Rightarrow>
              (case doHooks B AfterDelete obj of
                 Inl err \<Rightarrow> k (Inl err) | Inr obj \<Rightarrow> k (Inr rowsAff))))"

definition DeleteAll_slice ::
  "boil_env \<Rightarrow> MetaTransactionRequest list \<Rightarrow> (goerror + int \<Rightarrow> 'r prog) \<Rightarrow> 'r prog" where
  "DeleteAll_slice B objs k =
     (if objs = [] then k (Inr 0)
      else case (if hooks B BeforeDelete = [] then Inr objs else hooks_all B BeforeDelete objs) of
        Inl err \<Rightarrow> k (Inl err)
      | Inr objs \<Rightarrow> CallExec (DELETE (map ID objs)) (\<lambda>res.
          case res of
            Inl err \<Rightarrow> k (Inl (wrap ''models: unable to delete all from metaTransactionRequest slice'' err))
          | Inr (rowsAff, rows) \<Rightarrow>
              (case (if hooks B AfterDelete = [] then Inr objs else hooks_all B AfterDelete objs) of
                 Inl err \<Rightarrow> k (Inl err) | Inr objs \<Rightarrow> k (Inr rowsAff))))"

text \<open>\<open>DeleteAll\<close> on a query; \<open>None\<close> is a query object without a query.\<close>

definition DeleteAll_query ::
  "query_mod list option \<Rightarrow> (goerror + int \<Rightarrow> 'r prog) \<Rightarrow> 'r prog" where
  "DeleteAll_query q k =
     (case q of
        None \<Rightarrow> k (Inl (ErrMsg ''models: no metaTransactionRequestQuery provided for delete all''))
      | Some mods \<Rightarrow> CallExec (DELETE_WHERE (MetaTransactionRequests mods)) (\<lambda>res.
          case res of
            Inl err \<Rightarrow> k (Inl (wrap ''models: unable to delete all from meta_transaction_requests'' err))
          | Inr (rowsAff, rows) \<Rightarrow> k (Inr rowsAff)))"

text \<open>
  \<open>MetaTransactionRequestExists\<close>: the answer to \<open>select exists(...)\<close> is whether there is a row.
\<close>

definition MetaTransactionRequestExists ::
  "string \<Rightarrow> (goerror + bool \<Rightarrow> 'r prog) \<Rightarrow> 'r prog" where
  "MetaTransactionRequestExists iD k = CallCount [Where Col_id EQ (VText iD), Limit 1] (\<lambda>res.
     case res of
       Inl err \<Rightarrow> k (Inl (wrap ''models: unable to check if meta_transaction_requests exists'' err))
     | Inr n \<Rightarrow> k (Inr (n > 0)))"

definition Exists_row :: "MetaTransactionRequest \<Rightarrow> (goerror + bool \<Rightarrow> 'r prog) \<Rightarrow> 'r prog" where
  "Exists_row obj k = MetaTransactionRequestExists (ID obj) k"

text \<open>\<open>ReloadAll\<close>: the objects are replaced by the stored rows with their ids.\<close>

definition ReloadAll ::
  "MetaTransactionRequest list \<Rightarrow>
   (goerror option \<Rightarrow> MetaTransactionRequest list \<Rightarrow> 'r prog) \<Rightarrow> 'r prog" where
  "ReloadAll objs k =
     (if objs = [] then k None objs
      else CallQuery [WhereIn Col_id (map (\<lambda>r. VText (ID r)) objs)] (\<lambda>res.
        case res of
          Inl err \<Rightarrow> k (Some (wrap ''models: unable to reload all in MetaTransactionRequestSlice'' err)) objs
        | Inr rs \<Rightarrow> k None rs))"

section \<open>The keys of the caches determine their entries\<close>

text \<open>
  The keys are concatenations without separators between the names; they are still unambiguous,
  because no column name is a prefix of another.
\<close>

lemma column_names_prefix_free:
  "MetaTransactionRequestColumns a @ xs = MetaTransactionRequestColumns b @ ys \<Longrightarrow> a = b \<and> xs = ys"
  by (cases a; cases b; simp)

lemma column_names_nonempty: "MetaTransactionRequestColumns c \<noteq> []"
  by (cases c) auto

lemma column_names_chars:
  "ch \<in> set (MetaTransactionRequestColumns c) \<Longrightarrow> ch \<noteq> CHR ''.'' \<and> \<not> numeral_char ch"
  by (cases c) (auto simp: numeral_char_def)

lemma names_inject: "names cs = names ds \<Longrightarrow> cs = ds"
  unfolding names_def
  by (rule concat_code_inject [OF column_names_prefix_free column_names_nonempty])

lemma names_chars: "ch \<in> set (names cs) \<Longrightarrow> ch \<noteq> CHR ''.'' \<and> \<not> numeral_char ch"
  by (auto simp: names_def dest: column_names_chars)

lemma names_Nil [simp]: "names [] = []"
  by (simp add: names_def)

lemma names_no_dot: "CHR ''.'' \<notin> set (names cs)"
  using names_chars by blast

lemma names_hd: "names cs = [] \<or> \<not> numeral_char (hd (names cs))"
  using names_chars by (metis list.set_sel(1))

lemma Itoa_no_dot: "CHR ''.'' \<notin> set (Itoa i)"
  by (auto dest!: Itoa_chars simp: numeral_char_def)

lemma split_at_first:
  assumes "xs @ c # us = ys @ c # vs" and "c \<notin> set xs" and "c \<notin> set ys"
  shows "xs = ys \<and> us = vs"
  using assms
proof (induction xs arbitrary: ys)
  case Nil
  then show ?case by (cases ys) auto
next
  case (Cons x xs)
  then show ?case by (cases ys) auto
qed

lemma Itoa_names_inject:
  assumes "Itoa i @ names cs = Itoa j @ names ds"
  shows "i = j \<and> cs = ds"
  using Itoa_append_inject [OF assms names_hd names_hd] names_inject by blast

lemma makeCacheKey_inject:
  assumes "makeCacheKey c nz = makeCacheKey d mz"
  shows "Kind c = Kind d \<and> Cols c = Cols d \<and> nz = mz"
proof -
  let ?tail = "\<lambda>nz. (if nz \<noteq> [] then ''.'' else []) @ names nz"
  have eq: "(Itoa (Kind c) @ names (Cols c)) @ ?tail nz = (Itoa (Kind d) @ names (Cols d)) @ ?tail mz"
    using assms by (simp add: makeCacheKey_def)
  have nodot: "CHR ''.'' \<notin> set (Itoa i @ names cs)" for i cs
    by (simp add: names_no_dot Itoa_no_dot)
  have "Itoa (Kind c) @ names (Cols c) = Itoa (Kind d) @ names (Cols d) \<and> nz = mz"
  proof (cases "nz = []")
    case True
    have "mz = []"
    proof (rule ccontr)
      assume "mz \<noteq> []"
      with eq True have "Itoa (Kind c) @ names (Cols c) =
          (Itoa (Kind d) @ names (Cols d)) @ CHR ''.'' # names mz" by simp
      then have "CHR ''.'' \<in> set (Itoa (Kind c) @ names (Cols c))" by simp
      with nodot show False by blast
    qed
    with True eq show ?thesis by simp
  next
    case False
    have mz: "mz \<noteq> []"
    proof
      assume "mz = []"
      with False eq have "Itoa (Kind d) @ names (Cols d) =
          (Itoa (Kind c) @ names (Cols c)) @ CHR ''.'' # names nz" by simp
      then have "CHR ''.'' \<in> set (Itoa (Kind d) @ names (Cols d))" by simp
      with nodot show False by blast
    qed
    with False eq have "(Itoa (Kind c) @ names (Cols c)) @ CHR ''.'' # names nz =
        (Itoa (Kind d) @ names (Cols d)) @ CHR ''.'' # names mz" by simp
    from split_at_first [OF this nodot nodot] show ?thesis using names_inject by blast
  qed
  then show ?thesis using Itoa_names_inject by blast
qed

lemma upsertKey_inject:
  assumes "upsertKey u cf uc ic nz = upsertKey u' cf' uc' ic' nz'"
  shows "u = u' \<and> cf = cf' \<and> Kind uc = Kind uc' \<and> Cols uc = Cols uc' \<and>
    Kind ic = Kind ic' \<and> Cols ic = Cols ic' \<and> nz = nz'"
proof -
  let ?num = "\<lambda>c. Itoa (Kind c) @ names (Cols c)"
  have nodot: "CHR ''.'' \<notin> set (?num c)" for c
    by (simp add: names_no_dot Itoa_no_dot)
  from assms have u: "u = u'"
    and e1: "names cf @ CHR ''.'' # ?num uc @ CHR ''.'' # ?num ic @ CHR ''.'' # names nz =
             names cf' @ CHR ''.'' # ?num uc' @ CHR ''.'' # ?num ic' @ CHR ''.'' # names nz'"
    by (auto simp: upsertKey_def split: if_splits)
  from split_at_first [OF e1 names_no_dot names_no_dot]
  have cf: "names cf = names cf'"
    and e2: "?num uc @ CHR ''.'' # ?num ic @ CHR ''.'' # names nz =
             ?num uc' @ CHR ''.'' # ?num ic' @ CHR ''.'' # names nz'" by auto
  from split_at_first [OF e2 nodot nodot]
  have n1: "?num uc = ?num uc'"
    and e3: "?num ic @ CHR ''.'' # names nz = ?num ic' @ CHR ''.'' # names nz'" by auto
  from split_at_first [OF e3 nodot nodot] n1 cf u show ?thesis
    using Itoa_names_inject names_inject by blast
qed

lemma Columns_eqI: "Kind c = Kind d \<Longrightarrow> Cols c = Cols d \<Longrightarrow> c = (d :: Columns)"
  by (cases c; cases d) simp

section \<open>The caches are transparent\<close>

text \<open>A cache is right when every entry is the one its key's columns would be given.\<close>

definition update_cache_ok :: "boil_env \<Rightarrow> (string \<rightharpoonup> updateCache) \<Rightarrow> bool" where
  "update_cache_ok B cache \<longleftrightarrow>
     (\<forall>columns c. cache (makeCacheKey columns []) = Some c \<longrightarrow> update_entry B columns = Inr c)"

definition insert_cache_ok :: "boil_env \<Rightarrow> (string \<rightharpoonup> insertCache) \<Rightarrow> bool" where
  "insert_cache_ok B cache \<longleftrightarrow>
     (\<forall>columns nz c. cache (makeCacheKey columns nz) = Some c \<longrightarrow> insert_entry B columns nz = c)"

text \<open>For one choice of options: the key does not tell different ones apart.\<close>

definition upsert_cache_ok ::
  "boil_env \<Rightarrow> UpsertOptionFunc list \<Rightarrow> (string \<rightharpoonup> insertCache) \<Rightarrow> bool" where
  "upsert_cache_ok B opts cache \<longleftrightarrow>
     (\<forall>u cf uc ic nz c. cache (upsertKey u cf uc ic nz) = Some c \<longrightarrow>
        upsert_entry B u cf uc ic opts nz = Inr c)"

lemma update_cache_ok_empty: "update_cache_ok B Map.empty"
  by (simp add: update_cache_ok_def)

lemma insert_cache_ok_empty: "insert_cache_ok B Map.empty"
  by (simp add: insert_cache_ok_def)

lemma upsert_cache_ok_empty: "upsert_cache_ok B opts Map.empty"
  by (simp add: upsert_cache_ok_def)

lemma makeCacheKey_eq: "makeCacheKey c nz = makeCacheKey d mz \<longleftrightarrow> c = d \<and> nz = mz"
  using makeCacheKey_inject [of c nz d mz] Columns_eqI [of c d] by blast

lemma upsertKey_eq: "upsertKey u cf uc ic nz = upsertKey u' cf' uc' ic' nz' \<longleftrightarrow>
    u = u' \<and> cf = cf' \<and> uc = uc' \<and> ic = ic' \<and> nz = nz'"
  using upsertKey_inject [of u cf uc ic nz u' cf' uc' ic' nz'] Columns_eqI [of uc uc']
    Columns_eqI [of ic ic'] by blast

lemma update_cache_ok_upd:
  "update_cache_ok B cache \<Longrightarrow> update_entry B columns = Inr c \<Longrightarrow>
   update_cache_ok B (cache(makeCacheKey columns [] \<mapsto> c))"
  by (auto simp: update_cache_ok_def makeCacheKey_eq split: if_splits)

lemma insert_cache_ok_upd:
  "insert_cache_ok B cache \<Longrightarrow>
   insert_cache_ok B (cache(makeCacheKey columns nz \<mapsto> insert_entry B columns nz))"
  by (auto simp: insert_cache_ok_def makeCacheKey_eq split: if_splits)

lemma upsert_cache_ok_upd:
  "upsert_cache_ok B opts cache \<Longrightarrow> upsert_entry B u cf uc ic opts nz = Inr c \<Longrightarrow>
   upsert_cache_ok B opts (cache(upsertKey u cf uc ic nz \<mapsto> c))"
  by (auto simp: upsert_cache_ok_def upsertKey_eq split: if_splits)

text \<open>
  With a right cache every operation makes the calls of the one without, and leaves a right
  cache behind: the continuation may insist on it.
\<close>

lemma with_time_cong: "(\<And>obj. f obj = g obj) \<Longrightarrow> with_time B s obj f = with_time B s obj g"
  by (simp add: with_time_def)

lemma send_insert_cong:
  assumes "\<And>err obj. f err obj = g err obj"
  shows "send_insert c obj f = send_insert c obj g"
proof -
  from assms have "f = g" by (intro ext)
  then show ?thesis by simp
qed

lemma Update_cached_eq:
  assumes "update_cache_ok B cache"
  shows "Update_cached B obj columns cache
           (\<lambda>res o' cache'. if update_cache_ok B cache' then k res o' else bad) =
         Update B obj columns k"
proof -
  have entry: "(case cache (makeCacheKey columns []) of None \<Rightarrow> update_entry B columns | Some c \<Rightarrow> Inr c)
      = update_entry B columns"
    using assms by (auto simp: update_cache_ok_def split: option.splits)
  show ?thesis
    unfolding Update_cached_def Update_def Let_def entry
    by (rule with_time_cong)
      (auto simp: assms fun_eq_iff update_cache_ok_upd [OF assms]
        split: sum.splits prod.splits)
qed

lemma Insert_cached_eq:
  assumes "insert_cache_ok B cache"
  shows "Insert_cached B obj columns cache
           (\<lambda>err o' cache'. if insert_cache_ok B cache' then k err o' else bad) =
         Insert B obj columns k"
proof -
  have entry: "(case cache (makeCacheKey columns nz) of None \<Rightarrow> insert_entry B columns nz | Some c \<Rightarrow> c)
      = insert_entry B columns nz" for nz
    using assms by (auto simp: insert_cache_ok_def split: option.splits)
  show ?thesis
    unfolding Insert_cached_def Insert_def Let_def entry
    apply (rule with_time_cong)
    apply (simp add: assms split: sum.split)
    apply (intro allI impI conjI send_insert_cong)
     apply (simp_all add: assms insert_cache_ok_upd [OF assms] split: option.split sum.split)
    done
qed

lemma Upsert_cached_eq:
  assumes "upsert_cache_ok B opts cache"
  shows "Upsert_cached B obj u cf uc ic opts cache
           (\<lambda>err o' cache'. if upsert_cache_ok B opts cache' then k err o' else bad) =
         Upsert B obj u cf uc ic opts k"
proof -
  have entry: "(case cache (upsertKey u cf uc ic nz) of None \<Rightarrow> upsert_entry B u cf uc ic opts nz
        | Some c \<Rightarrow> Inr c) = upsert_entry B u cf uc ic opts nz" for nz
    using assms by (auto simp: upsert_cache_ok_def split: option.splits)
  show ?thesis
    unfolding Upsert_cached_def Upsert_def Let_def entry
    apply (rule with_time_cong)
    apply (simp add: assms split: sum.split)
    apply (intro allI impI conjI send_insert_cong)
     apply (simp_all add: assms upsert_cache_ok_upd [OF assms] split: option.split sum.split)
    done
qed

section \<open>What the operations come to in this program\<close>

lemma update_stmt_entry:
  assumes "update_entry B columns = Inr c"
  shows "update_stmt c obj = UPDATE (bound_values (uc_set c) obj) [ID obj]"
proof -
  from assms have "uc_valueMapping c = uc_set c @ [Col_id]"
    by (auto simp: update_entry_def Let_def metaTransactionRequestPrimaryKeyColumns_def
        split: if_splits)
  then show ?thesis
    by (simp add: update_stmt_def Let_def text_of_def bound_values_def zip_map2 zip_same_conv_map)
qed

lemma update_entry_whitelist:
  assumes "plain B" and "cs \<noteq> []"
  shows "\<exists>c. update_entry B (Whitelist (lib B) cs) = Inr c \<and> uc_set c = cs"
  using assms by (simp add: plain_def boil_laws_def update_entry_def Let_def)

lemma with_time_plain [orm_simps]:
  "plain B \<Longrightarrow> with_time B f obj k = CallNow (\<lambda>t. k (f t obj))"
  by (simp add: with_time_def plain_def)

lemma stamp_update_simps [simp]:
  "ID (stamp_update t obj) = ID obj" "Nonce (stamp_update t obj) = Nonce obj"
  "GasPrice (stamp_update t obj) = GasPrice obj" "Hash (stamp_update t obj) = Hash obj"
  "SubmittedBlockNumber (stamp_update t obj) = SubmittedBlockNumber obj"
  "SubmittedBlockHash (stamp_update t obj) = SubmittedBlockHash obj"
  "MinedBlockNumber (stamp_update t obj) = MinedBlockNumber obj"
  "MinedBlockHash (stamp_update t obj) = MinedBlockHash obj"
  "BoostedBlockNumber (stamp_update t obj) = BoostedBlockNumber obj"
  "BoostedBlockHash (stamp_update t obj) = BoostedBlockHash obj"
  "To (stamp_update t obj) = To obj" "Data (stamp_update t obj) = Data obj"
  "WalletIndex (stamp_update t obj) = WalletIndex obj" "UpdatedAt (stamp_update t obj) = t"
  by (simp_all add: stamp_update_def)

lemma Update_plain [orm_simps]:
  assumes "plain B" and "cs \<noteq> []"
  shows "Update B obj (Whitelist (lib B) cs) k = CallNow (\<lambda>t.
     CallExec (UPDATE (bound_values cs (stamp_update t obj)) [ID obj]) (\<lambda>res.
       case res of
         Inl err \<Rightarrow> k (Inl (wrap ''models: unable to update meta_transaction_requests row'' err))
                     (stamp_update t obj)
       | Inr (rowsAff, rows) \<Rightarrow> k (Inr rowsAff) (stamp_update t obj)))"
proof -
  from update_entry_whitelist [OF assms] obtain c
    where c: "update_entry B (Whitelist (lib B) cs) = Inr c" "uc_set c = cs" by blast
  show ?thesis
    using assms(1) by (simp add: Update_def with_time_plain c update_stmt_entry [OF c(1)])
qed

lemma Delete_plain [orm_simps]:
  "plain B \<Longrightarrow> Delete B obj k = CallExec (DELETE [ID obj]) (\<lambda>res.
     case res of
       Inl err \<Rightarrow> k (Inl (wrap ''models: unable to delete from meta_transaction_requests'' err))
     | Inr (rowsAff, rows) \<Rightarrow> k (Inr rowsAff))"
  by (simp add: Delete_def)

lemma One_plain [orm_simps]:
  "plain B \<Longrightarrow> One B mods k = CallQuery (MetaTransactionRequests mods @ [Limit 1]) (\<lambda>res.
     case res of
       Inl err \<Rightarrow>
         if errors_Is err ErrNoRows then k (Inl ErrNoRows)
         else k (Inl (wrap ''models: failed to execute a one query for meta_transaction_requests'' err))
     | Inr [] \<Rightarrow> k (Inl ErrNoRows)
     | Inr (r # rs) \<Rightarrow> k (Inr r))"
  by (simp only: One_def doHooks_plain)

text \<open>
  A standard library that satisfies the laws, used by the witnesses.
\<close>

definition demo_lib :: boil_lib where
  "demo_lib =
     \<lparr>Whitelist = (\<lambda>cs. \<lparr>Kind = 2, Cols = cs\<rparr>),
      NoColumns = \<lparr>Kind = 0, Cols = []\<rparr>,
      Infer = \<lparr>Kind = 1, Cols = []\<rparr>,
      IsWhitelist = (\<lambda>c. Kind c = 2),
      UpdateColumnSet = (\<lambda>c al pk. if Kind c = 2 then Cols c else if Kind c = 0 then []
         else filter (\<lambda>x. x \<notin> set pk) al),
      InsertColumnSet = (\<lambda>c al wd wo nz.
         if Kind c = 2 then (Cols c, filter (\<lambda>x. x \<notin> set (Cols c)) wd)
         else (filter (\<lambda>x. x \<in> set wo \<or> x \<in> set nz) (remdups (al @ wo @ nz)),
               filter (\<lambda>x. x \<notin> set nz) wd)),
      NonZeroDefaultSet = (\<lambda>cs r. filter (nonzero_field r) cs),
      SetComplement = (\<lambda>xs ys. filter (\<lambda>c. c \<notin> set ys) xs),
      SetIntersect = (\<lambda>xs ys. filter (\<lambda>c. c \<in> set ys) xs)\<rparr>"

definition demo_env :: boil_env where
  "demo_env = \<lparr>lib = demo_lib, HooksAreSkipped = False, TimestampsAreSkipped = False,
     hooks = (\<lambda>p. [])\<rparr>"

lemma boil_laws_demo: "boil_laws demo_lib"
  by (auto simp: boil_laws_def demo_lib_def)

lemma plain_demo [simp]: "plain demo_env"
  by (simp add: plain_def demo_env_def boil_laws_demo)

section \<open>The text of an upsert\<close>

text \<open>
  \<open>buildUpsertQueryPostgres\<close> writes the text itself; quoting an identifier and the list of
  placeholders come from strmangle (\<open>mangle_lib\<close>).
\<close>

record mangle_lib =
  IdentQuote :: "string \<Rightarrow> string"
  Placeholders :: "nat \<Rightarrow> string"

fun join :: "string \<Rightarrow> string list \<Rightarrow> string" where
  "join sep [] = []"
| "join sep [s] = s"
| "join sep (s # t # ss) = s @ sep @ join sep (t # ss)"

text \<open>The loop over the update columns: empty names are skipped, a comma precedes all but index 0.\<close>

fun set_clauses :: "mangle_lib \<Rightarrow> nat \<Rightarrow> string list \<Rightarrow> string" where
  "set_clauses M i [] = []"
| "set_clauses M i (v # vs) =
     (if length v = 0 then []
      else (if i \<noteq> 0 then '','' else []) @ IdentQuote M v @ '' = EXCLUDED.'' @ IdentQuote M v) @
     set_clauses M (Suc i) vs"

definition buildUpsertQueryPostgres ::
  "mangle_lib \<Rightarrow> string \<Rightarrow> bool \<Rightarrow> string list \<Rightarrow> string list \<Rightarrow> string list \<Rightarrow> string list \<Rightarrow>
   (UpsertOptions \<Rightarrow> UpsertOptions) list \<Rightarrow> string" where
  "buildUpsertQueryPostgres M tableName updateOnConflict ret update conflict whitelist opts =
     (let conflict = map (IdentQuote M) conflict;
          whitelist = map (IdentQuote M) whitelist;
          ret = map (IdentQuote M) ret;
          upsertOpts = apply_options opts;
          columns = (if length whitelist \<noteq> 0
            then ''('' @ join '', '' whitelist @ '') VALUES ('' @ Placeholders M (length whitelist) @ '')''
            else ''DEFAULT VALUES'')
      in ''INSERT INTO '' @ tableName @ '' '' @ columns @ '' ON CONFLICT '' @
         (if conflictTarget upsertOpts \<noteq> [] then conflictTarget upsertOpts
          else if length conflict \<noteq> 0 then ''('' @ join '', '' conflict @ '')''
          else []) @
         '' '' @
         (if \<not> updateOnConflict \<or> length update = 0 then ''DO NOTHING''
          else ''DO UPDATE SET '' @
            (if updateSet upsertOpts \<noteq> [] then updateSet upsertOpts else set_clauses M 0 update)) @
         (if length ret \<noteq> 0 then '' RETURNING '' @ join '', '' ret else []))"

end
