(* ===== verification/Ticker.thy ===== *)
theory Ticker
  imports Models
begin

text \<open>
  internal/ticker/loop.go: the watcher of one wallet. \<open>Tick\<close> is the program of one tick, split
  where the code has its comments: \<open>Tick\<close> looks for the submitted transaction of the wallet,
  \<open>tick_active\<close> handles it, \<open>not_included\<close> is the branch for a missing receipt (with \<open>boost\<close>),
  \<open>included\<close> the one for a receipt, and \<open>submit_next\<close> the part after "At this point, there's
  nothing in the table that's been submitted". Log lines are left out.

  go-ethereum's pure functions (conversions, the signer's hash, attaching a signature, the hash of
  a transaction, hex decoding) and the decimal library's conversion to \<open>uint64\<close> are the
  parameters \<open>eth_lib\<close>. Reading a NULL decimal through its nil pointer panics in Go; here that is
  an outcome of its own.
\<close>

section \<open>Parameters\<close>

record eth_lib =
  BytesToAddress :: "bytes \<Rightarrow> address"
  BytesToHash :: "bytes \<Rightarrow> hash"
  HashBytes :: "hash \<Rightarrow> bytes"
  HexutilDecode :: "string \<Rightarrow> goerror + bytes"
  SignerHash :: "int \<Rightarrow> LegacyTx \<Rightarrow> hash"
  WithSignature :: "int \<Rightarrow> LegacyTx \<Rightarrow> bytes \<Rightarrow> goerror + SignedTx"
  TxHash :: "SignedTx \<Rightarrow> hash"
  DecimalUint64 :: "int \<Rightarrow> uint64"

text \<open>
  The documented behaviour the properties use: a hash survives the way to bytes and back and has
  32 bytes, \<open>WithSignature\<close> returns the transaction it was given, and a decimal made from a
  \<open>uint64\<close> gives it back.
\<close>

definition eth_laws :: "eth_lib \<Rightarrow> bool" where
  "eth_laws E \<longleftrightarrow>
     (\<forall>h. BytesToHash E (HashBytes E h) = h) \<and>
     (\<forall>h. length (HashBytes E h) = 32) \<and>
     (\<forall>c t s st. WithSignature E c t s = Inr st \<longrightarrow> inner st = t) \<and>
     (\<forall>n. DecimalUint64 E (uint n) = n)"

record Watcher =
  confirmationBlocks :: int
  boostAfterBlocks :: int
  chainID :: int
  senderAddress :: address
  walletIndex :: int
  disableBoosting :: bool

definition New_Watcher :: "int \<Rightarrow> int \<Rightarrow> int \<Rightarrow> address \<Rightarrow> int \<Rightarrow> bool \<Rightarrow> Watcher" where
  "New_Watcher confirmBlocks boostBlocks chain sender wallet disable =
     \<lparr>confirmationBlocks = confirmBlocks, boostAfterBlocks = boostBlocks, chainID = chain,
      senderAddress = sender, walletIndex = wallet, disableBoosting = disable\<rparr>"

text \<open>The result of a tick: Go's \<open>error\<close> value (\<open>None\<close> is nil), or a panic.\<close>

type_synonym tick_result = "goerror option outcome"

abbreviation ok :: "tick_result prog" where
  "ok \<equiv> Ret (Returned None)"

abbreviation fail :: "goerror \<Rightarrow> tick_result prog" where
  "fail e \<equiv> Ret (Returned (Some e))"

abbreviation panic :: "tick_result prog" where
  "panic \<equiv> Ret (Panicked ''invalid memory address or nil pointer dereference'')"

section \<open>The estimate that failed\<close>

text \<open>
  The data of a JSON-RPC error that is a hex string of at least one byte goes into the status
  message; everything else is dropped.
\<close>

definition revert_data :: "eth_lib \<Rightarrow> errdata \<Rightarrow> bytes" where
  "revert_data E d =
     (case d of
        DataString hexData \<Rightarrow>
          (case HexutilDecode E hexData of
             Inr data \<Rightarrow> if length data \<noteq> 0 then data else []
           | Inl err \<Rightarrow> [])
      | DataOther \<Rightarrow> [])"

definition estimate_failed ::
  "boil_env \<Rightarrow> eth_lib \<Rightarrow> MetaTransactionRequest \<Rightarrow> goerror \<Rightarrow> tick_result prog" where
  "estimate_failed B E request err =
     (case err of
        ErrJSONRPC message code data \<Rightarrow>
          CallProducer (Failed \<lparr>FailedMsg_ID = ID request, FailedMsg_Data = revert_data E data\<rparr>)
            (Delete B request (\<lambda>res.
              case res of
                Inl err \<Rightarrow> fail (ErrWrap ''failed to delete un-estimateable transaction'' err)
              | Inr n \<Rightarrow> ok))
      | err \<Rightarrow> fail (ErrWrap ''error estimating gas'' err))"

section \<open>Boosting\<close>

text \<open>
  The price of a replacement: twice the suggestion, or 120 percent of the old price (rounded
  down), whichever is higher.
\<close>

definition boost_price :: "int \<Rightarrow> int \<Rightarrow> int" where
  "boost_price suggested oldGasPrice =
     (let gasPrice = 2 * suggested;
          newBar = oldGasPrice * 120;
          newBar = newBar div 100
      in if newBar > gasPrice then newBar else gasPrice)"

definition boost_columns :: "col list" where
  "boost_columns =
     [Col_boosted_block_hash, Col_boosted_block_number, Col_nonce, Col_gas_price, Col_updated_at,
      Col_hash]"

definition call_msg ::
  "eth_lib \<Rightarrow> Watcher \<Rightarrow> MetaTransactionRequest \<Rightarrow> int \<Rightarrow> CallMsg" where
  "call_msg E w request gasPrice =
     \<lparr>CallMsg_From = senderAddress w, CallMsg_To = BytesToAddress E (To request),
      CallMsg_GasPrice = gasPrice, CallMsg_Data = Data request\<rparr>"

definition legacy_tx :: "uint64 \<Rightarrow> int \<Rightarrow> uint64 \<Rightarrow> CallMsg \<Rightarrow> LegacyTx" where
  "legacy_tx nonce gasPrice gasLimit callMsg =
     \<lparr>LegacyTx_Nonce = nonce, LegacyTx_GasPrice = gasPrice, LegacyTx_Gas = gasLimit,
      LegacyTx_To = CallMsg_To callMsg, LegacyTx_Data = CallMsg_Data callMsg\<rparr>"

text \<open>Sign a transaction and attach the signature.\<close>

definition sign_tx ::
  "eth_lib \<Rightarrow> Watcher \<Rightarrow> LegacyTx \<Rightarrow> (SignedTx \<Rightarrow> tick_result prog) \<Rightarrow> tick_result prog" where
  "sign_tx E w txd k = CallSign (SignerHash E (chainID w) txd) (\<lambda>res.
     case res of
       Inl err \<Rightarrow> fail (ErrWrap ''failed to sign transaction'' err)
     | Inr sigBytes \<Rightarrow>
         (case WithSignature E (chainID w) txd sigBytes of
            Inl err \<Rightarrow> fail (ErrWrap ''failed to attach signature to transaction'' err)
          | Inr signedTx \<Rightarrow> k signedTx))"

definition boosted ::
  "eth_lib \<Rightarrow> int \<Rightarrow> uint64 \<Rightarrow> int \<Rightarrow> SignedTx \<Rightarrow> MetaTransactionRequest \<Rightarrow> MetaTransactionRequest" where
  "boosted E headNum nonce gasPrice signedTx activeTx =
     activeTx\<lparr>BoostedBlockNumber := Some headNum,
       BoostedBlockHash := Some (HashBytes E (TxHash E signedTx)),
       Nonce := Some (uint nonce),
       GasPrice := Some gasPrice,
       Hash := Some (HashBytes E (TxHash E signedTx))\<rparr>"

definition boost ::
  "boil_env \<Rightarrow> eth_lib \<Rightarrow> Watcher \<Rightarrow> int \<Rightarrow> MetaTransactionRequest \<Rightarrow> tick_result prog" where
  "boost B E w headNum activeTx = CallSuggestGasPrice (\<lambda>res.
     case res of
       Inl err \<Rightarrow> fail (ErrWrap ''failed to retrieve gas price estimate'' err)
     | Inr suggested \<Rightarrow>
         (case GasPrice activeTx of
            None \<Rightarrow> panic
          | Some oldGasPrice \<Rightarrow>
              (let gasPrice = boost_price suggested oldGasPrice;
                   callMsg = call_msg E w activeTx gasPrice
               in CallEstimateGas callMsg (\<lambda>res.
                 case res of
                   Inl err \<Rightarrow> estimate_failed B E activeTx err
                 | Inr gasLimit \<Rightarrow>
                     (case Nonce activeTx of
                        None \<Rightarrow> panic
                      | Some n \<Rightarrow>
                          (let nonce = DecimalUint64 E n
                           in sign_tx E w (legacy_tx nonce gasPrice (2 * gasLimit) callMsg)
                                (\<lambda>signedTx.
                                  Update B (boosted E headNum nonce gasPrice signedTx activeTx)
                                    (Whitelist (lib B) boost_columns) (\<lambda>res activeTx.
                                      case res of
                                        Inl err \<Rightarrow> fail err
                                      | Inr n \<Rightarrow>
                                          CallSendTransaction signedTx (\<lambda>err. Ret (Returned err))))))))))"

section \<open>The transaction is not included yet\<close>

definition mined_columns :: "col list" where
  "mined_columns = [Col_mined_block_number, Col_mined_block_hash, Col_updated_at]"

definition last_send :: "MetaTransactionRequest \<Rightarrow> int option" where
  "last_send activeTx =
     (case SubmittedBlockNumber activeTx of
        None \<Rightarrow> None
      | Some lastSend \<Rightarrow>
          (case BoostedBlockNumber activeTx of None \<Rightarrow> Some lastSend | Some b \<Rightarrow> Some b))"

definition maybe_boost ::
  "boil_env \<Rightarrow> eth_lib \<Rightarrow> Watcher \<Rightarrow> int \<Rightarrow> MetaTransactionRequest \<Rightarrow> tick_result prog" where
  "maybe_boost B E w headNum activeTx =
     (case last_send activeTx of
        None \<Rightarrow> panic
      | Some lastSend \<Rightarrow>
          if headNum - lastSend \<ge> boostAfterBlocks w
          then (if disableBoosting w then ok else boost B E w headNum activeTx)
          else ok)"

definition not_included ::
  "boil_env \<Rightarrow> eth_lib \<Rightarrow> Watcher \<Rightarrow> int \<Rightarrow> MetaTransactionRequest \<Rightarrow> tick_result prog" where
  "not_included B E w headNum activeTx =
     (if MinedBlockNumber activeTx \<noteq> None
      then Update B (activeTx\<lparr>MinedBlockNumber := None, MinedBlockHash := None\<rparr>)
             (Whitelist (lib B) mined_columns) (\<lambda>res activeTx.
               case res of
                 Inl err \<Rightarrow> fail err
               | Inr n \<Rightarrow> maybe_boost B E w headNum activeTx)
      else maybe_boost B E w headNum activeTx)"

section \<open>Submitting the next request\<close>

definition submit_columns :: "col list" where
  "submit_columns =
     [Col_submitted_block_hash, Col_hash, Col_submitted_block_number, Col_nonce, Col_gas_price,
      Col_updated_at]"

definition submitted ::
  "eth_lib \<Rightarrow> Header \<Rightarrow> uint64 \<Rightarrow> int \<Rightarrow> SignedTx \<Rightarrow> MetaTransactionRequest \<Rightarrow> MetaTransactionRequest" where
  "submitted E head nonce gasPrice signedTx sendTx =
     sendTx\<lparr>SubmittedBlockNumber := Some (Number head),
       SubmittedBlockHash := Some (HashBytes E (HeaderHash head)),
       Nonce := Some (uint nonce),
       GasPrice := Some gasPrice,
       Hash := Some (HashBytes E (TxHash E signedTx))\<rparr>"

definition next_request :: "Watcher \<Rightarrow> query_mod list" where
  "next_request w =
     [OrderByAsc Col_id, whereHelperint Col_wallet_index EQ (walletIndex w), Limit 1]"

text \<open>From the nonce on: price, estimate, sign, send, record, announce.\<close>

definition send_request ::
  "boil_env \<Rightarrow> eth_lib \<Rightarrow> Watcher \<Rightarrow> Header \<Rightarrow> MetaTransactionRequest \<Rightarrow> tick_result prog" where
  "send_request B E w head sendTx = CallPendingNonceAt (senderAddress w) (\<lambda>res.
     case res of
       Inl err \<Rightarrow> fail (ErrWrap ''failed to retrieve nonce'' err)
     | Inr nonce \<Rightarrow> CallSuggestGasPrice (\<lambda>res.
         case res of
           Inl err \<Rightarrow> fail (ErrWrap ''failed to retrieve gas price estimate'' err)
         | Inr suggested \<Rightarrow>
             (let gasPrice = 2 * suggested;
                  callMsg = call_msg E w sendTx gasPrice
              in CallEstimateGas callMsg (\<lambda>res.
                case res of
                  Inl err \<Rightarrow> estimate_failed B E sendTx err
                | Inr gasLimit \<Rightarrow>
                    sign_tx E w (legacy_tx nonce gasPrice (2 * gasLimit) callMsg) (\<lambda>signedTx.
                      CallSendTransaction signedTx (\<lambda>err.
                        case err of
                          Some err \<Rightarrow> fail (ErrWrap ''failed to submit transaction'' err)
                        | None \<Rightarrow>
                            Update B (submitted E head nonce gasPrice signedTx sendTx)
                              (Whitelist (lib B) submit_columns) (\<lambda>res sendTx.
                                case res of
                                  Inl err \<Rightarrow> fail err
                                | Inr n \<Rightarrow>
                                    CallProducer (Submitted \<lparr>SubmittedMsg_ID = ID sendTx,
                                      SubmittedMsg_Hash = TxHash E signedTx\<rparr>) ok)))))))"

definition submit_next ::
  "boil_env \<Rightarrow> eth_lib \<Rightarrow> Watcher \<Rightarrow> tick_result prog" where
  "submit_next B E w =
     CallSetGauge (SubmittedTxBlockAge (Itoa (walletIndex w))) (FLit 0)
       (One B (next_request w) (\<lambda>res.
         case res of
           Inl err \<Rightarrow> if err = ErrNoRows then ok else fail err
         | Inr sendTx \<Rightarrow> CallHeaderByNumber (\<lambda>res.
             case res of
               Inl err \<Rightarrow> fail (ErrWrap ''failed to retrieve latest block'' err)
             | Inr head \<Rightarrow> CallSetGauge LatestBlock (OfBig (Number head))
                 (send_request B E w head sendTx))))"

section \<open>The transaction is included\<close>

definition mined_at ::
  "eth_lib \<Rightarrow> Receipt \<Rightarrow> MetaTransactionRequest \<Rightarrow> MetaTransactionRequest" where
  "mined_at E rec activeTx =
     activeTx\<lparr>MinedBlockNumber := Some (BlockNumber rec),
       MinedBlockHash := Some (HashBytes E (BlockHash rec))\<rparr>"

text \<open>The bytes of a null column are nil.\<close>

definition null_bytes :: "bytes option \<Rightarrow> bytes" where
  "null_bytes x = (case x of None \<Rightarrow> [] | Some b \<Rightarrow> b)"

definition confirmed_msg ::
  "eth_lib \<Rightarrow> Receipt \<Rightarrow> MetaTransactionRequest \<Rightarrow> ConfirmedMsg" where
  "confirmed_msg E rec activeTx =
     \<lparr>ConfirmedMsg_ID = ID activeTx,
      ConfirmedMsg_Hash = BytesToHash E (null_bytes (Hash activeTx)),
      ConfirmedMsg_Logs = map (\<lambda>l. \<lparr>Address = Address l, Topics = Topics l, LogData = LogData l\<rparr>) (Logs rec),
      ConfirmedMsg_Successful = (ReceiptStatus rec = 1)\<rparr>"

definition record_mined ::
  "boil_env \<Rightarrow> eth_lib \<Rightarrow> Receipt \<Rightarrow> MetaTransactionRequest \<Rightarrow> tick_result prog" where
  "record_mined B E rec activeTx =
     Update B (mined_at E rec activeTx) (Whitelist (lib B) mined_columns) (\<lambda>res activeTx.
       case res of Inl err \<Rightarrow> fail err | Inr n \<Rightarrow> ok)"

definition included ::
  "boil_env \<Rightarrow> eth_lib \<Rightarrow> Watcher \<Rightarrow> int \<Rightarrow> Receipt \<Rightarrow> MetaTransactionRequest \<Rightarrow> tick_result prog" where
  "included B E w headNum rec activeTx =
     (if MinedBlockNumber activeTx = None
      then CallProducer (Mined \<lparr>MinedMsg_ID = ID activeTx,
               MinedMsg_Hash = BytesToHash E (null_bytes (Hash activeTx))\<rparr>)
             (record_mined B E rec activeTx)
      else if headNum - BlockNumber rec \<ge> confirmationBlocks w
      then CallProducer (Confirmed (confirmed_msg E rec activeTx))
             (Delete B activeTx (\<lambda>res.
               case res of Inl err \<Rightarrow> fail err | Inr n \<Rightarrow> submit_next B E w))
      else if BlockHash rec \<noteq> BytesToHash E (null_bytes (MinedBlockHash activeTx))
      then record_mined B E rec activeTx
      else ok)"

section \<open>One tick\<close>

definition active_request :: "Watcher \<Rightarrow> query_mod list" where
  "active_request w =
     [whereHelpertypes_NullDecimal_IsNotNull Col_submitted_block_number,
      whereHelperint Col_wallet_index EQ (walletIndex w)]"

definition tick_active ::
  "boil_env \<Rightarrow> eth_lib \<Rightarrow> Watcher \<Rightarrow> MetaTransactionRequest \<Rightarrow> tick_result prog" where
  "tick_active B E w activeTx =
     (case SubmittedBlockNumber activeTx of
        None \<Rightarrow> panic
      | Some subBlockNum \<Rightarrow> CallHeaderByNumber (\<lambda>res.
          case res of
            Inl err \<Rightarrow> fail (ErrWrap ''failed to retrieve latest block'' err)
          | Inr head \<Rightarrow>
              CallSetGauge LatestBlock (OfBig (Number head))
              (CallSetGauge (SubmittedTxBlockAge (Itoa (walletIndex w)))
                (FSub (OfBig (Number head)) (OfBig subBlockNum))
                (CallTransactionReceipt (BytesToHash E (null_bytes (Hash activeTx))) (\<lambda>res.
                  case res of
                    Inl err \<Rightarrow>
                      if err \<noteq> ErrNotFound
                      then fail (ErrWrap ''error retrieving transaction receipt'' err)
                      else not_included B E w (Number head) activeTx
                  | Inr rec \<Rightarrow> included B E w (Number head) rec activeTx)))))"

definition Tick :: "boil_env \<Rightarrow> eth_lib \<Rightarrow> Watcher \<Rightarrow> tick_result prog" where
  "Tick B E w = One B (active_request w) (\<lambda>res.
     case res of
       Inl err \<Rightarrow> if err \<noteq> ErrNoRows then fail err else submit_next B E w
     | Inr activeTx \<Rightarrow> tick_active B E w activeTx)"

end
