(* ===== verification/Tick_Safety.thy ===== *)
theory Tick_Safety
  imports Ticker
begin

text \<open>
  What a tick does to the table, whatever the node, the signer and the database answer: a
  monitor follows what the watcher knows about its wallet (nothing, that no row of it is
  submitted, or which row is) and which rows it has seen, and checks every statement against it.
  \<open>Tick_safe\<close> is the one walk through the program; the invariant of the table and the
  preservation lemmas below turn it into the safety theorems, for a watcher alone and, in
  System, for all watchers together.
\<close>

declare One_nat_def [simp del]

section \<open>The invariant of the table\<close>

text \<open>
  A submitted row has everything a later tick dereferences; a row that is not submitted has
  neither been mined nor boosted.
\<close>

definition row_wf :: "MetaTransactionRequest \<Rightarrow> bool" where
  "row_wf r \<longleftrightarrow>
     (active r \<longrightarrow> Nonce r \<noteq> None \<and> GasPrice r \<noteq> None \<and> Hash r \<noteq> None \<and>
        SubmittedBlockHash r \<noteq> None) \<and>
     (\<not> active r \<longrightarrow> MinedBlockNumber r = None \<and> BoostedBlockNumber r = None)"

text \<open>At most one submitted row per wallet: the comment at the head of \<open>Tick\<close>.\<close>

definition table_inv :: "table \<Rightarrow> bool" where
  "table_inv T \<longleftrightarrow> table_ok T \<and> (\<forall>r \<in> set T. row_wf r) \<and>
     at_most_one WalletIndex active (rows_by_id T)"

lemma table_inv_Nil [simp]: "table_inv []"
  by (simp add: table_inv_def at_most_one_def)

lemma table_inv_row:
  "table_inv T \<Longrightarrow> rows_by_id T i = Some r \<Longrightarrow> row_wf r \<and> length (ID r) = 27 \<and> ID r = i"
  using rows_by_id_ID [of T i r] by (auto simp: table_inv_def table_ok_def)

lemma table_inv_unique:
  "table_inv T \<Longrightarrow> r \<in> set T \<Longrightarrow> r' \<in> set T \<Longrightarrow> active r \<Longrightarrow> active r' \<Longrightarrow>
   WalletIndex r = WalletIndex r' \<Longrightarrow> r = r'"
  unfolding table_inv_def at_most_one_def table_ok_def
  by (metis rows_by_id_mem option.inject)

section \<open>The monitor of a watcher\<close>

datatype knowledge = Unknown | Idle | Active string

type_synonym view = "knowledge \<times> string set"

definition notnulled :: "(col \<times> sql_value) list \<Rightarrow> col \<Rightarrow> bool" where
  "notnulled vs c \<longleftrightarrow> map_of vs c \<noteq> Some VNull"

definition given :: "(col \<times> sql_value) list \<Rightarrow> col \<Rightarrow> bool" where
  "given vs c \<longleftrightarrow> map_of vs c \<noteq> None \<and> map_of vs c \<noteq> Some VNull"

text \<open>The mandatory columns of a submitted row, besides the block number.\<close>

definition submit_data :: "col list" where
  "submit_data = [Col_nonce, Col_gas_price, Col_hash, Col_submitted_block_hash]"

text \<open>
  The statements a watcher may send: an UPDATE of one row it has seen, which either marks it
  submitted (and the wallet has no submitted row) or concerns the submitted row and takes none
  of its data away; a DELETE of one row it has seen.
\<close>

definition update_allowed :: "view \<Rightarrow> (col \<times> sql_value) list \<Rightarrow> string \<Rightarrow> bool" where
  "update_allowed q vs x \<longleftrightarrow>
     length x = 27 \<and> x \<in> snd q \<and> distinct (map fst vs) \<and>
     map_of vs Col_id = None \<and> map_of vs Col_wallet_index = None \<and>
     (if map_of vs Col_submitted_block_number = None
      then fst q = Active x \<and> list_all (notnulled vs) submit_data
      else fst q = Idle \<and> given vs Col_submitted_block_number \<and> list_all (given vs) submit_data \<and>
        map_of vs Col_mined_block_number = None)"

fun watch_guar :: "view \<Rightarrow> event \<Rightarrow> bool" where
  "watch_guar q (Exec (UPDATE vs ids) res) = (\<exists>x. ids = [x] \<and> update_allowed q vs x)"
| "watch_guar q (Exec (DELETE ids) res) = (\<exists>x. ids = [x] \<and> length x = 27 \<and> x \<in> snd q)"
| "watch_guar q (Exec (INSERT vs act ret) res) = False"
| "watch_guar q (Exec (UPDATE_WHERE vs ms) res) = False"
| "watch_guar q (Exec (DELETE_WHERE ms) res) = False"
| "watch_guar q ev = True"

text \<open>The answers a watcher of wallet \<open>i\<close> can rely on.\<close>

fun watch_rely :: "(string \<Rightarrow> string \<Rightarrow> bool) \<Rightarrow> int \<Rightarrow> view \<Rightarrow> event \<Rightarrow> bool" where
  "watch_rely le i q (Query ms (Inr rows)) =
     ((\<forall>r \<in> set rows. matches le ms r \<and> row_wf r \<and> length (ID r) = 27 \<and>
        (fst q = Idle \<and> WalletIndex r = i \<longrightarrow> \<not> active r)) \<and>
      (limit_of ms = Some 1 \<longrightarrow> length rows \<le> 1))"
| "watch_rely le i q (Query ms (Inl err)) = (\<not> errors_Is err ErrNoRows)"
| "watch_rely le i q ev = True"

text \<open>The query that tells whether the wallet has a submitted row.\<close>

definition asks_active :: "int \<Rightarrow> query_mod list" where
  "asks_active i =
     MetaTransactionRequests
       [WhereIsNotNull Col_submitted_block_number, Where Col_wallet_index EQ (VInt i)] @ [Limit 1]"

definition seen :: "int \<Rightarrow> MetaTransactionRequest list \<Rightarrow> string set" where
  "seen i rows = ID ` {r \<in> set rows. WalletIndex r = i}"

definition learn :: "int \<Rightarrow> query_mod list \<Rightarrow> MetaTransactionRequest list \<Rightarrow> knowledge \<Rightarrow> knowledge" where
  "learn i ms rows kn =
     (if ms = asks_active i
      then (case rows of [] \<Rightarrow> Idle | r # rs \<Rightarrow> Active (ID r)) else kn)"

fun watch_next :: "int \<Rightarrow> view \<Rightarrow> event \<Rightarrow> view" where
  "watch_next i (kn, K) (Query ms (Inr rows)) = (learn i ms rows kn, K \<union> seen i rows)"
| "watch_next i (kn, K) (Exec (UPDATE vs ids) res) =
     (if map_of vs Col_submitted_block_number = None then kn
      else (case res of Inr r \<Rightarrow> Active (hd ids) | Inl e \<Rightarrow> Unknown), K)"
| "watch_next i (kn, K) (Exec (DELETE ids) res) =
     (if kn = Active (hd ids) then (case res of Inr r \<Rightarrow> Idle | Inl e \<Rightarrow> Unknown) else kn,
      K - {hd ids})"
| "watch_next i q ev = q"

definition no_panic :: "view \<Rightarrow> 'a outcome \<Rightarrow> bool" where
  "no_panic q r \<longleftrightarrow> \<not> panicked r"

interpretation watch: monitor "watch_rely le i" watch_guar "watch_next i" no_panic for le i .

section \<open>The walk through the program\<close>

lemmas column_defs = boost_columns_def mined_columns_def submit_columns_def

lemma no_panic_Returned [simp]: "no_panic q (Returned x)"
  by (simp add: no_panic_def)

lemmas monitor_simps = watch.admits_def update_allowed_def submit_data_def notnulled_def given_def

lemma estimate_failed_safe:
  assumes "plain B" and "length (ID r) = 27" and "ID r \<in> K"
  shows "watch.safe le i (estimate_failed B E r err) (kn, K)"
  using assms by (cases err) (auto simp: estimate_failed_def orm_simps watch.admits_def split: sum.split)

lemma sign_tx_safe:
  assumes "\<And>st. watch.safe le i (k st) q"
  shows "watch.safe le i (sign_tx E w txd k) q"
  using assms by (cases q) (auto simp: sign_tx_def watch.admits_def split: sum.split)

lemma send_request_safe:
  assumes "plain B" and "length (ID r) = 27" and "ID r \<in> K" and "WalletIndex r = i"
  shows "watch.safe le i (send_request B E w head r) (Idle, K)"
proof -
  have upd: "watch.safe le i (Update B (submitted E head n g st r) (Whitelist (lib B) submit_columns)
      (\<lambda>res r'. case res of Inl err \<Rightarrow> fail err
        | Inr m \<Rightarrow> CallProducer (Submitted \<lparr>SubmittedMsg_ID = ID r', SubmittedMsg_Hash = TxHash E st\<rparr>) ok))
      (Idle, K)" for n g st
  proof -
    have ne: "submit_columns \<noteq> []" by (simp add: submit_columns_def)
    show ?thesis
      unfolding Update_plain [OF assms(1) ne] using assms
      by (auto simp: monitor_simps submit_columns_def submitted_def split: sum.split)
  qed
  show ?thesis
    unfolding send_request_def Let_def
    using assms(1-3)
    by (auto simp: watch.admits_def intro!: estimate_failed_safe sign_tx_safe upd
        split: sum.split option.split)
qed

lemma submit_next_safe:
  assumes "plain B" and "i = walletIndex w"
  shows "watch.safe le i (submit_next B E w) (Idle, K)"
proof -
  have run: "watch.safe le i (send_request B E w head r) (Idle, K \<union> seen i (r # rs))"
    if "length (ID r) = 27" "WalletIndex r = i" for head r rs
    using assms(1) that by (intro send_request_safe) (auto simp: seen_def)
  have neq: "MetaTransactionRequests (next_request w) @ [Limit 1] \<noteq> asks_active i"
    by (simp add: next_request_def asks_active_def MetaTransactionRequests_eq where_helper_defs)
  have wal: "WalletIndex r = i" if "matches le (MetaTransactionRequests (next_request w) @ [Limit 1]) r" for r
    using that assms(2)
    by (simp add: matches_def MetaTransactionRequests_eq where_helper_defs next_request_def where_helper_defs)
  show ?thesis
    unfolding submit_next_def One_plain [OF assms(1)]
    by (auto simp: watch.admits_def learn_def neq wal intro!: run split: sum.split list.split)
qed

text \<open>The row of the wallet that is submitted, as the walk carries it.\<close>

definition held :: "MetaTransactionRequest \<Rightarrow> view \<Rightarrow> bool" where
  "held r q \<longleftrightarrow> fst q = Active (ID r) \<and> ID r \<in> snd q \<and> length (ID r) = 27 \<and>
     active r \<and> Nonce r \<noteq> None \<and> GasPrice r \<noteq> None \<and> Hash r \<noteq> None"

lemma Update_held_safe:
  assumes "plain B" and "held r q" and "ID r' = ID r"
    and "cs \<noteq> []" "distinct cs" "Col_id \<notin> set cs" "Col_wallet_index \<notin> set cs"
    and "Col_submitted_block_number \<notin> set cs" "Col_submitted_block_hash \<notin> set cs"
    and "Nonce r' \<noteq> None" "GasPrice r' \<noteq> None" "Hash r' \<noteq> None"
    and "\<And>res t. watch.safe le i (k res (stamp_update t r')) q"
  shows "watch.safe le i (Update B r' (Whitelist (lib B) cs) k) q"
proof -
  obtain kn K where q: "q = (kn, K)" by force
  have vals: "field_value c (stamp_update t r') \<noteq> VNull"
    if "c \<in> {Col_nonce, Col_gas_price, Col_hash}" for c t
    using that assms(10-12) by auto
  show ?thesis
    unfolding Update_plain [OF assms(1,4)] using assms vals
    by (auto simp: q monitor_simps held_def split: sum.split)
qed

lemma boost_safe:
  assumes "plain B" and "held r q"
  shows "watch.safe le i (boost B E w headNum r) q"
proof -
  obtain K where q: "q = (Active (ID r), K)" and K: "ID r \<in> K" "length (ID r) = 27"
    using assms(2) by (cases q) (auto simp: held_def)
  from assms(2) obtain g n where gn: "GasPrice r = Some g" "Nonce r = Some n"
    by (auto simp: held_def)
  have upd: "watch.safe le i (Update B (boosted E headNum m p st r) (Whitelist (lib B) boost_columns)
      (\<lambda>res r'. case res of Inl err \<Rightarrow> fail err
        | Inr n \<Rightarrow> CallSendTransaction st (\<lambda>err. Ret (Returned err)))) q" for m p st
    by (rule Update_held_safe [OF assms])
      (auto simp: boosted_def boost_columns_def watch.admits_def split: sum.split)
  show ?thesis
    unfolding boost_def Let_def gn using assms(1) K upd
    by (auto simp: q watch.admits_def intro!: estimate_failed_safe sign_tx_safe split: sum.split)
qed

lemma maybe_boost_safe:
  assumes "plain B" and "held r q"
  shows "watch.safe le i (maybe_boost B E w headNum r) q"
proof -
  from assms(2) have "SubmittedBlockNumber r \<noteq> None" by (simp add: held_def active_def)
  then show ?thesis
    using boost_safe [OF assms] by (auto simp: maybe_boost_def last_send_def split: option.split)
qed

lemma held_upd:
  "held r q \<Longrightarrow> held (r\<lparr>MinedBlockNumber := x, MinedBlockHash := y\<rparr>) q"
  "held r q \<Longrightarrow> held (stamp_update t r) q"
  by (auto simp: held_def active_def)

lemma not_included_safe:
  assumes "plain B" and "held r q"
  shows "watch.safe le i (not_included B E w headNum r) q"
proof (cases "MinedBlockNumber r = None")
  case True
  then show ?thesis using maybe_boost_safe [OF assms] by (simp add: not_included_def)
next
  case False
  have "watch.safe le i (Update B (r\<lparr>MinedBlockNumber := None, MinedBlockHash := None\<rparr>)
      (Whitelist (lib B) mined_columns)
      (\<lambda>res r'. case res of Inl err \<Rightarrow> fail err | Inr n \<Rightarrow> maybe_boost B E w headNum r')) q"
    by (rule Update_held_safe [OF assms])
      (use assms in \<open>auto simp: mined_columns_def held_def [of r] intro!: maybe_boost_safe held_upd
        split: sum.split\<close>)
  with False show ?thesis by (simp add: not_included_def)
qed

lemma record_mined_safe:
  assumes "plain B" and "held r q"
  shows "watch.safe le i (record_mined B E rec r) q"
  unfolding record_mined_def
  by (rule Update_held_safe [OF assms])
    (use assms in \<open>auto simp: mined_columns_def mined_at_def held_def split: sum.split\<close>)

lemma included_safe:
  assumes "plain B" and "held r q" and "i = walletIndex w"
  shows "watch.safe le i (included B E w headNum rec r) q"
proof -
  obtain K where q: "q = (Active (ID r), K)" and K: "ID r \<in> K" "length (ID r) = 27"
    using assms(2) by (cases q) (auto simp: held_def)
  show ?thesis
    using record_mined_safe [OF assms(1,2)] K submit_next_safe [OF assms(1,3)]
    by (auto simp: included_def q watch.admits_def Delete_plain [OF assms(1)] split: sum.split)
qed

lemma tick_active_safe:
  assumes "plain B" and "held r q" and "i = walletIndex w"
  shows "watch.safe le i (tick_active B E w r) q"
proof -
  from assms(2) obtain n where "SubmittedBlockNumber r = Some n"
    by (auto simp: held_def active_def)
  then show ?thesis
    using included_safe [OF assms] not_included_safe [OF assms(1,2)]
    by (cases q) (auto simp: tick_active_def watch.admits_def split: sum.split)
qed

theorem Tick_safe:
  assumes "plain B" and i: "i = walletIndex w"
  shows "watch.safe le i (Tick B E w) q"
proof -
  obtain kn K where q: "q = (kn, K)" by force
  have ask: "MetaTransactionRequests (active_request w) @ [Limit 1] = asks_active i"
    by (simp add: active_request_def asks_active_def where_helper_defs i)
  have held: "held r (Active (ID r), K \<union> seen i (r # rs))"
    if "matches le (asks_active i) r" "row_wf r" "length (ID r) = 27" for r rs
    using that
    by (auto simp: held_def asks_active_def matches_def MetaTransactionRequests_eq where_helper_defs row_wf_def
        active_def seen_def)
  show ?thesis
    unfolding Tick_def One_plain [OF assms(1)] ask
    using submit_next_safe [OF assms]
    by (auto simp: q watch.admits_def learn_def intro!: tick_active_safe [OF assms(1) held i]
        split: sum.split list.split)
qed

section \<open>Steps of a watcher keep the invariant\<close>

lemma changed_row_field:
  assumes "changed_row vs r = Some r'" and "distinct (map fst vs)" and "c \<noteq> Col_id"
  shows "field_value c r' = (case map_of vs c of None \<Rightarrow> field_value c r | Some v \<Rightarrow> as_stored v)"
proof (cases "map_of vs c")
  case None
  then have "c \<notin> fst ` set vs" by (simp add: map_of_eq_None_iff)
  with None store_cols_other [of vs r r' c] assms(1) show ?thesis by (simp add: changed_row_Some)
next
  case (Some v)
  then have "(c, v) \<in> set vs" by (rule map_of_SomeD)
  with Some store_cols_same [of vs r r' c v] assms show ?thesis by (simp add: changed_row_Some)
qed

lemma row_fields:
  "active r \<longleftrightarrow> field_value Col_submitted_block_number r \<noteq> VNull"
  "Nonce r \<noteq> None \<longleftrightarrow> field_value Col_nonce r \<noteq> VNull"
  "GasPrice r \<noteq> None \<longleftrightarrow> field_value Col_gas_price r \<noteq> VNull"
  "Hash r \<noteq> None \<longleftrightarrow> field_value Col_hash r \<noteq> VNull"
  "SubmittedBlockHash r \<noteq> None \<longleftrightarrow> field_value Col_submitted_block_hash r \<noteq> VNull"
  by (auto simp: active_def)

text \<open>The change an allowed UPDATE makes to a row.\<close>

lemma update_allowed_row:
  assumes "update_allowed q vs x" and "changed_row vs r = Some r'" and "row_wf r"
    and "fst q = Active x \<longrightarrow> active r"
  shows "WalletIndex r' = WalletIndex r \<and> ID r' = ID r \<and> row_wf r' \<and> active r' \<and>
    (map_of vs Col_submitted_block_number = None \<longrightarrow> active r)"
proof -
  from assms(1) have d: "distinct (map fst vs)" and no: "map_of vs Col_id = None"
    "map_of vs Col_wallet_index = None" by (auto simp: update_allowed_def)
  note f = changed_row_field [OF assms(2) d]
  have "WalletIndex r' = WalletIndex r" using f [of Col_wallet_index] no by simp
  moreover have "ID r' = ID r"
    using assms(2) no store_cols_ID [of vs r r'] by (simp add: changed_row_Some map_of_eq_None_iff)
  moreover have "active r' \<and> (map_of vs Col_submitted_block_number = None \<longrightarrow> active r)"
    using f [of Col_submitted_block_number] assms(1,4)
    by (auto simp: update_allowed_def given_def row_fields split: if_splits)
  moreover have "row_wf r'"
  proof -
    have v: "field_value c r' \<noteq> VNull" if "c \<in> set submit_data" for c
      using that f [of c] assms(1,3,4)
      by (auto simp: update_allowed_def given_def notnulled_def submit_data_def row_wf_def row_fields
          split: if_splits option.splits)
    have "Nonce r' \<noteq> None \<and> GasPrice r' \<noteq> None \<and> Hash r' \<noteq> None \<and> SubmittedBlockHash r' \<noteq> None"
      using v [of Col_nonce] v [of Col_gas_price] v [of Col_hash] v [of Col_submitted_block_hash]
      unfolding row_fields by (simp add: submit_data_def)
    with \<open>active r' \<and> _\<close> show ?thesis by (simp add: row_wf_def)
  qed
  ultimately show ?thesis by blast
qed

text \<open>
  What a watcher knows is true of the table. \<open>R\<close> are the ids of rows that someone else has removed
  for good: the watcher may still believe in such a row, and its statements about it do nothing.
  When the submitted row is gone, the wallet has none.
\<close>

definition sound :: "string set \<Rightarrow> int \<Rightarrow> view \<Rightarrow> table \<Rightarrow> bool" where
  "sound R i q T \<longleftrightarrow>
     (\<forall>x \<in> R. rows_by_id T x = None) \<and>
     (\<forall>x \<in> snd q. x \<in> R \<or> (\<exists>r. rows_by_id T x = Some r \<and> WalletIndex r = i)) \<and>
     (case fst q of
        Unknown \<Rightarrow> True
      | Idle \<Rightarrow> idle WalletIndex active i (rows_by_id T)
      | Active x \<Rightarrow>
          if x \<in> R then idle WalletIndex active i (rows_by_id T)
          else \<exists>r. rows_by_id T x = Some r \<and> WalletIndex r = i \<and> active r)"

lemma sound_start [simp]: "sound {} i (Unknown, {}) T"
  by (simp add: sound_def)

lemma table_inv_rows_of:
  assumes "table_inv T" and "r \<in> set T"
  shows "rows_by_id T (ID r) = Some r" "row_wf r" "length (ID r) = 27"
  using assms by (auto simp: table_inv_def table_ok_def rows_by_id_mem)

text \<open>The database answers as the monitor relies on.\<close>

lemma db_event_rely:
  assumes "table_inv T" and "sound R i q T" and "db_event le now ev T T'"
  shows "watch_rely le i q ev"
proof (cases "\<exists>ms rows. ev = Query ms (Inr rows)")
  case True
  then obtain ms rows where ev: "ev = Query ms (Inr rows)" by blast
  with assms(3) have ans: "answers le ms T rows" by simp
  have "matches le ms r \<and> row_wf r \<and> length (ID r) = 27 \<and>
      (fst q = Idle \<and> WalletIndex r = i \<longrightarrow> \<not> active r)" if "r \<in> set rows" for r
    using answers_mem [OF ans that] table_inv_rows_of [OF assms(1), of r] assms(2)
    by (auto simp: sound_def idle_def)
  with ev answers_one [OF ans] show ?thesis by auto
next
  case False
  then show ?thesis using assms(3) by (cases "(le, i, q, ev)" rule: watch_rely.cases) auto
qed

text \<open>Only rows of the watcher's own wallet are touched.\<close>

definition touches_only :: "int \<Rightarrow> table \<Rightarrow> table \<Rightarrow> bool" where
  "touches_only j T T' \<longleftrightarrow>
     (\<forall>k. rows_by_id T' k \<noteq> rows_by_id T k \<longrightarrow>
        (\<exists>r. rows_by_id T k = Some r \<and> WalletIndex r = j) \<and>
        (\<forall>r'. rows_by_id T' k = Some r' \<longrightarrow> WalletIndex r' = j))"

lemma touches_only_refl [simp]: "touches_only j T T"
  by (simp add: touches_only_def)

lemma same_rows_inv:
  assumes "table_inv T" and "table_ok T'" and "rows_by_id T' = rows_by_id T"
  shows "table_inv T'"
proof -
  have "row_wf r" if "r \<in> set T'" for r
  proof -
    from that assms(2) have "rows_by_id T (ID r) = Some r"
      by (simp add: assms(3) [symmetric] rows_by_id_mem table_ok_unique)
    from table_inv_row [OF assms(1) this] show ?thesis by simp
  qed
  with assms show ?thesis by (simp add: table_inv_def)
qed

lemma update_step_present:
  assumes inv: "table_inv T" and snd: "sound R i q T" and here: "x \<notin> R" and ok: "update_allowed q vs x"
    and run: "run_UPDATE vs [x] T = Some (res, T')"
  shows "\<exists>r r'. rows_by_id T x = Some r \<and> WalletIndex r = i \<and> changed_row vs r = Some r' \<and>
    rows_by_id T' = (rows_by_id T)(x \<mapsto> r') \<and> WalletIndex r' = i \<and> active r' \<and>
    (map_of vs Col_submitted_block_number = None \<longrightarrow> active r) \<and> table_inv T'"
proof -
  from inv have tok: "table_ok T" by (simp add: table_inv_def)
  from ok have len: "length x = 27" and xK: "x \<in> snd q" and noid: "Col_id \<notin> fst ` set vs"
    by (auto simp: update_allowed_def map_of_eq_None_iff)
  from snd xK here obtain r where r: "rows_by_id T x = Some r" "WalletIndex r = i"
    by (auto simp: sound_def)
  from run_UPDATE_rows [OF tok len noid run] r(1) obtain r' where
    r': "changed_row vs r = Some r'" "rows_by_id T' = (rows_by_id T)(x \<mapsto> r')" by auto
  have wf: "row_wf r" and act: "fst q = Active x \<longrightarrow> active r"
    using table_inv_row [OF inv r(1)] snd r(1) here by (auto simp: sound_def)
  note row = update_allowed_row [OF ok r'(1) wf act]
  have tok': "table_ok T'" by (rule run_UPDATE_ok [OF tok run])
  from ok have d: "distinct (map fst vs)" by (simp add: update_allowed_def)
  have "row_wf s" if "s \<in> set T'" for s
  proof -
    from that tok' have s: "rows_by_id T' (ID s) = Some s"
      by (simp add: rows_by_id_mem table_ok_unique)
    show ?thesis
    proof (cases "ID s = x")
      case True
      with s r'(2) row show ?thesis by simp
    next
      case False
      with s r'(2) have "rows_by_id T (ID s) = Some s" by simp
      from table_inv_row [OF inv this] show ?thesis by simp
    qed
  qed
  moreover have "at_most_one WalletIndex active (rows_by_id T')"
  proof -
    have own: "WalletIndex v = WalletIndex u" if "changed_row vs u = Some v" for u v
      using changed_row_field [OF that d, of Col_wallet_index] ok by (simp add: update_allowed_def)
    have one: "at_most_one WalletIndex active (rows_by_id T)" using inv by (simp add: table_inv_def)
    show ?thesis
    proof (cases "map_of vs Col_submitted_block_number = None")
      case True
      let ?R = "\<lambda>u v. WalletIndex v = WalletIndex u \<and> (active v \<longrightarrow> active u)"
      have "active v \<longrightarrow> active u" if "changed_row vs u = Some v" for u v
        using changed_row_field [OF that d, of Col_submitted_block_number] True
        by (simp add: row_fields(1))
      with own have "sql_changes x ?R T T'"
        unfolding sql_changes_def using len noid run by blast
      then show ?thesis by (rule requests.changes_at_most_one [OF tok _ _ one]) simp
    next
      case False
      with ok have "fst q = Idle" by (auto simp: update_allowed_def)
      with snd have idle: "idle WalletIndex active i (rows_by_id T)" by (simp add: sound_def)
      have "sql_changes x (\<lambda>u v. WalletIndex v = WalletIndex u) T T'"
        unfolding sql_changes_def using len noid run own by blast
      then show ?thesis
        by (rule requests.activates_at_most_one [OF tok _ _ _ one]) (simp_all add: r idle)
    qed
  qed
  ultimately have "table_inv T'" using tok' by (simp add: table_inv_def)
  with r r' row show ?thesis by (intro exI [of _ r] exI [of _ r']) simp
qed

lemma update_step_gone:
  assumes inv: "table_inv T" and snd: "sound R i q T" and gone: "x \<in> R"
    and ok: "update_allowed q vs x" and run: "run_UPDATE vs [x] T = Some (res, T')"
  shows "rows_by_id T' = rows_by_id T \<and> table_inv T'"
proof -
  from inv have tok: "table_ok T" by (simp add: table_inv_def)
  from ok have len: "length x = 27" and noid: "Col_id \<notin> fst ` set vs"
    by (auto simp: update_allowed_def map_of_eq_None_iff)
  from snd gone have "rows_by_id T x = None" by (simp add: sound_def)
  with run_UPDATE_rows [OF tok len noid run] have rows: "rows_by_id T' = rows_by_id T" by simp
  with same_rows_inv [OF inv run_UPDATE_ok [OF tok run]] show ?thesis by blast
qed

text \<open>An UPDATE of a watcher changes one row of its wallet as allowed, or nothing.\<close>

lemma update_step:
  assumes "table_inv T" and "sound R i q T" and "update_allowed q vs x"
    and "run_UPDATE vs [x] T = Some (res, T')"
  shows "table_inv T' \<and>
    ((x \<in> R \<and> rows_by_id T' = rows_by_id T) \<or>
     (\<exists>r r'. rows_by_id T x = Some r \<and> WalletIndex r = i \<and> changed_row vs r = Some r' \<and>
        rows_by_id T' = (rows_by_id T)(x \<mapsto> r') \<and> WalletIndex r' = i \<and> active r' \<and>
        (map_of vs Col_submitted_block_number = None \<longrightarrow> active r)))"
proof (cases "x \<in> R")
  case True
  from update_step_gone [OF assms(1,2) True assms(3,4)] True show ?thesis by blast
next
  case False
  from update_step_present [OF assms(1,2) False assms(3,4)] show ?thesis
    by (elim exE conjE) (intro conjI disjI2 exI, assumption+)
qed

end
