(* ===== verification/Tick_Invariant.thy ===== *)
theory Tick_Invariant
  imports Tick_Safety
begin

text \<open>
  The step lemmas of the table invariant: what a watcher's statement does to it and to what the
  watcher knows, what the statements of others do to what it knows, and the theorems about one
  watcher that is alone on the table. System puts several programs together with the same lemmas.
\<close>

declare One_nat_def [simp del]

section \<open>A watcher's own statements\<close>

lemma idle_update:
  assumes "idle own act w m" and "m x = Some r" and "own r' = own r" and "act r' \<longrightarrow> act r"
  shows "idle own act w (m(x \<mapsto> r'))"
  using assms by (auto simp: idle_def)

lemma sound_K:
  "sound R i (kn, K) T \<Longrightarrow> x \<in> K \<Longrightarrow> x \<in> R \<or> (\<exists>r. rows_by_id T x = Some r \<and> WalletIndex r = i)"
  by (auto simp: sound_def)

lemma sound_same_rows:
  assumes "sound R i q T" and eq: "rows_by_id T' = rows_by_id T"
  shows "sound R i q T'"
  using assms(1) unfolding sound_def eq .

lemma update_watch_step:
  assumes inv: "table_inv T" and snd: "sound R i q T" and ok: "update_allowed q vs x"
    and run: "run_UPDATE vs [x] T = Some (res, T')"
  shows "table_inv T' \<and> touches_only i T T' \<and>
    sound R i (if map_of vs Col_submitted_block_number = None then fst q else Active x, snd q) T'"
proof -
  have kn: "fst q = Active x" if "map_of vs Col_submitted_block_number = None"
    using ok that by (simp add: update_allowed_def)
  from update_step [OF assms] have inv': "table_inv T'" by blast
  from update_step [OF assms] consider
    (gone) "x \<in> R" "rows_by_id T' = rows_by_id T"
  | (here) r r' where "rows_by_id T x = Some r" "WalletIndex r = i"
      "rows_by_id T' = (rows_by_id T)(x \<mapsto> r')" "WalletIndex r' = i" "active r'" by blast
  then show ?thesis
  proof cases
    case gone
    have "fst q = Idle" if "map_of vs Col_submitted_block_number \<noteq> None"
      using ok that by (auto simp: update_allowed_def)
    with sound_same_rows [OF snd gone(2)] inv' kn gone show ?thesis
      by (auto simp: touches_only_def sound_def)
  next
    case here
    from snd here(1) have "x \<notin> R" by (auto simp: sound_def)
    with here snd have "\<forall>y \<in> R. rows_by_id T' y = None" by (auto simp: sound_def)
    moreover have "y \<in> R \<or> (\<exists>s. rows_by_id T' y = Some s \<and> WalletIndex s = i)" if "y \<in> snd q" for y
      using snd that here by (auto simp: sound_def)
    moreover have "\<exists>s. rows_by_id T' x = Some s \<and> WalletIndex s = i \<and> active s"
      using here by simp
    moreover have "touches_only i T T'" using here by (simp add: touches_only_def)
    ultimately show ?thesis using inv' kn \<open>x \<notin> R\<close> by (simp add: sound_def)
  qed
qed

lemma delete_step:
  assumes inv: "table_inv T" and len: "length x = 27"
    and run: "run_DELETE [x] T = Some (res, T')"
  shows "rows_by_id T' = (rows_by_id T)(x := None) \<and> table_inv T'"
proof -
  from inv have tok: "table_ok T" by (simp add: table_inv_def)
  have rm: "sql_removes x T T'" using len run by (auto simp: sql_removes_def)
  from run_DELETE_rows [OF tok len run] have rows: "rows_by_id T' = (rows_by_id T)(x := None)" .
  have "at_most_one WalletIndex active (rows_by_id T')"
    by (rule requests.removes_at_most_one [OF tok rm]) (use inv in \<open>simp add: table_inv_def\<close>)
  moreover have "set T' \<subseteq> set T" using run by (auto simp: run_DELETE_def)
  ultimately show ?thesis
    using rows inv run_DELETE_ok [OF tok run] by (auto simp: table_inv_def)
qed

lemma delete_watch_step:
  assumes inv: "table_inv T" and snd: "sound R i (kn, K) T" and x: "length x = 27" "x \<in> K"
    and run: "run_DELETE [x] T = Some (res, T')"
  shows "table_inv T' \<and> touches_only i T T' \<and>
    sound R i (if kn = Active x then Idle else kn, K - {x}) T'"
proof -
  note step = delete_step [OF inv x(1) run]
  from snd step have gone: "\<forall>y \<in> R. rows_by_id T' y = None" by (simp add: sound_def)
  have own: "WalletIndex r = i" if "rows_by_id T x = Some r" for r
    using sound_K [OF snd x(2)] snd that by (auto simp: sound_def)
  with step have "touches_only i T T'" by (cases "rows_by_id T x") (auto simp: touches_only_def)
  moreover have K: "y \<in> R \<or> (\<exists>s. rows_by_id T' y = Some s \<and> WalletIndex s = i)" if "y \<in> K - {x}" for y
    using snd step that by (auto simp: sound_def)
  moreover have idle: "idle WalletIndex active i (rows_by_id T')" if "idle WalletIndex active i (rows_by_id T)"
    using that step by (auto simp: idle_def split: if_splits)
  have "sound R i (if kn = Active x then Idle else kn, K - {x}) T'"
  proof (cases "kn = Active x")
    case True
    have "idle WalletIndex active i (rows_by_id T')"
    proof (cases "x \<in> R")
      case False
      with snd True obtain r where r: "rows_by_id T x = Some r" "WalletIndex r = i" "active r"
        by (auto simp: sound_def)
      have tok: "table_ok T" and one: "at_most_one WalletIndex active (rows_by_id T)"
        using inv by (simp_all add: table_inv_def)
      have "sql_removes x T T'" using x(1) run by (auto simp: sql_removes_def)
      from requests.removes_idle [OF tok this one r(1,3,2)] show ?thesis .
    next
      case gone: True
      with snd True idle show ?thesis by (simp add: sound_def)
    qed
    with True K gone show ?thesis by (simp add: sound_def)
  next
    case False
    have "rows_by_id T' y = Some s" if "kn = Active y" "rows_by_id T y = Some s" for y s
      using step False that by simp
    with False K gone idle snd show ?thesis
      by (auto simp: sound_def split: knowledge.splits)
  qed
  ultimately show ?thesis using step by blast
qed

lemma sound_weaken: "sound R i (kn, K) T \<Longrightarrow> K' \<subseteq> K \<Longrightarrow> sound R i (Unknown, K') T"
  "sound R i (kn, K) T \<Longrightarrow> K' \<subseteq> K \<Longrightarrow> sound R i (kn, K') T"
  by (auto simp: sound_def)

text \<open>What a watcher learns from an answer is true.\<close>

lemma query_watch_step:
  assumes inv: "table_inv T" and snd: "sound R i (kn, K) T" and ans: "answers le ms T rows"
  shows "sound R i (learn i ms rows kn, K \<union> seen i rows) T"
proof -
  have mem: "r \<in> set T \<and> matches le ms r \<and> rows_by_id T (ID r) = Some r" if "r \<in> set rows" for r
    using answers_mem [OF ans that] table_inv_rows_of [OF inv] by blast
  have K: "x \<in> R \<or> (\<exists>r. rows_by_id T x = Some r \<and> WalletIndex r = i)" if "x \<in> K \<union> seen i rows" for x
    using that sound_K [OF snd] mem by (auto simp: seen_def)
  have gone: "\<forall>x \<in> R. rows_by_id T x = None" using snd by (simp add: sound_def)
  have asks: "matches le (asks_active i) r \<longleftrightarrow> active r \<and> WalletIndex r = i" for r
    by (auto simp: asks_active_def matches_def MetaTransactionRequests_eq where_helper_defs active_def)
  show ?thesis
  proof (cases "ms = asks_active i")
    case False
    with snd K show ?thesis by (simp add: sound_def learn_def)
  next
    case True
    show ?thesis
    proof (cases rows)
      case Nil
      have "limit_of ms \<noteq> Some 0"
        by (simp add: True asks_active_def MetaTransactionRequests_eq where_helper_defs One_nat_def)
      then have "\<not> (active r \<and> WalletIndex r = i)" if "r \<in> set T" for r
        using answers_Nil [OF ans [unfolded Nil] _ that] asks True by blast
      then have "idle WalletIndex active i (rows_by_id T)"
        by (auto simp: idle_def dest: rows_by_id_ID)
      with K gone True Nil show ?thesis by (simp add: sound_def learn_def)
    next
      case (Cons r rs)
      with mem [of r] asks True have "rows_by_id T (ID r) = Some r \<and> WalletIndex r = i \<and> active r"
        by auto
      moreover from this gone have "ID r \<notin> R" by auto
      ultimately show ?thesis using K gone True Cons by (simp add: sound_def learn_def)
    qed
  qed
qed

lemma watch_next_silent:
  assumes "\<And>ms rows. ev \<noteq> Query ms (Inr rows)" and "\<And>s r. ev \<noteq> Exec s r"
  shows "watch_next i q ev = q"
  using assms by (cases "(i, q, ev)" rule: watch_next.cases) auto

lemma watch_step:
  assumes inv: "table_inv T" and snd: "sound R i q T" and guar: "watch_guar q ev"
    and db: "db_event le now ev T T'"
  shows "table_inv T' \<and> sound R i (watch_next i q ev) T' \<and> touches_only i T T'"
proof -
  obtain kn K where q: "q = (kn, K)" by force
  consider (query) ms rows where "ev = Query ms (Inr rows)"
    | (upd) vs ids res where "ev = Exec (UPDATE vs ids) res"
    | (del) ids res where "ev = Exec (DELETE ids) res"
    | (never) "\<not> watch_guar q ev"
    | (other) "\<And>ms rows. ev \<noteq> Query ms (Inr rows)" "\<And>s r. ev \<noteq> Exec s r"
  proof (cases "\<exists>s res. ev = Exec s res")
    case True
    then obtain s res where ev: "ev = Exec s res" by blast
    show thesis
    proof (cases s)
      case (UPDATE vs ids)
      with ev upd show thesis by simp
    next
      case (DELETE ids)
      with ev del show thesis by simp
    qed (use ev never in simp_all)
  next
    case False
    with query other show thesis by blast
  qed
  then show ?thesis
  proof cases
    case query
    with db have "answers le ms T rows" "T' = T" by simp_all
    with query_watch_step [OF inv snd [unfolded q]] inv query show ?thesis by (simp add: q)
  next
    case upd
    with guar obtain x where x: "ids = [x]" "update_allowed q vs x" by auto
    consider "T' = T" "\<exists>e. res = Inl e" | r where "run_UPDATE vs [x] T = Some (r, T')"
      using db upd x(1) by (cases res) auto
    then show ?thesis
    proof cases
      case 1
      with inv snd sound_weaken(1) show ?thesis by (auto simp: upd q)
    next
      case 2
      note step = update_watch_step [OF inv snd x(2) this]
      define kn' where "kn' = (if map_of vs Col_submitted_block_number = None then kn else Active x)"
      from step have s: "sound R i (kn', K) T'" by (cases "map_of vs Col_submitted_block_number") (simp_all add: kn'_def q)
      have "watch_next i q ev \<in> {(kn', K), (Unknown, K)}"
        by (cases res) (simp_all add: upd q x(1) kn'_def)
      with s sound_weaken(1) [OF s order_refl] have "sound R i (watch_next i q ev) T'" by auto
      with step show ?thesis by simp
    qed
  next
    case del
    with guar obtain x where x: "ids = [x]" "length x = 27" "x \<in> K" by (auto simp: q)
    consider "T' = T" "\<exists>e. res = Inl e" | r where "run_DELETE [x] T = Some (r, T')"
      using db del x(1) by (cases res) auto
    then show ?thesis
    proof cases
      case 1
      then have "sound R i (watch_next i q ev) T"
        using snd by (auto simp: del q x(1) intro: sound_weaken)
      with 1 inv show ?thesis by simp
    next
      case 2
      note step = delete_watch_step [OF inv snd [unfolded q] x(2,3) 2]
      define kn' where "kn' = (if kn = Active x then Idle else kn)"
      from step have s: "sound R i (kn', K - {x}) T'" by (simp add: kn'_def)
      have "watch_next i q ev \<in> {(kn', K - {x}), (Unknown, K - {x})}"
        by (cases res) (simp_all add: del q x(1) kn'_def)
      with s sound_weaken(1) [OF s order_refl] have "sound R i (watch_next i q ev) T'" by auto
      with step show ?thesis by simp
    qed
  next
    case never
    with guar show ?thesis by simp
  next
    case other
    with db have "T' = T" by (blast intro: db_event_no_exec)
    with inv snd watch_next_silent [OF other] show ?thesis by simp
  qed
qed

section \<open>Statements of others\<close>

lemma touches_stable:
  assumes "touches_only j T T'" and "i \<noteq> j" and "sound R i q T"
  shows "sound R i q T'"
proof -
  have keep: "rows_by_id T' k = Some r" if "rows_by_id T k = Some r" "WalletIndex r = i" for k r
    using assms(1,2) that unfolding touches_only_def by (metis option.inject)
  have old: "rows_by_id T k = Some r" if "rows_by_id T' k = Some r" "WalletIndex r = i" for k r
    using assms(1,2) that unfolding touches_only_def by (metis option.inject)
  have "rows_by_id T' k = None" if "rows_by_id T k = None" for k
    using assms(1) that unfolding touches_only_def by (metis option.distinct(1))
  moreover have "idle WalletIndex active i (rows_by_id T')" if "idle WalletIndex active i (rows_by_id T)"
    using that old unfolding idle_def by blast
  ultimately show ?thesis
    using assms(3) keep unfolding sound_def by (auto split: knowledge.splits if_splits)
qed

text \<open>A row is removed for good by someone else.\<close>

lemma removed_stable:
  assumes inv: "table_inv T" and snd: "sound R i q T" and x: "length x = 27"
    and run: "run_DELETE [x] T = Some (res, T')"
  shows "sound (insert x R) i q T'"
proof -
  note step = delete_step [OF inv x run]
  have idle: "idle WalletIndex active i (rows_by_id T')" if "idle WalletIndex active i (rows_by_id T)"
    using that step by (auto simp: idle_def split: if_splits)
  have "idle WalletIndex active i (rows_by_id T')" if act: "fst q = Active x"
  proof (cases "x \<in> R")
    case True
    with snd act idle show ?thesis by (simp add: sound_def)
  next
    case False
    with snd act obtain r where r: "rows_by_id T x = Some r" "WalletIndex r = i" "active r"
      by (auto simp: sound_def)
    have tok: "table_ok T" and one: "at_most_one WalletIndex active (rows_by_id T)"
      using inv by (simp_all add: table_inv_def)
    have "sql_removes x T T'" using x run by (auto simp: sql_removes_def)
    from requests.removes_idle [OF tok this one r(1,3,2)] show ?thesis .
  qed
  with snd step idle show ?thesis
    by (auto simp: sound_def split: knowledge.splits if_splits)
qed

text \<open>A request that arrives is a row of no history.\<close>

lemma insert_step:
  assumes inv: "table_inv T" and run: "run_INSERT now vs (DoNothing [Col_id]) T = Some (res, T')"
    and d: "distinct (map fst vs)" and row: "inserted_row now vs = Some r"
    and wf: "row_wf r" and na: "\<not> active r"
  shows "table_inv T' \<and> (sound R i q T \<and> (\<forall>x \<in> R. rows_by_id T' x = None) \<longrightarrow> sound R i q T')"
proof -
  from inv have tok: "table_ok T" by (simp add: table_inv_def)
  have ad: "sql_adds r T T'" unfolding sql_adds_def using d row run by blast
  note law = requests.adds_law [OF tok ad]
  then have tok': "table_ok T'" by simp
  have wf': "row_wf s" if "s \<in> set T'" for s
  proof -
    from that tok' have "rows_by_id T' (ID s) = Some s"
      by (simp add: rows_by_id_mem table_ok_unique)
    moreover have "rows_by_id T' = rows_by_id T \<or> rows_by_id T' = (rows_by_id T)(ID r \<mapsto> r)"
      using law by metis
    ultimately have "s = r \<or> rows_by_id T (ID s) = Some s"
      by (metis fun_upd_apply option.inject)
    with wf table_inv_row [OF inv, of "ID s" s] show ?thesis by blast
  qed
  have "at_most_one WalletIndex active (rows_by_id T')"
    by (rule requests.adds_at_most_one [OF tok ad na]) (use inv in \<open>simp add: table_inv_def\<close>)
  with tok' wf' have "table_inv T'" by (simp add: table_inv_def)
  moreover have "sound R i q T'" if "sound R i q T" and gone: "\<forall>x \<in> R. rows_by_id T' x = None"
  proof -
    have keep: "rows_by_id T' k = Some s" if "rows_by_id T k = Some s" for k s
      by (rule requests.adds_keeps [OF tok ad that])
    have "idle WalletIndex active i (rows_by_id T')" if "idle WalletIndex active i (rows_by_id T)"
      by (rule requests.adds_keeps_idle [OF tok ad na that])
    with \<open>sound R i q T\<close> keep gone show ?thesis
      unfolding sound_def by (auto split: knowledge.splits if_splits)
  qed
  ultimately show ?thesis by blast
qed

section \<open>A watcher alone\<close>

lemma watch_run:
  assumes "watch.safe le i p q" and "run_trace p es = Some p'" and "db_run le es T T'"
    and "table_inv T" and "sound R i q T"
  shows "table_inv T' \<and> sound R i (foldl (watch_next i) q es) T' \<and> watch.relies le i es q \<and>
    watch.safe le i p' (foldl (watch_next i) q es)"
  using assms
proof (induction es arbitrary: p q T)
  case Nil
  then show ?case by simp
next
  case (Cons e es)
  from Cons.prems(3) obtain now T1 where db: "db_event le now e T T1" "db_run le es T1 T'"
    by (auto elim: db_run_ConsE)
  from Cons.prems(2) obtain p1 where p1: "step_prog p e = Some p1" "run_trace p1 es = Some p'"
    by (auto split: option.splits)
  have rely: "watch_rely le i q e" by (rule db_event_rely [OF Cons.prems(4,5) db(1)])
  from watch.safe_step [OF Cons.prems(1) p1(1) rely] have guar: "watch_guar q e"
    and safe: "watch.safe le i p1 (watch_next i q e)" by auto
  from watch_step [OF Cons.prems(4,5) guar db(1)] have "table_inv T1" "sound R i (watch_next i q e) T1"
    by auto
  from Cons.IH [OF safe p1(2) db(2) this] rely show ?case by simp
qed

lemmas Tick_run = watch_run [OF Tick_safe _ _ _ sound_start]

lemma touches_only_trans:
  assumes "touches_only j T T1" and "touches_only j T1 T2"
  shows "touches_only j T T2"
  unfolding touches_only_def
proof (intro allI impI)
  fix k
  assume "rows_by_id T2 k \<noteq> rows_by_id T k"
  then consider "rows_by_id T1 k \<noteq> rows_by_id T k" | "rows_by_id T1 k = rows_by_id T k"
      "rows_by_id T2 k \<noteq> rows_by_id T1 k" by fastforce
  then show "(\<exists>r. rows_by_id T k = Some r \<and> WalletIndex r = j) \<and>
      (\<forall>r'. rows_by_id T2 k = Some r' \<longrightarrow> WalletIndex r' = j)"
  proof cases
    case 1
    with assms show ?thesis unfolding touches_only_def by (metis option.inject)
  next
    case 2
    with assms(2) show ?thesis unfolding touches_only_def by metis
  qed
qed

lemma watch_run_touches:
  assumes "watch.safe le i p q" and "run_trace p es = Some p'" and "db_run le es T T'"
    and "table_inv T" and "sound R i q T"
  shows "touches_only i T T'"
  using assms
proof (induction es arbitrary: p q T)
  case Nil
  then show ?case by simp
next
  case (Cons e es)
  from Cons.prems(3) obtain now T1 where db: "db_event le now e T T1" "db_run le es T1 T'"
    by (auto elim: db_run_ConsE)
  from Cons.prems(2) obtain p1 where p1: "step_prog p e = Some p1" "run_trace p1 es = Some p'"
    by (auto split: option.splits)
  have rely: "watch_rely le i q e" by (rule db_event_rely [OF Cons.prems(4,5) db(1)])
  from watch.safe_step [OF Cons.prems(1) p1(1) rely] have guar: "watch_guar q e"
    and safe: "watch.safe le i p1 (watch_next i q e)" by auto
  note st = watch_step [OF Cons.prems(4,5) guar db(1)]
  then have "touches_only i T1 T'" using Cons.IH [OF safe p1(2) db(2)] by blast
  with st show ?case by (blast intro: touches_only_trans)
qed

lemma touches_only_set:
  assumes "touches_only i T T'" and "table_inv T" and "table_inv T'" and "j \<noteq> i"
  shows "{r \<in> set T'. WalletIndex r = j} = {r \<in> set T. WalletIndex r = j}"
proof -
  have mem: "r \<in> set U \<longleftrightarrow> rows_by_id U (ID r) = Some r" if "table_inv U" for U r
    using that by (auto dest: table_inv_rows_of rows_by_id_ID)
  have "rows_by_id T' (ID r) = Some r \<longleftrightarrow> rows_by_id T (ID r) = Some r" if "WalletIndex r = j" for r
    using assms(1,4) that unfolding touches_only_def by (metis option.inject)
  with mem [OF assms(2)] mem [OF assms(3)] show ?thesis by auto
qed

end
