(* ===== verification/Consumer.thy ===== *)
theory Consumer
  imports Models
begin

text \<open>
  internal/consumer/consumer.go: the Kafka consumer that turns request messages into rows.
  \<open>ConsumeClaim\<close> is run on the list of things its \<open>select\<close> yields; a closed message channel
  yields a nil message. Parsing a message (\<open>encoding/json\<close> with the library's \<open>CloudEvent\<close>) and
  the bytes of an address are parameters. A Go string is its list of bytes.
\<close>

section \<open>The handler\<close>

record TransactionEventData =
  EventData_ID :: string
  EventData_To :: address
  EventData_Data :: bytes

record consumer_lib =
  Unmarshal :: "bytes \<Rightarrow> goerror + TransactionEventData"
  AddressBytes :: "address \<Rightarrow> bytes"

definition consumer_laws :: "consumer_lib \<Rightarrow> bool" where
  "consumer_laws C \<longleftrightarrow> (\<forall>a. length (AddressBytes C a) = 20)"

text \<open>What a \<open>select\<close> of the loop yields.\<close>

datatype input = Received Message | ChannelClosed | ContextDone

datatype claim_result = Waiting | Finished "goerror option"

definition Setup :: "goerror option" where
  "Setup = None"

definition Cleanup :: "goerror option" where
  "Cleanup = None"

definition new_row :: "consumer_lib \<Rightarrow> TransactionEventData \<Rightarrow> int \<Rightarrow> MetaTransactionRequest" where
  "new_row C data assignedWalletIndex =
     zero_request\<lparr>ID := EventData_ID data, To := AddressBytes C (EventData_To data),
       Data := EventData_Data data, WalletIndex := assignedWalletIndex\<rparr>"

definition save_request ::
  "boil_env \<Rightarrow> consumer_lib \<Rightarrow> Message \<Rightarrow> TransactionEventData \<Rightarrow> int \<Rightarrow>
   claim_result outcome prog \<Rightarrow> claim_result outcome prog" where
  "save_request B C msg data assignedWalletIndex loop =
     Upsert B (new_row C data assignedWalletIndex) False [Col_id] (NoColumns (lib B)) (Infer (lib B)) []
       (\<lambda>err tx. case err of
          Some err \<Rightarrow> Ret (Returned (Finished (Some err)))
        | None \<Rightarrow> CallMarkMessage msg loop)"

definition handle_message ::
  "boil_env \<Rightarrow> consumer_lib \<Rightarrow> int \<Rightarrow> Message \<Rightarrow> claim_result outcome prog \<Rightarrow>
   claim_result outcome prog" where
  "handle_message B C numWallets msg loop = CallInc RequestsTotal
     (case Unmarshal C (Value msg) of
        Inl err \<Rightarrow> CallMarkMessage msg loop
      | Inr data \<Rightarrow>
          if length (EventData_ID data) \<noteq> 27 then CallMarkMessage msg loop
          else if numWallets \<le> 0 then Ret (Panicked ''invalid argument to IntN'')
          else CallIntN numWallets (\<lambda>assignedWalletIndex.
                 save_request B C msg data assignedWalletIndex loop))"

fun ConsumeClaim ::
  "boil_env \<Rightarrow> consumer_lib \<Rightarrow> int \<Rightarrow> input list \<Rightarrow> claim_result outcome prog" where
  "ConsumeClaim B C numWallets [] = Ret (Returned Waiting)"
| "ConsumeClaim B C numWallets (Received msg # inputs) =
     handle_message B C numWallets msg (ConsumeClaim B C numWallets inputs)"
| "ConsumeClaim B C numWallets (ChannelClosed # inputs) =
     CallInc RequestsTotal (Ret (Panicked ''invalid memory address or nil pointer dereference''))"
| "ConsumeClaim B C numWallets (ContextDone # inputs) = Ret (Returned (Finished None))"

text \<open>
  The loop of \<open>New\<close>: \<open>group.Consume\<close> is called again after every session, whatever its error,
  until the context is cancelled; the list gives, for each session, its error and whether the
  context was cancelled by then. \<open>None\<close>: the loop is still running.
\<close>

fun consume_sessions :: "(goerror option \<times> bool) list \<Rightarrow> goerror option option" where
  "consume_sessions [] = None"
| "consume_sessions ((err, cancelled) # sessions) =
     (if cancelled then Some None else consume_sessions sessions)"

definition New_consumer ::
  "goerror option \<Rightarrow> (goerror option \<times> bool) list \<Rightarrow> goerror option option" where
  "New_consumer groupErr sessions =
     (case groupErr of Some err \<Rightarrow> Some (Some err) | None \<Rightarrow> consume_sessions sessions)"

section \<open>The insert of a new request\<close>

text \<open>The columns that may be given a value: no history is written.\<close>

definition arrival_columns :: "col set" where
  "arrival_columns = {Col_id, Col_to, Col_data, Col_wallet_index, Col_created_at, Col_updated_at}"

definition arrival_values ::
  "consumer_lib \<Rightarrow> TransactionEventData \<Rightarrow> int \<Rightarrow> (col \<times> sql_value) list \<Rightarrow> bool" where
  "arrival_values C data i vs \<longleftrightarrow>
     distinct (map fst vs) \<and> fst ` set vs \<subseteq> arrival_columns \<and>
     map_of vs Col_id = Some (VText (EventData_ID data)) \<and>
     map_of vs Col_to = Some (VBytes (AddressBytes C (EventData_To data))) \<and>
     map_of vs Col_data = Some (VBytes (EventData_Data data)) \<and>
     map_of vs Col_wallet_index = Some (VInt i)"

lemma distinct_AllColumns: "distinct metaTransactionRequestAllColumns"
  by (simp add: metaTransactionRequestAllColumns_def)

lemma stamp_upsert_simps [simp]:
  "ID (stamp_upsert t r) = ID r" "To (stamp_upsert t r) = To r" "Data (stamp_upsert t r) = Data r"
  "WalletIndex (stamp_upsert t r) = WalletIndex r" "Nonce (stamp_upsert t r) = Nonce r"
  "GasPrice (stamp_upsert t r) = GasPrice r" "Hash (stamp_upsert t r) = Hash r"
  "SubmittedBlockNumber (stamp_upsert t r) = SubmittedBlockNumber r"
  "SubmittedBlockHash (stamp_upsert t r) = SubmittedBlockHash r"
  "MinedBlockNumber (stamp_upsert t r) = MinedBlockNumber r"
  "MinedBlockHash (stamp_upsert t r) = MinedBlockHash r"
  "BoostedBlockNumber (stamp_upsert t r) = BoostedBlockNumber r"
  "BoostedBlockHash (stamp_upsert t r) = BoostedBlockHash r"
  by (simp_all add: stamp_upsert_def)

text \<open>What \<open>Upsert\<close> sends here: the row, unless its id is there already.\<close>

lemma save_request_plain:
  assumes "plain B"
  shows "\<exists>vs. (\<forall>t. arrival_values C data i (vs t)) \<and>
    save_request B C msg data i loop = CallNow (\<lambda>t.
      CallExec (INSERT (vs t) (DoNothing [Col_id]) metaTransactionRequestAllColumns) (\<lambda>res.
        case res of
          Inl e \<Rightarrow> if errors_Is e ErrNoRows then CallMarkMessage msg loop
            else Ret (Returned (Finished (Some
              (wrap ''models: unable to upsert meta_transaction_requests'' e))))
        | Inr re \<Rightarrow> CallMarkMessage msg loop))"
proof -
  let ?L = "lib B"
  let ?row = "\<lambda>t. stamp_upsert t (new_row C data i)"
  let ?nz = "\<lambda>t. NonZeroDefaultSet ?L metaTransactionRequestColumnsWithDefault (?row t)"
  let ?wl = "\<lambda>t. fst (InsertColumnSet ?L (Infer ?L) metaTransactionRequestAllColumns
    metaTransactionRequestColumnsWithDefault metaTransactionRequestColumnsWithoutDefault (?nz t))"
  let ?vs = "\<lambda>t. bound_values (?wl t) (?row t)"
  from assms have laws: "boil_laws ?L" by (simp add: plain_def)
  have nz: "set (?nz t) \<subseteq> {Col_created_at, Col_updated_at}" for t
    using laws by (auto simp: boil_laws_def nonzero_field_def new_row_def zero_request_def
        metaTransactionRequestColumnsWithDefault_def)
  have wl: "set (?wl t) = {Col_id, Col_to, Col_data, Col_wallet_index} \<union> set (?nz t)" for t
    using laws by (auto simp: boil_laws_def metaTransactionRequestColumnsWithoutDefault_def)
  have dist: "distinct (?wl t)" for t
    using laws distinct_AllColumns unfolding boil_laws_def by blast
  have "arrival_values C data i (?vs t)" for t
    using wl [of t] nz [of t] dist [of t]
    by (auto simp: arrival_values_def arrival_columns_def new_row_def)
  moreover have "upsert_entry B False [Col_id] (NoColumns ?L) (Infer ?L) [] (?nz t)
      = Inr \<lparr>ic_columns = ?wl t, ic_action = DoNothing [Col_id],
          ic_retMapping = metaTransactionRequestAllColumns\<rparr>" for t
    using laws by (simp add: upsert_entry_def conflict_clause_def apply_options_def Let_def boil_laws_def split: prod.split)
  ultimately show ?thesis
    using assms
    by (intro exI [of _ ?vs])
      (auto simp: save_request_def Upsert_def with_time_plain send_insert_def entry_stmt_def
        metaTransactionRequestAllColumns_def fun_eq_iff split: sum.split list.split)
qed

section \<open>What the consumer does with a message\<close>

definition unusable :: "consumer_lib \<Rightarrow> Message \<Rightarrow> bool" where
  "unusable C msg \<longleftrightarrow>
     (case Unmarshal C (Value msg) of Inl err \<Rightarrow> True
      | Inr data \<Rightarrow> length (EventData_ID data) \<noteq> 27)"

text \<open>The statement is the insert of a request that was received, for one of the wallets.\<close>

definition arrival_stmt ::
  "consumer_lib \<Rightarrow> int \<Rightarrow> Message \<Rightarrow> stmt \<Rightarrow> bool" where
  "arrival_stmt C numWallets msg s \<longleftrightarrow>
     (\<exists>data i vs. Unmarshal C (Value msg) = Inr data \<and> length (EventData_ID data) = 27 \<and>
        0 \<le> i \<and> i < numWallets \<and> arrival_values C data i vs \<and>
        s = INSERT vs (DoNothing [Col_id]) metaTransactionRequestAllColumns)"

fun intake_rely :: "event list \<Rightarrow> event \<Rightarrow> bool" where
  "intake_rely h (IntN n i) = (0 \<le> i \<and> i < n)"
| "intake_rely h (Exec s (Inl err)) = (\<not> errors_Is err ErrNoRows)"
| "intake_rely h ev = True"

fun intake_guar :: "consumer_lib \<Rightarrow> int \<Rightarrow> input list \<Rightarrow> event list \<Rightarrow> event \<Rightarrow> bool" where
  "intake_guar C n inputs h (Exec s res) =
     (\<exists>msg. Received msg \<in> set inputs \<and> arrival_stmt C n msg s)"
| "intake_guar C n inputs h (MarkMessage msg) =
     (Received msg \<in> set inputs \<and>
      (unusable C msg \<or> (\<exists>s re. arrival_stmt C n msg s \<and> Exec s (Inr re) \<in> set h)))"
| "intake_guar C n inputs h (Notify m) = False"
| "intake_guar C n inputs h (SendTransaction st res) = False"
| "intake_guar C n inputs h ev = True"

definition intake_fin :: "int \<Rightarrow> input list \<Rightarrow> event list \<Rightarrow> claim_result outcome \<Rightarrow> bool" where
  "intake_fin n inputs h r \<longleftrightarrow> (0 < n \<and> ChannelClosed \<notin> set inputs \<longrightarrow> \<not> panicked r)"

lemma intake_fin_simps [simp]:
  "intake_fin n inputs h (Returned x)"
  "intake_fin n inputs h (Panicked m) \<longleftrightarrow> n \<le> 0 \<or> ChannelClosed \<in> set inputs"
  by (auto simp: intake_fin_def)

interpretation intake: monitor intake_rely "intake_guar C n inputs" "\<lambda>h e. h @ [e]" "intake_fin n inputs"
  for C n inputs .

lemma handle_message_intake:
  assumes "plain B" and msg: "Received msg \<in> set inputs"
    and loop: "\<And>h. intake.safe C n inputs loop h"
  shows "intake.safe C n inputs (handle_message B C n msg loop) h"
proof (cases "unusable C msg")
  case True
  with msg loop show ?thesis
    by (auto simp: handle_message_def unusable_def intake.admits_def split: sum.splits)
next
  case False
  then obtain data where data: "Unmarshal C (Value msg) = Inr data" "length (EventData_ID data) = 27"
    by (auto simp: unusable_def split: sum.splits)
  have save: "intake.safe C n inputs (save_request B C msg data i loop) h" if i: "0 \<le> i" "i < n" for i h
  proof -
    from save_request_plain [OF assms(1)] obtain vs where vs: "\<And>t. arrival_values C data i (vs t)"
      and eq: "save_request B C msg data i loop = CallNow (\<lambda>t.
        CallExec (INSERT (vs t) (DoNothing [Col_id]) metaTransactionRequestAllColumns) (\<lambda>res.
          case res of
            Inl e \<Rightarrow> if errors_Is e ErrNoRows then CallMarkMessage msg loop
              else Ret (Returned (Finished (Some
                (wrap ''models: unable to upsert meta_transaction_requests'' e))))
          | Inr re \<Rightarrow> CallMarkMessage msg loop))" by meson
    have st: "arrival_stmt C n msg (INSERT (vs t) (DoNothing [Col_id]) metaTransactionRequestAllColumns)"
      for t using data i vs unfolding arrival_stmt_def by blast
    have "intake_guar C n inputs (h @ [Now t, Exec (INSERT (vs t) (DoNothing [Col_id])
        metaTransactionRequestAllColumns) (Inr re)]) (MarkMessage msg)" for t re
      unfolding intake_guar.simps set_append list.set Un_iff insert_iff using st [of t] msg by blast
    then show ?thesis
      unfolding eq using msg st loop
      by (auto simp: intake.admits_def split: sum.split)
  qed
  show ?thesis
    using data save
    by (auto simp: handle_message_def intake.admits_def)
qed

lemma ConsumeClaim_intake:
  assumes "plain B" and "set inputs \<subseteq> set all"
  shows "intake.safe C n all (ConsumeClaim B C n inputs) h"
  using assms
proof (induction inputs arbitrary: h rule: ConsumeClaim.induct [of _ B C n])
  case (1 B C n)
  then show ?case by simp
next
  case (2 B C n msg inputs)
  then have "intake.safe C n all (ConsumeClaim B C n inputs) h" for h by simp
  with handle_message_intake [OF 2(2), of msg all C n] 2(3) show ?case by simp
next
  case (3 B C n inputs)
  then show ?case by (auto simp: intake.admits_def)
next
  case (4 B C n inputs)
  then show ?case by simp
qed

end
