(* ===== verification/Intake.thy ===== *)
theory Intake
  imports Tick_Invariant Consumer
begin

text \<open>
  The consumer's inserts on the table: the row that arrives is the request, without history; a
  message is marked only when its request is stored; delivering it again changes nothing. The
  table invariant of the watchers is kept.
\<close>

declare One_nat_def [simp del]

lemma store_cols_id:
  "store_cols vs r = Some r' \<Longrightarrow> distinct (map fst vs) \<Longrightarrow> map_of vs Col_id = Some (VText s) \<Longrightarrow>
   length s = 27 \<Longrightarrow> ID r' = s"
proof (induction vs arbitrary: r)
  case Nil
  then show ?case by simp
next
  case (Cons cw vs)
  obtain d w where cw: "cw = (d, w)" by force
  from Cons.prems cw obtain r1 where r1: "store_col d w r = Some r1" "store_cols vs r1 = Some r'"
    by (auto split: option.splits)
  show ?case
  proof (cases "d = Col_id")
    case True
    with Cons.prems cw have w: "w = VText s" and "Col_id \<notin> fst ` set vs" by auto
    with store_cols_ID [OF r1(2)] r1(1) True Cons.prems(4) show ?thesis by auto
  next
    case False
    with Cons.IH [OF r1(2)] Cons.prems cw show ?thesis by auto
  qed
qed

definition is_new :: "MetaTransactionRequest \<Rightarrow> bool" where
  "is_new r \<longleftrightarrow> Nonce r = None \<and> GasPrice r = None \<and> Hash r = None \<and>
     SubmittedBlockNumber r = None \<and> SubmittedBlockHash r = None \<and>
     MinedBlockNumber r = None \<and> MinedBlockHash r = None \<and>
     BoostedBlockNumber r = None \<and> BoostedBlockHash r = None"

lemma is_new_inactive: "is_new r \<Longrightarrow> \<not> active r \<and> row_wf r"
  by (simp add: is_new_def active_def row_wf_def)

lemma arrival_row:
  assumes vals: "arrival_values C data i vs" and len: "length (EventData_ID data) = 27"
    and row: "inserted_row now vs = Some r"
  shows "is_new r \<and> ID r = EventData_ID data \<and> To r = AddressBytes C (EventData_To data) \<and>
    Data r = EventData_Data data \<and> WalletIndex r = i"
proof -
  let ?r0 = "zero_request\<lparr>CreatedAt := to_micros now, UpdatedAt := to_micros now\<rparr>"
  from row have ch: "changed_row vs ?r0 = Some r" by (simp add: inserted_row_def split: if_splits)
  from vals have d: "distinct (map fst vs)" by (simp add: arrival_values_def)
  note f = changed_row_field [OF ch d]
  have none: "field_value c r = field_value c ?r0" if "c \<notin> arrival_columns" for c
  proof -
    from that vals have "map_of vs c = None" by (auto simp: arrival_values_def map_of_eq_None_iff)
    moreover from that have "c \<noteq> Col_id" by (auto simp: arrival_columns_def)
    ultimately show ?thesis using f [of c] by simp
  qed
  have "is_new r"
    using none [of Col_nonce] none [of Col_gas_price] none [of Col_hash]
      none [of Col_submitted_block_number] none [of Col_submitted_block_hash]
      none [of Col_mined_block_number] none [of Col_mined_block_hash]
      none [of Col_boosted_block_number] none [of Col_boosted_block_hash]
    by (simp add: arrival_columns_def is_new_def zero_request_def)
  moreover have "ID r = EventData_ID data"
    using ch vals len d store_cols_id [of vs ?r0 r] by (simp add: changed_row_Some arrival_values_def)
  moreover have "To r = AddressBytes C (EventData_To data) \<and> Data r = EventData_Data data \<and> WalletIndex r = i"
    using f [of Col_to] f [of Col_data] f [of Col_wallet_index] vals
    by (simp add: arrival_values_def)
  ultimately show ?thesis by blast
qed

lemma run_INSERT_row: "run_INSERT now vs act T = Some (res, T') \<Longrightarrow> \<exists>r. inserted_row now vs = Some r"
  by (auto simp: run_INSERT_def split: option.splits)

text \<open>One insert: the invariant, what others know, and the row of the request.\<close>

lemma arrival_step:
  assumes inv: "table_inv T" and st: "arrival_stmt C n msg s" and data: "Unmarshal C (Value msg) = Inr data"
    and run: "run_stmt le now s T = Some (res, T')"
  shows "table_inv T' \<and>
    (\<forall>R j q. sound R j q T \<and> (\<forall>x \<in> R. rows_by_id T' x = None) \<longrightarrow> sound R j q T') \<and>
    (\<exists>r. (if rows_by_id T (EventData_ID data) = None
          then is_new r \<and> To r = AddressBytes C (EventData_To data) \<and> Data r = EventData_Data data \<and>
            0 \<le> WalletIndex r \<and> WalletIndex r < n \<and>
            rows_by_id T' = (rows_by_id T)(EventData_ID data \<mapsto> r)
          else rows_by_id T' = rows_by_id T))"
proof -
  from st data obtain i vs where len: "length (EventData_ID data) = 27" and i: "0 \<le> i" "i < n"
    and vals: "arrival_values C data i vs"
    and s: "s = INSERT vs (DoNothing [Col_id]) metaTransactionRequestAllColumns"
    by (auto simp: arrival_stmt_def)
  from run s have run': "run_INSERT now vs (DoNothing [Col_id]) T = Some (res, T')" by simp
  from run_INSERT_row [OF run'] obtain r where r: "inserted_row now vs = Some r" by blast
  note row = arrival_row [OF vals len r]
  from vals have d: "distinct (map fst vs)" by (simp add: arrival_values_def)
  have na: "\<not> active r" "row_wf r" using row is_new_inactive by blast+
  have step: "table_inv T' \<and>
      (sound R j q T \<and> (\<forall>x \<in> R. rows_by_id T' x = None) \<longrightarrow> sound R j q T')" for R j q
    by (rule insert_step [OF inv run' d r na(2,1)])
  have tok: "table_ok T" using inv by (simp add: table_inv_def)
  have ad: "sql_adds r T T'" unfolding sql_adds_def using d r run' by blast
  have law: "if rows_by_id T (EventData_ID data) = None
      then rows_by_id T' = (rows_by_id T)(EventData_ID data \<mapsto> r) else rows_by_id T' = rows_by_id T"
    using requests.adds_law [OF tok ad] row by simp
  show ?thesis
  proof (intro conjI exI [of _ r])
    show "table_inv T'"
      "\<forall>R j q. sound R j q T \<and> (\<forall>x \<in> R. rows_by_id T' x = None) \<longrightarrow> sound R j q T'"
      using step by blast+
    show "if rows_by_id T (EventData_ID data) = None
          then is_new r \<and> To r = AddressBytes C (EventData_To data) \<and> Data r = EventData_Data data \<and>
            0 \<le> WalletIndex r \<and> WalletIndex r < n \<and>
            rows_by_id T' = (rows_by_id T)(EventData_ID data \<mapsto> r)
          else rows_by_id T' = rows_by_id T"
      using law row i by presburger
  qed
qed

lemma arrival_stored:
  assumes "table_inv T" "arrival_stmt C n msg s" "Unmarshal C (Value msg) = Inr data"
    and "run_stmt le now s T = Some (res, T')"
  shows "rows_by_id T' (EventData_ID data) \<noteq> None"
    and "rows_by_id T k = Some r \<Longrightarrow> rows_by_id T' k = Some r"
  using arrival_step [OF assms]
  by (cases "rows_by_id T (EventData_ID data)"; force split: if_splits)+

text \<open>The data of an insert is determined by its message.\<close>

lemma arrival_data: "arrival_stmt C n msg s \<Longrightarrow> \<exists>data. Unmarshal C (Value msg) = Inr data"
  by (auto simp: arrival_stmt_def)

section \<open>The consumer alone on the table\<close>

definition intake_event :: "consumer_lib \<Rightarrow> int \<Rightarrow> input list \<Rightarrow> event \<Rightarrow> bool" where
  "intake_event C n inputs e \<longleftrightarrow>
     (\<forall>s res. e = Exec s res \<longrightarrow> (\<exists>msg. Received msg \<in> set inputs \<and> arrival_stmt C n msg s)) \<and>
     (\<forall>m. e \<noteq> Notify m) \<and> (\<forall>st res. e \<noteq> SendTransaction st res)"

text \<open>Nothing that is there is changed or lost, whatever is reported about the inserts.\<close>

lemma intake_event_step:
  assumes "table_inv T" and "intake_event C n inputs e" and "db_event le now e T T'"
  shows "table_inv T' \<and> rows_by_id T \<subseteq>\<^sub>m rows_by_id T'"
proof (cases "\<exists>s res. e = Exec s res")
  case False
  with assms(3) have "T' = T" by (blast intro: db_event_no_exec)
  with assms(1) show ?thesis by simp
next
  case True
  then obtain s res where e: "e = Exec s res" by blast
  with assms(2) obtain msg where st: "arrival_stmt C n msg s" by (auto simp: intake_event_def)
  from arrival_data [OF st] obtain data where data: "Unmarshal C (Value msg) = Inr data" by blast
  consider "T' = T" | re where "run_stmt le now s T = Some (re, T')"
    using assms(3) e db_event_exec by blast
  then show ?thesis
  proof cases
    case 1
    with assms(1) show ?thesis by simp
  next
    case 2
    with arrival_step [OF assms(1) st data 2] arrival_stored(2) [OF assms(1) st data 2]
    show ?thesis by (auto simp: map_le_def dom_def)
  qed
qed

lemma intake_events_run:
  assumes "db_run le es T T'" and "table_inv T" and "list_all (intake_event C n inputs) es"
  shows "table_inv T' \<and> rows_by_id T \<subseteq>\<^sub>m rows_by_id T'"
  using assms
proof (induction rule: db_run.induct)
  case (db_run_Nil T)
  then show ?case by simp
next
  case (db_run_Cons now e T T1 es T2)
  then have "intake_event C n inputs e" by simp
  from intake_event_step [OF db_run_Cons.prems(1) this db_run_Cons.hyps(1)] db_run_Cons.IH db_run_Cons.prems(2)
  show ?case by (auto intro: map_le_trans)
qed

lemma intake_insert_stored:
  assumes "db_run le es T T'" and "table_inv T" and all: "list_all (intake_event C n inputs) es"
    and "Exec s (Inr re) \<in> set es" and "arrival_stmt C n msg s" and "Unmarshal C (Value msg) = Inr data"
  shows "rows_by_id T' (EventData_ID data) \<noteq> None"
proof -
  from assms(4) obtain us vs where es: "es = us @ Exec s (Inr re) # vs" by (auto simp: in_set_conv_decomp)
  from db_run_append [OF assms(1) [unfolded es]] obtain T1 where T1: "db_run le us T T1"
    "db_run le (Exec s (Inr re) # vs) T1 T'" by blast
  then obtain now T2 where T2: "db_event le now (Exec s (Inr re)) T1 T2" "db_run le vs T2 T'"
    by (auto elim: db_run_ConsE)
  have inv1: "table_inv T1" using intake_events_run [OF T1(1) assms(2), of C n inputs] all es by simp
  from T2(1) have "run_stmt le now s T1 = Some (re, T2)" by simp
  from arrival_stored(1) [OF inv1 assms(5,6) this] have st: "rows_by_id T2 (EventData_ID data) \<noteq> None" .
  have e: "intake_event C n inputs (Exec s (Inr re))" using all es by simp
  have inv2: "table_inv T2" using intake_event_step [OF inv1 e T2(1)] by simp
  have "rows_by_id T2 \<subseteq>\<^sub>m rows_by_id T'" using intake_events_run [OF T2(2) inv2, of C n inputs] all es by simp
  with st show ?thesis unfolding map_le_def by (metis domIff)
qed

text \<open>The answers of the database and a random number in range are what the monitor relies on.\<close>

definition in_range :: "event \<Rightarrow> bool" where
  "in_range e \<longleftrightarrow> (case e of IntN n i \<Rightarrow> 0 \<le> i \<and> i < n | _ \<Rightarrow> True)"

lemma intake_relies:
  assumes "db_run le es T T'" and "list_all in_range es"
  shows "intake.relies es h"
  using assms
proof (induction arbitrary: h rule: db_run.induct)
  case (db_run_Nil T)
  then show ?case by simp
next
  case (db_run_Cons now e T T1 es T2)
  have "intake_rely h e" for h
    using db_run_Cons.hyps(1) db_run_Cons.prems
    by (cases "(h, e)" rule: intake_rely.cases) (auto simp: in_range_def)
  with db_run_Cons show ?case by simp
qed

lemma intake_history [simp]: "foldl (\<lambda>h e. h @ [e]) h es = h @ es"
  by (induction es arbitrary: h) auto

lemma intake_guars_events:
  "intake.guars C n inputs es h \<Longrightarrow> list_all (intake_event C n inputs) es"
  by (induction es arbitrary: h) (auto simp: intake_event_def)

lemma intake_run:
  assumes "plain B" and "run_trace (ConsumeClaim B C n inputs) es = Some p"
    and "db_run le es T T'" and "list_all in_range es"
  shows "intake.guars C n inputs es [] \<and> intake.safe C n inputs p es"
  using intake.safe_run [OF ConsumeClaim_intake [OF assms(1) order_refl] assms(2)
      intake_relies [OF assms(3,4), of "[]"]] by simp

text \<open>Where the rows of a table come from.\<close>

definition from_message :: "consumer_lib \<Rightarrow> int \<Rightarrow> input list \<Rightarrow> MetaTransactionRequest \<Rightarrow> bool" where
  "from_message C n inputs r \<longleftrightarrow>
     is_new r \<and> 0 \<le> WalletIndex r \<and> WalletIndex r < n \<and>
     (\<exists>msg data. Received msg \<in> set inputs \<and> Unmarshal C (Value msg) = Inr data \<and>
        ID r = EventData_ID data \<and> To r = AddressBytes C (EventData_To data) \<and>
        Data r = EventData_Data data)"

lemma intake_event_origin:
  assumes inv: "table_inv T" and ev: "intake_event C n inputs e" and db: "db_event le now e T T'"
    and r: "rows_by_id T' k = Some r"
  shows "rows_by_id T k = Some r \<or> from_message C n inputs r"
proof (cases "T' = T")
  case True
  with r show ?thesis by simp
next
  case False
  with db obtain s res where e: "e = Exec s res" using db_event_no_exec by metis
  with ev obtain msg where st: "arrival_stmt C n msg s" and rec: "Received msg \<in> set inputs"
    by (auto simp: intake_event_def)
  from arrival_data [OF st] obtain data where data: "Unmarshal C (Value msg) = Inr data" by blast
  from db False e db_event_exec obtain re where run: "run_stmt le now s T = Some (re, T')" by blast
  show ?thesis
  proof (cases "rows_by_id T (EventData_ID data)")
    case None
    with arrival_step [OF inv st data run] obtain r0 where
      r0: "is_new r0" "To r0 = AddressBytes C (EventData_To data)" "Data r0 = EventData_Data data"
        "0 \<le> WalletIndex r0" "WalletIndex r0 < n"
      and rows: "rows_by_id T' = (rows_by_id T)(EventData_ID data \<mapsto> r0)" by auto
    show ?thesis
    proof (cases "k = EventData_ID data")
      case True
      with r rows have "r = r0" by simp
      moreover have "ID r = k" using rows_by_id_ID [OF r] by simp
      ultimately show ?thesis using r0 rec data True unfolding from_message_def by blast
    next
      case False
      with r rows show ?thesis by simp
    qed
  next
    case (Some r0)
    with arrival_step [OF inv st data run] r show ?thesis by simp
  qed
qed

lemma intake_events_origin:
  assumes "db_run le es T T'" and "table_inv T" and "list_all (intake_event C n inputs) es"
    and "rows_by_id T' k = Some r"
  shows "rows_by_id T k = Some r \<or> from_message C n inputs r"
  using assms
proof (induction rule: db_run.induct)
  case (db_run_Nil T)
  then show ?case by simp
next
  case (db_run_Cons now e T T1 es T2)
  then have ev: "intake_event C n inputs e" by simp
  have "table_inv T1" using intake_event_step [OF db_run_Cons.prems(1) ev db_run_Cons.hyps(1)] by simp
  with db_run_Cons.IH db_run_Cons.prems have "rows_by_id T1 k = Some r \<or> from_message C n inputs r" by simp
  with intake_event_origin [OF db_run_Cons.prems(1) ev db_run_Cons.hyps(1)] show ?case by blast
qed

end
