(* ===== verification/Service.thy ===== *)
theory Service
  imports Models
begin

text \<open>
  internal/rpc: the gRPC service with its one method \<open>CleanStuckMetaTransactions\<close>, the metrics
  middleware, the panic handler and the chain of interceptors around every method. What grpc's \<open>status\<close> package makes of an error or a panic
  value is a parameter; log lines and the durations in the histogram are left out (the label
  pairs of its observations are kept).
\<close>

section \<open>The method\<close>

definition oldest_request :: "query_mod list" where
  "oldest_request = [OrderByAsc Col_created_at]"

definition CleanStuckMetaTransactions ::
  "boil_env \<Rightarrow> (goerror + string) outcome prog" where
  "CleanStuckMetaTransactions B = One B oldest_request (\<lambda>res.
     case res of
       Inl err \<Rightarrow> Ret (Returned (Inl err))
     | Inr activeTx \<Rightarrow> Delete B activeTx (\<lambda>res.
         case res of
           Inl err \<Rightarrow> Ret (Returned (Inl err))
         | Inr n \<Rightarrow> Ret (Returned (Inr (ID activeTx)))))"

text \<open>The answer to the empty table and to a table with rows.\<close>

lemma Clean_plain:
  assumes "plain B"
  shows "CleanStuckMetaTransactions B =
    CallQuery (MetaTransactionRequests oldest_request @ [Limit 1]) (\<lambda>res.
      case res of
        Inl err \<Rightarrow> Ret (Returned (Inl (if errors_Is err ErrNoRows then ErrNoRows
          else wrap ''models: failed to execute a one query for meta_transaction_requests'' err)))
      | Inr [] \<Rightarrow> Ret (Returned (Inl ErrNoRows))
      | Inr (r # rs) \<Rightarrow> CallExec (DELETE [ID r]) (\<lambda>res.
          case res of
            Inl err \<Rightarrow> Ret (Returned (Inl
              (wrap ''models: unable to delete from meta_transaction_requests'' err)))
          | Inr re \<Rightarrow> Ret (Returned (Inr (ID r)))))"
  unfolding CleanStuckMetaTransactions_def One_plain [OF assms] Delete_plain [OF assms]
  by (auto simp: fun_eq_iff split: sum.split list.split)

section \<open>Middleware and recovery\<close>

record grpc_metrics =
  GRPCResponseTime :: "(string \<times> string) list"
  GRPCRequestCount :: "(string \<times> string) \<Rightarrow> nat"
  PanicsCount :: nat

definition observe :: "string \<Rightarrow> string \<Rightarrow> grpc_metrics \<Rightarrow> grpc_metrics" where
  "observe method status m =
     m\<lparr>GRPCResponseTime := GRPCResponseTime m @ [(method, status)],
       GRPCRequestCount := (GRPCRequestCount m)((method, status) := GRPCRequestCount m (method, status) + 1)\<rparr>"

text \<open>
  \<open>fromError\<close> is \<open>status.FromError\<close> on a non-nil error: the name of the code, if it is a status.
\<close>

definition GRPCMetricsAndLogMiddleware ::
  "(goerror \<Rightarrow> string option) \<Rightarrow> string \<Rightarrow> (grpc_metrics \<Rightarrow> (goerror + 'a) \<times> grpc_metrics) \<Rightarrow>
   grpc_metrics \<Rightarrow> (goerror + 'a) \<times> grpc_metrics" where
  "GRPCMetricsAndLogMiddleware fromError fullMethod handler m =
     (let (res, m') = handler m
      in case res of
           Inl err \<Rightarrow>
             (case fromError err of
                Some code \<Rightarrow> (res, observe fullMethod code m')
              | None \<Rightarrow> (res, observe fullMethod ''unknown'' m'))
         | Inr resp \<Rightarrow> (res, observe fullMethod ''OK'' m'))"

definition GRPCPanicRecoveryHandler ::
  "(string \<Rightarrow> goerror) \<Rightarrow> string \<Rightarrow> grpc_metrics \<Rightarrow> goerror \<times> grpc_metrics" where
  "GRPCPanicRecoveryHandler internal p m = (internal p, m\<lparr>PanicsCount := PanicsCount m + 1\<rparr>)"

text \<open>The recovery interceptor in front of a handler: a panic is an error of the call.\<close>

definition recovering ::
  "(string \<Rightarrow> goerror) \<Rightarrow> (grpc_metrics \<Rightarrow> (goerror + 'a) outcome \<times> grpc_metrics) \<Rightarrow>
   grpc_metrics \<Rightarrow> (goerror + 'a) \<times> grpc_metrics" where
  "recovering internal handler m =
     (case handler m of
        (Returned res, m') \<Rightarrow> (res, m')
      | (Panicked p, m') \<Rightarrow>
          (let (err, m'') = GRPCPanicRecoveryHandler internal p m' in (Inl err, m'')))"

lemma observe_counts:
  "GRPCRequestCount (observe method status m) k =
     GRPCRequestCount m k + (if k = (method, status) then 1 else 0)"
  by (simp add: observe_def)

text \<open>A handler's answer passes through unchanged, and is counted once.\<close>

lemma middleware_answer:
  "fst (GRPCMetricsAndLogMiddleware fromError fullMethod handler m) = fst (handler m)"
  by (auto simp: GRPCMetricsAndLogMiddleware_def split: prod.split sum.split option.split)

lemma middleware_observes:
  "length (GRPCResponseTime (snd (GRPCMetricsAndLogMiddleware fromError fullMethod handler m)))
     = Suc (length (GRPCResponseTime (snd (handler m))))"
  by (auto simp: GRPCMetricsAndLogMiddleware_def observe_def
      split: prod.split sum.split option.split)

section \<open>The chain of interceptors\<close>

text \<open>
  The interceptors \<open>startGRPCServer\<close> puts around every method, the first one outermost. The tags
  and the Prometheus interceptors are third-party code.
\<close>

type_synonym 'a handler = "grpc_metrics \<Rightarrow> (goerror + 'a) \<times> grpc_metrics"

definition unary_chain ::
  "(goerror \<Rightarrow> string option) \<Rightarrow> (string \<Rightarrow> goerror) \<Rightarrow> ('a handler \<Rightarrow> 'a handler) \<Rightarrow>
   ('a handler \<Rightarrow> 'a handler) \<Rightarrow> string \<Rightarrow> (grpc_metrics \<Rightarrow> (goerror + 'a) outcome \<times> grpc_metrics) \<Rightarrow>
   'a handler" where
  "unary_chain fromError internal ctxtags prometheus fullMethod handler =
     GRPCMetricsAndLogMiddleware fromError fullMethod (ctxtags (prometheus (recovering internal handler)))"

text \<open>A method that panics is answered with an error, counted as a panic and observed once.\<close>

lemma unary_chain_panic:
  assumes "handler m = (Panicked p, m')" and "ctxtags = id" and "prometheus = id"
  shows "fst (unary_chain fromError internal ctxtags prometheus fullMethod handler m) = Inl (internal p) \<and>
    PanicsCount (snd (unary_chain fromError internal ctxtags prometheus fullMethod handler m)) =
      PanicsCount m' + 1 \<and>
    length (GRPCResponseTime (snd (unary_chain fromError internal ctxtags prometheus fullMethod handler m))) =
      length (GRPCResponseTime m') + 1"
  using assms
  by (auto simp: unary_chain_def middleware_answer GRPCMetricsAndLogMiddleware_def recovering_def
      GRPCPanicRecoveryHandler_def observe_def split: option.split)


end
