(* ===== verification/Sender.thy ===== *)
theory Sender
  imports Prelude
begin

text \<open>
  internal/sender: the \<open>Sender\<close> interface (an address and a signing function) and its two
  implementations. The curve, the ASN.1 parser, AWS KMS and hex decoding are parameters; the
  correction of S, the byte layout of the signature and the choice of V are the code's own and
  are written out.
\<close>

section \<open>Parameters\<close>

record 'pub crypto_lib =
  FromHex :: "string \<Rightarrow> bytes"
  ToECDSA :: "bytes \<Rightarrow> goerror + bytes"
  PublicKey :: "bytes \<Rightarrow> 'pub"
  PubkeyToAddress :: "'pub \<Rightarrow> address"
  MarshalPub :: "'pub \<Rightarrow> bytes"
  UnmarshalPubkey :: "bytes \<Rightarrow> goerror + 'pub"
  crypto_Sign :: "hash \<Rightarrow> bytes \<Rightarrow> goerror + bytes"
  Ecrecover :: "hash \<Rightarrow> bytes \<Rightarrow> goerror + bytes"
  Asn1Signature :: "bytes \<Rightarrow> goerror + int \<times> int"
  Asn1PublicKey :: "bytes \<Rightarrow> goerror + bytes"
  KmsGetPublicKey :: "string \<Rightarrow> goerror + bytes"
  KmsSign :: "string \<Rightarrow> hash \<Rightarrow> goerror + bytes"

section \<open>Bytes of an integer\<close>

text \<open>
  \<open>big.Int.FillBytes\<close> on a buffer of \<open>n\<close> bytes: the absolute value, big-endian; a value that does
  not fit panics (\<open>None\<close>).
\<close>

fun big_endian :: "nat \<Rightarrow> nat \<Rightarrow> bytes" where
  "big_endian 0 x = []"
| "big_endian (Suc n) x = big_endian n (x div 256) @ [word_of_nat (x mod 256)]"

definition FillBytes :: "nat \<Rightarrow> int \<Rightarrow> bytes option" where
  "FillBytes n x = (if nat \<bar>x\<bar> < 256 ^ n then Some (big_endian n (nat \<bar>x\<bar>)) else None)"

definition of_big_endian :: "bytes \<Rightarrow> nat" where
  "of_big_endian bs = foldl (\<lambda>acc b. 256 * acc + unat b) 0 bs"

lemma length_big_endian [simp]: "length (big_endian n x) = n"
  by (induction n arbitrary: x) auto

lemma of_big_endian_snoc: "of_big_endian (bs @ [b]) = 256 * of_big_endian bs + unat b"
  by (simp add: of_big_endian_def)

lemma of_big_endian_inverse: "x < 256 ^ n \<Longrightarrow> of_big_endian (big_endian n x) = x"
proof (induction n arbitrary: x)
  case 0
  then show ?case by (simp add: of_big_endian_def)
next
  case (Suc n)
  then have "x div 256 < 256 ^ n" by (simp add: less_mult_imp_div_less mult.commute)
  moreover have "unat (word_of_nat (x mod 256) :: 8 word) = x mod 256"
    by (simp add: unat_of_nat)
  ultimately show ?case
    using Suc.IH by (simp add: of_big_endian_snoc)
qed

section \<open>Private keys\<close>

record privateKeySender =
  privateKey :: bytes
  pk_address :: address

definition privateKeySender_Sign ::
  "'pub crypto_lib \<Rightarrow> privateKeySender \<Rightarrow> hash \<Rightarrow> goerror + bytes" where
  "privateKeySender_Sign X a h = crypto_Sign X h (privateKey a)"

definition FromKey :: "'pub crypto_lib \<Rightarrow> string \<Rightarrow> goerror + privateKeySender" where
  "FromKey X hexPriv =
     (let privBytes = FromHex X hexPriv
      in case ToECDSA X privBytes of
           Inl err \<Rightarrow> Inl err
         | Inr priv \<Rightarrow>
             Inr \<lparr>privateKey = priv, pk_address = PubkeyToAddress X (PublicKey X priv)\<rparr>)"

section \<open>AWS KMS\<close>

record kmsSender =
  keyID :: string
  publicKey :: bytes
  kms_address :: address

definition secp256k1N :: int where
  "secp256k1N =
     115792089237316195423570985008687907852837564279074904382605163141518161494337"

definition secp256k1HalfN :: int where
  "secp256k1HalfN = secp256k1N div 2"

text \<open>The lower one of the two values of S that sign the same digest.\<close>

definition low_s :: "int \<Rightarrow> int" where
  "low_s sigS = (if sigS > secp256k1HalfN then secp256k1N - sigS else sigS)"

definition kmsSender_Sign ::
  "'pub crypto_lib \<Rightarrow> kmsSender \<Rightarrow> hash \<Rightarrow> (goerror + bytes) outcome" where
  "kmsSender_Sign X s h =
     (case KmsSign X (keyID s) h of
        Inl err \<Rightarrow> Returned (Inl (ErrWrap ''error from KMS Sign call'' err))
      | Inr signature \<Rightarrow>
          (case Asn1Signature X signature of
             Inl err \<Rightarrow> Returned (Inl (ErrWrap ''failed to unmarshal Signature ASN.1'' err))
           | Inr (r, sigS) \<Rightarrow>
               (case (FillBytes 32 r, FillBytes 32 (low_s sigS)) of
                  (Some rBytes, Some sBytes) \<Rightarrow>
                    (case Ecrecover X h (rBytes @ sBytes @ [0]) of
                       Inl err \<Rightarrow> Returned (Inl err)
                     | Inr recPub \<Rightarrow>
                         if recPub = publicKey s then Returned (Inr (rBytes @ sBytes @ [0]))
                         else
                           (case Ecrecover X h (rBytes @ sBytes @ [1]) of
                              Inl err \<Rightarrow> Returned (Inl err)
                            | Inr recPub \<Rightarrow>
                                if recPub = publicKey s then Returned (Inr (rBytes @ sBytes @ [1]))
                                else Returned (Inl (ErrMsg
                                  ''couldn't choose a working V from the returned R and S''))))
                | _ \<Rightarrow> Panicked ''math/big: buffer too small to fit value'')))"

definition FromKMS :: "'pub crypto_lib \<Rightarrow> string \<Rightarrow> goerror + kmsSender" where
  "FromKMS X key =
     (case KmsGetPublicKey X key of
        Inl err \<Rightarrow> Inl err
      | Inr pubResp \<Rightarrow>
          (case Asn1PublicKey X pubResp of
             Inl err \<Rightarrow> Inl err
           | Inr spki \<Rightarrow>
               (case UnmarshalPubkey X spki of
                  Inl err \<Rightarrow> Inl err
                | Inr pub \<Rightarrow>
                    Inr \<lparr>keyID = key, publicKey = MarshalPub X pub,
                      kms_address = PubkeyToAddress X pub\<rparr>)))"

lemma fill_length: "FillBytes n x = Some bs \<Longrightarrow> length bs = n"
  by (auto simp: FillBytes_def split: if_splits)

lemma fill_value: "FillBytes n x = Some bs \<Longrightarrow> of_big_endian bs = nat \<bar>x\<bar>"
  by (auto simp: FillBytes_def of_big_endian_inverse split: if_splits)

lemma fill_fits: "\<bar>x\<bar> < 256 ^ n \<Longrightarrow> \<exists>bs. FillBytes n x = Some bs"
proof -
  assume "\<bar>x\<bar> < 256 ^ n"
  then have "nat \<bar>x\<bar> < nat (256 ^ n)" by simp
  then show ?thesis by (simp add: FillBytes_def nat_power_eq)
qed

text \<open>S in the group is moved to its lower half.\<close>

lemma low_s_bounds:
  assumes "0 < s" and "s < secp256k1N"
  shows "0 < low_s s \<and> low_s s \<le> secp256k1HalfN \<and> (low_s s = s \<or> low_s s = secp256k1N - s)"
  using assms by (auto simp: low_s_def secp256k1HalfN_def secp256k1N_def)

text \<open>What a signature that is returned looks like.\<close>

lemma kms_sign_Inr:
  assumes "kmsSender_Sign X s h = Returned (Inr sig)"
  shows "\<exists>signature r sigS rBytes sBytes v. KmsSign X (keyID s) h = Inr signature \<and>
    Asn1Signature X signature = Inr (r, sigS) \<and>
    FillBytes 32 r = Some rBytes \<and> FillBytes 32 (low_s sigS) = Some sBytes \<and>
    sig = rBytes @ sBytes @ [v] \<and> v \<in> {0, 1} \<and> Ecrecover X h sig = Inr (publicKey s)"
proof -
  from assms obtain signature r sigS where 1: "KmsSign X (keyID s) h = Inr signature"
      "Asn1Signature X signature = Inr (r, sigS)"
    by (auto simp: kmsSender_Sign_def split: sum.splits)
  with assms obtain rBytes sBytes where 2: "FillBytes 32 r = Some rBytes"
      "FillBytes 32 (low_s sigS) = Some sBytes"
    by (auto simp: kmsSender_Sign_def split: option.splits)
  have "sig = rBytes @ sBytes @ [0] \<and> Ecrecover X h sig = Inr (publicKey s) \<or>
      sig = rBytes @ sBytes @ [1] \<and> Ecrecover X h sig = Inr (publicKey s)"
    using assms by (auto simp: kmsSender_Sign_def 1 2 split: sum.splits if_splits)
  with 1 2 show ?thesis by blast
qed

lemma kms_sign_no_panic:
  assumes "\<And>sg r s'. KmsSign X (keyID s) h = Inr sg \<Longrightarrow> Asn1Signature X sg = Inr (r, s') \<Longrightarrow>
    0 < r \<and> r < secp256k1N \<and> 0 < s' \<and> s' < secp256k1N"
  shows "\<not> panicked (kmsSender_Sign X s h)"
proof -
  have N: "secp256k1N < 256 ^ 32" by (simp add: secp256k1N_def)
  have "\<exists>rb sb. FillBytes 32 r = Some rb \<and> FillBytes 32 (low_s s') = Some sb"
    if "KmsSign X (keyID s) h = Inr sg" "Asn1Signature X sg = Inr (r, s')" for sg r s'
  proof -
    from assms [OF that] low_s_bounds [of s'] N have "\<bar>r\<bar> < 256 ^ 32" "\<bar>low_s s'\<bar> < 256 ^ 32"
      by (auto simp: secp256k1HalfN_def)
    then show ?thesis using fill_fits by blast
  qed
  then show ?thesis
    by (fastforce simp: kmsSender_Sign_def split: sum.splits option.splits if_splits)
qed

section \<open>The interface\<close>

text \<open>
  What the watcher relies on, whoever signs: a signature of 65 bytes from which the signer's
  public key is recovered.
\<close>

locale signer =
  fixes public_key :: "'s \<Rightarrow> bytes"
    and sign :: "'s \<Rightarrow> hash \<Rightarrow> (goerror + bytes) outcome"
    and recover :: "hash \<Rightarrow> bytes \<Rightarrow> goerror + bytes"
  assumes signs: "sign s h = Returned (Inr sig) \<Longrightarrow>
    length sig = 65 \<and> recover h sig = Inr (public_key s)"
begin

lemma same_signature_same_key:
  "sign s h = Returned (Inr sig) \<Longrightarrow> sign s' h = Returned (Inr sig) \<Longrightarrow> public_key s = public_key s'"
  using signs [of s h sig] signs [of s' h sig] by simp

lemma signature_length: "sign s h = Returned (Inr sig) \<Longrightarrow> length sig = 65"
  using signs by blast

end

interpretation kms: signer publicKey "kmsSender_Sign X" "Ecrecover X" for X
proof
  fix s h sig
  assume "kmsSender_Sign X s h = Returned (Inr sig)"
  from kms_sign_Inr [OF this] show "length sig = 65 \<and> Ecrecover X h sig = Inr (publicKey s)"
    by (auto dest!: fill_length)
qed

end
