(* ===== verification/App.thy ===== *)
theory App
  imports Ticker Consumer Service Sender
begin

text \<open>
  cmd/meta-transaction-processor: the settings, the sub-commands, how the senders are made and
  numbered, the watchers and their loop, the migration command. Fatal log entries end the process
  (\<open>os.Exit\<close>), and so does a panic in a goroutine. The AWS client, the Kafka client, the
  database handle and the servers are opened by library calls; only whether they can be opened is
  an input here.
\<close>

section \<open>Settings\<close>

record Settings =
  MonitoringPort :: string
  KafkaServers :: string
  TransactionRequestTopic :: string
  TransactionStatusTopic :: string
  EthereumRPCURL :: string
  PrivateKeyMode :: bool
  KMSKeyID :: string
  KMSKeyIDs :: string
  SenderPrivateKey :: string
  SenderPrivateKeys :: string
  ConfirmationBlocks :: int
  BoostAfterBlocks :: int
  BlockTime :: int
  GRPCPort :: string
  AWSEndpoint :: string
  AWSRegion :: string
  DisableBoosting :: bool

section \<open>Senders\<close>

text \<open>\<open>strings.Split\<close> with a separator of one character.\<close>

fun Split :: "char \<Rightarrow> string \<Rightarrow> string list" where
  "Split sep [] = [[]]"
| "Split sep (c # s) =
     (if c = sep then [] # Split sep s
      else (case Split sep s of [] \<Rightarrow> [[c]] | p # ps \<Rightarrow> (c # p) # ps))"

datatype Sender = PrivateKey privateKeySender | Kms kmsSender

fun Sender_Address :: "Sender \<Rightarrow> address" where
  "Sender_Address (PrivateKey a) = pk_address a"
| "Sender_Address (Kms s) = kms_address s"

fun Sender_Sign :: "'pub crypto_lib \<Rightarrow> Sender \<Rightarrow> hash \<Rightarrow> (goerror + bytes) outcome" where
  "Sender_Sign X (PrivateKey a) h = Returned (privateKeySender_Sign X a h)"
| "Sender_Sign X (Kms s) h = kmsSender_Sign X s h"

text \<open>The loop over the keys: the first error ends it.\<close>

fun load_senders :: "(string \<Rightarrow> goerror + Sender) \<Rightarrow> string list \<Rightarrow> goerror + Sender list" where
  "load_senders load [] = Inr []"
| "load_senders load (k # ks) =
     (case load k of
        Inl err \<Rightarrow> Inl err
      | Inr send \<Rightarrow>
          (case load_senders load ks of Inl err \<Rightarrow> Inl err | Inr senders \<Rightarrow> Inr (send # senders)))"

definition map_ok :: "('a \<Rightarrow> 'b) \<Rightarrow> goerror + 'a \<Rightarrow> goerror + 'b" where
  "map_ok f r = (case r of Inl err \<Rightarrow> Inl err | Inr x \<Rightarrow> Inr (f x))"

text \<open>\<open>makeKMSClient\<close>: \<open>LoadDefaultConfig\<close> for the region may fail.\<close>

definition makeKMSClient :: "(string \<Rightarrow> goerror + 'conf) \<Rightarrow> Settings \<Rightarrow> goerror + 'conf \<times> string option" where
  "makeKMSClient LoadDefaultConfig settings =
     (case LoadDefaultConfig (AWSRegion settings) of
        Inl err \<Rightarrow> Inl (ErrWrap ''failed to load AWS config'' err)
      | Inr conf \<Rightarrow>
          Inr (conf, if AWSEndpoint settings \<noteq> [] then Some (AWSEndpoint settings) else None))"

definition createSenders ::
  "'pub crypto_lib \<Rightarrow> (string \<Rightarrow> goerror + 'conf) \<Rightarrow> Settings \<Rightarrow> goerror + Sender list" where
  "createSenders X LoadDefaultConfig settings =
     (if PrivateKeyMode settings
      then (let rawPKs = Split CHR '','' (SenderPrivateKeys settings)
            in load_senders (\<lambda>pk. map_ok PrivateKey (FromKey X pk)) rawPKs)
      else (case makeKMSClient LoadDefaultConfig settings of
              Inl err \<Rightarrow> Inl err
            | Inr kmsc \<Rightarrow>
                (let keyIDs = Split CHR '','' (KMSKeyIDs settings)
                 in load_senders (\<lambda>key. map_ok Kms (FromKMS X key)) keyIDs)))"

lemma Split_nonempty: "Split sep s \<noteq> []"
  by (cases s) (auto split: list.split)

lemma Split_length: "length (Split sep s) = Suc (count_list s sep)"
  by (induction s) (auto split: list.split simp: Split_nonempty)

lemma load_senders_length: "load_senders load ks = Inr ss \<Longrightarrow> length ss = length ks"
  by (induction ks arbitrary: ss) (auto split: sum.splits)

lemma load_senders_nth:
  "load_senders load ks = Inr ss \<Longrightarrow> i < length ks \<Longrightarrow> load (ks ! i) = Inr (ss ! i)"
  by (induction ks arbitrary: ss i) (auto simp: nth_Cons split: sum.splits nat.splits)

lemma createSenders_some:
  assumes "createSenders X L settings = Inr senders"
  shows "senders \<noteq> []"
proof -
  have "ss \<noteq> []" if "load_senders load (Split c s) = Inr ss" for load c s ss
    using load_senders_length [OF that] Split_nonempty [of c s] by auto
  with assms show ?thesis
    by (auto simp: createSenders_def Let_def split: if_splits sum.splits)
qed

section \<open>Sub-commands\<close>

datatype command =
    PrintKmsAddress string
  | Migrate string
  | Serve
  | Fatal string
  | IndexPanic

text \<open>
  What the arguments ask for (\<open>args\<close> is \<open>os.Args\<close> without the program's name). An unknown
  sub-command is logged and the service starts.
\<close>

definition main_command :: "string list \<Rightarrow> command" where
  "main_command args =
     (case args of
        [] \<Rightarrow> Serve
      | sub # rest \<Rightarrow>
          if sub = ''print-kms-address'' then
            (case rest of [] \<Rightarrow> Fatal ''Key id required.'' | key # _ \<Rightarrow> PrintKmsAddress key)
          else if sub = ''migrate'' then
            (case rest of
               [] \<Rightarrow> Migrate ''up''
             | command # args3 \<Rightarrow>
                 if command = ''down-to'' \<or> command = ''up-to'' then
                   (case args3 of
                      [] \<Rightarrow> IndexPanic
                    | version # _ \<Rightarrow> Migrate (command @ '' '' @ version))
                 else Migrate command)
          else Serve)"

section \<open>Migrations\<close>

datatype migration_call = OpenDB | PingDB | ExecSQL string | SetTableName string | GooseRun string

text \<open>
  The calls of \<open>migrateDatabase\<close> in order; each may fail, and a failure is fatal. The result is
  the calls that were made and the fatal message, if any.
\<close>

fun run_calls ::
  "(migration_call \<Rightarrow> goerror option) \<Rightarrow> (migration_call \<times> string) list \<Rightarrow>
   migration_call list \<times> string option" where
  "run_calls fails [] = ([], None)"
| "run_calls fails ((c, msg) # cs) =
     (case fails c of
        Some err \<Rightarrow> ([c], Some msg)
      | None \<Rightarrow> (let (done, res) = run_calls fails cs in (c # done, res)))"

definition migrateDatabase ::
  "(migration_call \<Rightarrow> goerror option) \<Rightarrow> string \<Rightarrow> migration_call list \<times> string option" where
  "migrateDatabase fails command =
     (let command = (if command = [] then ''up'' else command)
      in run_calls fails
           [(OpenDB, ''failed to open db connection''),
            (PingDB, ''failed to ping db''),
            (ExecSQL ''CREATE SCHEMA IF NOT EXISTS meta_transaction_processor;'',
              ''could not create schema''),
            (SetTableName ''meta_transaction_processor.migrations'', ''''),
            (GooseRun command, ''failed to apply go code migrations'')])"

section \<open>The watchers\<close>

text \<open>The loop over the senders: the watcher of slot \<open>i\<close> has wallet index \<open>i\<close>.\<close>

definition watchers :: "Settings \<Rightarrow> int \<Rightarrow> Sender list \<Rightarrow> Watcher list" where
  "watchers settings chain senders =
     map (\<lambda>(i, sender). New_Watcher (ConfirmationBlocks settings) (BoostAfterBlocks settings) chain
            (Sender_Address sender) (int i) (DisableBoosting settings))
       (enumerate 0 senders)"

definition numWallets :: "Sender list \<Rightarrow> int" where
  "numWallets senders = int (length senders)"

lemma watchers_length [simp]: "length (watchers settings chain senders) = length senders"
  by (simp add: watchers_def)

lemma watchers_walletIndex:
  "map walletIndex (watchers settings chain senders) = map int [0..<length senders]"
  by (simp add: watchers_def New_Watcher_def comp_def case_prod_unfold enumerate_eq_zip
      map_fst_zip flip: map_map [of int fst, unfolded comp_def])

lemma watchers_distinct: "distinct (map walletIndex (watchers settings chain senders))"
  by (simp add: watchers_walletIndex distinct_map)

lemma watchers_cover:
  "walletIndex ` set (watchers settings chain senders) = {0 ..< numWallets senders}"
proof -
  have "walletIndex ` set (watchers settings chain senders) = int ` {0 ..< length senders}"
    using arg_cong [OF watchers_walletIndex [of settings chain senders], of set] by simp
  then show ?thesis by (simp add: numWallets_def image_int_atLeastLessThan)
qed

section \<open>The loop of a watcher\<close>

datatype wakeup = Fired | Cancelled

text \<open>
  The loop of a watcher's goroutine, run on what its \<open>select\<close> yields: \<open>Returned True\<close> when the context
  is done, \<open>Returned False\<close> while it waits for more.
\<close>

fun watch_loop :: "boil_env \<Rightarrow> eth_lib \<Rightarrow> Watcher \<Rightarrow> wakeup list \<Rightarrow> bool outcome prog" where
  "watch_loop B E w [] = Ret (Returned False)"
| "watch_loop B E w (Fired # ws) = CallInc TicksTotal
     (bind_prog (Tick B E w) (\<lambda>res.
        case res of
          Panicked p \<Rightarrow> Ret (Panicked p)
        | Returned None \<Rightarrow> watch_loop B E w ws
        | Returned (Some err) \<Rightarrow>
            CallInc (TickErrorsTotal (Itoa (walletIndex w))) (watch_loop B E w ws)))"
| "watch_loop B E w (Cancelled # ws) = Ret (Returned True)"

text \<open>
  The goroutine from its start: \<open>time.NewTicker\<close> panics on an interval that is not positive. The
  interval is computed on \<open>time.Duration\<close>, nanoseconds in 64 bits, and may wrap around.
\<close>

definition ticker_interval :: "int \<Rightarrow> int" where
  "ticker_interval secs = sint (of_int secs * 1000000000 :: 64 word)"

definition ticker_panic :: string where
  "ticker_panic = ''non-positive interval for NewTicker''"

definition watcher_goroutine ::
  "boil_env \<Rightarrow> eth_lib \<Rightarrow> int \<Rightarrow> Watcher \<Rightarrow> wakeup list \<Rightarrow> bool outcome prog" where
  "watcher_goroutine B E secs w ws =
     (if ticker_interval secs \<le> 0 then Ret (Panicked ticker_panic) else watch_loop B E w ws)"

lemma watcher_goroutine_cases:
  "watcher_goroutine B E secs w ws = watch_loop B E w ws \<or>
   (ticker_interval secs \<le> 0 \<and> watcher_goroutine B E secs w ws = Ret (Panicked ticker_panic))"
  by (simp add: watcher_goroutine_def)

text \<open>A tick that returns without an error brings the loop to its next turn.\<close>

lemma watch_loop_tick:
  assumes "run_trace (Tick B E w) es = Some ok"
  shows "run_trace (watch_loop B E w (Fired # ws)) (Inc TicksTotal # es @ fs) =
    run_trace (watch_loop B E w ws) fs"
  using run_bind [OF assms, where f = "\<lambda>res.
        case res of
          Panicked p \<Rightarrow> Ret (Panicked p)
        | Returned None \<Rightarrow> watch_loop B E w ws
        | Returned (Some err) \<Rightarrow>
            CallInc (TickErrorsTotal (Itoa (walletIndex w))) (watch_loop B E w ws)"]
  by (simp add: run_trace_append)

section \<open>The start of the service\<close>

text \<open>
  What \<open>main\<close> gets from outside: the settings file, the AWS configuration, the connections, the
  chain id, and which call of a migration fails. Waiting for the database does not return before
  it is there.
\<close>

record ('eth, 'kafka, 'kp, 'conf) platform =
  LoadConfig :: "goerror + Settings"
  LoadDefaultConfig :: "string \<Rightarrow> goerror + 'conf"
  Dial :: "string \<Rightarrow> goerror + 'eth"
  NewClient :: "string list \<Rightarrow> goerror + 'kafka"
  NewSyncProducer :: "'kafka \<Rightarrow> goerror + 'kp"
  ChainID :: "'eth \<Rightarrow> goerror + int"
  migration_fails :: "migration_call \<Rightarrow> goerror option"

definition createKafka :: "('eth, 'kafka, 'kp, 'conf) platform \<Rightarrow> Settings \<Rightarrow> goerror + 'kafka" where
  "createKafka P settings = NewClient P (Split CHR '','' (KafkaServers settings))"

text \<open>What runs after the start: a consumer and one watcher per sender.\<close>

record service =
  request_topic :: string
  status_topic :: string
  consumer_wallets :: int
  ticking :: "Watcher list"
  tick_seconds :: int

datatype main_result =
    FatalExit string
  | IndexOutOfRange
  | KeyAddress address
  | Migrated
  | Started service

definition serve ::
  "('eth, 'kafka, 'kp, 'conf) platform \<Rightarrow> 'pub crypto_lib \<Rightarrow> Settings \<Rightarrow> main_result" where
  "serve P X settings =
     (case createSenders X (LoadDefaultConfig P) settings of
        Inl err \<Rightarrow> FatalExit ''Failed to create sender.''
      | Inr senders \<Rightarrow>
          (case Dial P (EthereumRPCURL settings) of
             Inl err \<Rightarrow> FatalExit ''Failed to create Ethereum client.''
           | Inr ethClient \<Rightarrow>
               (case createKafka P settings of
                  Inl err \<Rightarrow> FatalExit ''Failed to create Kafka client.''
                | Inr kafkaClient \<Rightarrow>
                    (case NewKafka (NewSyncProducer P kafkaClient) (TransactionStatusTopic settings) of
                       Inl err \<Rightarrow> FatalExit ''Failed to create Kafka transaction status producer.''
                     | Inr sprod \<Rightarrow>
                         (case ChainID P ethClient of
                            Inl err \<Rightarrow> FatalExit ''Couldn't retrieve chain id.''
                          | Inr chain \<Rightarrow>
                              Started \<lparr>request_topic = TransactionRequestTopic settings,
                                status_topic = snd sprod,
                                consumer_wallets = numWallets senders,
                                ticking = watchers settings chain senders,
                                tick_seconds = BlockTime settings\<rparr>)))))"

definition main ::
  "('eth, 'kafka, 'kp, 'conf) platform \<Rightarrow> 'pub crypto_lib \<Rightarrow> string list \<Rightarrow> main_result" where
  "main P X args =
     (case LoadConfig P of
        Inl err \<Rightarrow> FatalExit ''Couldn't load settings.''
      | Inr settings \<Rightarrow>
          (case main_command args of
             PrintKmsAddress key \<Rightarrow>
               (case makeKMSClient (LoadDefaultConfig P) settings of
                  Inl err \<Rightarrow> FatalExit ''Failed to load AWS config.''
                | Inr kmsc \<Rightarrow>
                    (case FromKMS X key of
                       Inl err \<Rightarrow> FatalExit ''Failed to construct account.''
                     | Inr send \<Rightarrow> KeyAddress (kms_address send)))
           | Migrate command \<Rightarrow>
               (case snd (migrateDatabase (migration_fails P) command) of
                  Some msg \<Rightarrow> FatalExit msg
                | None \<Rightarrow> Migrated)
           | Serve \<Rightarrow> serve P X settings
           | Fatal msg \<Rightarrow> FatalExit msg
           | IndexPanic \<Rightarrow> IndexOutOfRange))"

section \<open>The servers\<close>

text \<open>
  What runs beside the watchers: the gRPC server with the method of internal/rpc (its interceptors
  are \<open>unary_chain\<close>) and the monitoring server with its two routes. The result is the fatal message,
  if the server cannot be started or ends with an error; \<open>None\<close> while it serves.
\<close>

definition startGRPCServer ::
  "(string \<Rightarrow> string \<Rightarrow> goerror + 'listener) \<Rightarrow> ('listener \<Rightarrow> 'server \<Rightarrow> goerror option) \<Rightarrow> 'server \<Rightarrow>
   Settings \<Rightarrow> string option" where
  "startGRPCServer Listen serving server settings =
     (case Listen ''tcp'' ('':'' @ GRPCPort settings) of
        Inl err \<Rightarrow> Some ''Failed to listen for grpc server.''
      | Inr listen \<Rightarrow>
          (case serving listen server of
             Some err \<Rightarrow> Some ''gRPC server terminated unexpectedly''
           | None \<Rightarrow> None))"

datatype route = HealthCheck | Metrics

definition serveMonitoring ::
  "(string \<Rightarrow> goerror option) \<Rightarrow> string \<Rightarrow> (string \<times> route) list \<times> string option" where
  "serveMonitoring Listen port =
     ([(''/'', HealthCheck), (''/metrics'', Metrics)],
      case Listen ('':'' @ port) of
        Some err \<Rightarrow> Some ''Failed to start monitoring web server.''
      | None \<Rightarrow> None)"

text \<open>A service that has started has the watchers and the wallets of the senders it made.\<close>

lemma main_Started:
  assumes "main P X args = Started sv"
  shows "\<exists>settings senders chain. LoadConfig P = Inr settings \<and> main_command args = Serve \<and>
    createSenders X (LoadDefaultConfig P) settings = Inr senders \<and> senders \<noteq> [] \<and>
    ticking sv = watchers settings chain senders \<and> consumer_wallets sv = numWallets senders \<and>
    request_topic sv = TransactionRequestTopic settings \<and>
    status_topic sv = TransactionStatusTopic settings"
proof -
  from assms obtain settings where s: "LoadConfig P = Inr settings" "main_command args = Serve"
    "serve P X settings = Started sv"
    by (auto simp: main_def split: sum.splits command.splits option.splits)
  from s(3) obtain senders chain where c: "createSenders X (LoadDefaultConfig P) settings = Inr senders"
    "ticking sv = watchers settings chain senders" "consumer_wallets sv = numWallets senders"
    "request_topic sv = TransactionRequestTopic settings"
    "status_topic sv = TransactionStatusTopic settings"
    by (auto simp: serve_def NewKafka_def split: sum.splits)
  with s createSenders_some [OF c(1)] show ?thesis by blast
qed

end
