(* ===== verification/System.thy ===== *)
theory System
  imports Intake App
begin

text \<open>
  The running service: all watchers, all claims of the consumer and all calls of the RPC method,
  interleaved call by call on one table, with restarts of the whole process at any moment. The
  invariant of the table and the safety of every watcher hold in every state it can reach, and each
  step moves every request along an abstract life cycle, as long as Kafka has not delivered a request
  again that the RPC method had removed since the last start (the state remembers whether it has).
\<close>

declare One_nat_def [simp del]

section \<open>The life cycle of a request\<close>

datatype phase = Absent | Queued | InFlight | OnChain

fun rank :: "phase \<Rightarrow> nat" where
  "rank Absent = 0" | "rank Queued = 1" | "rank InFlight = 2" | "rank OnChain = 3"

lemma rank_inject: "rank p = rank p' \<longleftrightarrow> p = p'"
  by (cases p; cases p') auto

instantiation phase :: linorder
begin

definition less_eq_phase :: "phase \<Rightarrow> phase \<Rightarrow> bool" where
  "less_eq_phase p p' \<longleftrightarrow> rank p \<le> rank p'"

definition less_phase :: "phase \<Rightarrow> phase \<Rightarrow> bool" where
  "less_phase p p' \<longleftrightarrow> rank p < rank p'"

instance
  by standard (auto simp: less_eq_phase_def less_phase_def rank_inject)

end

definition phase_of :: "MetaTransactionRequest option \<Rightarrow> phase" where
  "phase_of x =
     (case x of
        None \<Rightarrow> Absent
      | Some r \<Rightarrow>
          if \<not> active r then Queued else if MinedBlockNumber r = None then InFlight else OnChain)"

text \<open>
  A request arrives, is submitted, is mined, may fall back when a reorganisation drops it, and
  leaves when it is confirmed or cannot be estimated.
\<close>

inductive lifecycle :: "phase \<Rightarrow> phase \<Rightarrow> bool" where
  arrive: "lifecycle Absent Queued"
| submit: "lifecycle Queued InFlight"
| mine: "lifecycle InFlight OnChain"
| reorg: "lifecycle OnChain InFlight"
| leave: "p \<noteq> Absent \<Longrightarrow> lifecycle p Absent"

inductive_cases lifecycleE: "lifecycle p p'"
inductive_simps lifecycle_Queued: "lifecycle p Queued"
inductive_simps lifecycle_InFlight: "lifecycle p InFlight"
inductive_simps lifecycle_OnChain: "lifecycle p OnChain"

abbreviation along :: "phase \<Rightarrow> phase \<Rightarrow> bool" where
  "along p p' \<equiv> p' = p \<or> lifecycle p p'"

lemma along_between:
  "p \<in> {InFlight, OnChain} \<Longrightarrow> p' \<in> {InFlight, OnChain} \<Longrightarrow> along p p'"
  by (auto intro: lifecycle.intros)

lemma along_Absent: "along p Absent"
  by (cases "p = Absent") (auto intro: leave)

lemma lifecycle_no_skip: "lifecycle p p' \<Longrightarrow> p < p' \<Longrightarrow> \<not> (\<exists>q. p < q \<and> q < p')"
  by (auto simp: less_phase_def elim!: lifecycleE)

section \<open>The steps of the service\<close>

text \<open>
  \<open>block_time\<close> is the setting the process was started with. Two history variables: \<open>removed\<close> are the
  ids the RPC method has removed since the last start; \<open>redelivered\<close> says that a claim has, at some
  time, stored a row again under such an id.
\<close>

record system =
  tab :: table
  watching :: "bool outcome prog list"
  receiving :: "claim_result outcome prog list"
  cleaning :: "(goerror + string) outcome prog list"
  block_time :: int
  removed :: "string set"
  redelivered :: bool

text \<open>A process that has just started: every watcher at its ticker, every claim at the head of its loop.\<close>

definition started ::
  "boil_env \<Rightarrow> eth_lib \<Rightarrow> consumer_lib \<Rightarrow> Watcher list \<Rightarrow> system \<Rightarrow> bool" where
  "started B E C ws s \<longleftrightarrow>
     list_all2 (\<lambda>w p. \<exists>wakeups. p = watcher_goroutine B E (block_time s) w wakeups) ws (watching s) \<and>
     list_all (\<lambda>p. \<exists>inputs. p = ConsumeClaim B C (int (length ws)) inputs) (receiving s) \<and>
     cleaning s = [] \<and> removed s = {}"

text \<open>A step and the calls it makes: one, or none.\<close>

inductive system_step ::
  "boil_env \<Rightarrow> eth_lib \<Rightarrow> consumer_lib \<Rightarrow> Watcher list \<Rightarrow> (string \<Rightarrow> string \<Rightarrow> bool) \<Rightarrow>
   system \<Rightarrow> event list \<Rightarrow> system \<Rightarrow> bool"
  for B E C ws le where
  watcher_call:
    "k < length (watching s) \<Longrightarrow> step_prog (watching s ! k) ev = Some p \<Longrightarrow>
     db_event le now ev (tab s) T \<Longrightarrow>
     system_step B E C ws le s [ev] (s\<lparr>tab := T, watching := (watching s)[k := p]\<rparr>)"
| claim_call:
    "k < length (receiving s) \<Longrightarrow> step_prog (receiving s ! k) ev = Some p \<Longrightarrow>
     db_event le now ev (tab s) T \<Longrightarrow> in_range ev \<Longrightarrow>
     system_step B E C ws le s [ev] (s\<lparr>tab := T, receiving := (receiving s)[k := p],
       redelivered := redelivered s \<or> ID ` set T \<inter> removed s \<noteq> {}\<rparr>)"
| rpc_arrives:
    "system_step B E C ws le s [] (s\<lparr>cleaning := cleaning s @ [CleanStuckMetaTransactions B]\<rparr>)"
| rpc_call:
    "k < length (cleaning s) \<Longrightarrow> step_prog (cleaning s ! k) ev = Some p \<Longrightarrow>
     db_event le now ev (tab s) T \<Longrightarrow>
     system_step B E C ws le s [ev] (s\<lparr>tab := T, cleaning := (cleaning s)[k := p],
       removed := removed s \<union> (ID ` set (tab s) - ID ` set T)\<rparr>)"
| restart:
    "started B E C ws s' \<Longrightarrow> tab s' = tab s \<Longrightarrow> redelivered s' = redelivered s \<Longrightarrow> system_step B E C ws le s [] s'"

inductive_cases system_stepE: "system_step B E C ws le s l s'"

text \<open>
  The service with the history of its calls. It starts on a table of requests none of which is
  submitted; the empty table is one.
\<close>

inductive service_run ::
  "boil_env \<Rightarrow> eth_lib \<Rightarrow> consumer_lib \<Rightarrow> Watcher list \<Rightarrow> (string \<Rightarrow> string \<Rightarrow> bool) \<Rightarrow>
   event list \<Rightarrow> system \<Rightarrow> bool"
  for B E C ws le where
  begins:
    "started B E C ws s \<Longrightarrow> \<not> redelivered s \<Longrightarrow> table_inv (tab s) \<Longrightarrow>
     (\<And>r. r \<in> set (tab s) \<Longrightarrow> \<not> active r) \<Longrightarrow> service_run B E C ws le [] s"
| goes_on:
    "service_run B E C ws le h s \<Longrightarrow> system_step B E C ws le s l s' \<Longrightarrow>
     service_run B E C ws le (h @ l) s'"

lemma step_calls: "system_step B E C ws le s l s' \<Longrightarrow> l = [] \<or> (\<exists>ev. l = [ev])"
  by (auto elim: system_stepE)

lemma step_redelivered: "system_step B E C ws le s l s' \<Longrightarrow> redelivered s \<Longrightarrow> redelivered s'"
  by (auto elim: system_stepE)

text \<open>Every history passes through all its beginnings.\<close>

lemma service_run_prefix:
  assumes "service_run B E C ws le (h @ h') s"
  shows "\<exists>s'. service_run B E C ws le h s' \<and> (redelivered s' \<longrightarrow> redelivered s)"
  using assms
proof (induction "h @ h'" s arbitrary: h' rule: service_run.induct)
  case (begins s)
  then show ?case by (blast intro: service_run.begins)
next
  case (goes_on h0 s l s')
  show ?case
  proof (cases "l = []")
    case True
    with goes_on step_redelivered [OF goes_on(3)] show ?thesis by auto
  next
    case False
    with step_calls [OF goes_on(3)] obtain ev where l: "l = [ev]" by blast
    show ?thesis
    proof (cases h' rule: rev_cases)
      case Nil
      with goes_on service_run.goes_on [OF goes_on(1,3)] show ?thesis by auto
    next
      case (snoc h1 e)
      with goes_on(4) l have "h0 = h @ h1" by simp
      with goes_on(2) step_redelivered [OF goes_on(3)] show ?thesis by blast
    qed
  qed
qed

section \<open>The loop of a watcher is safe\<close>

lemma watch_loop_safe:
  assumes "plain B" and "i = walletIndex w"
  shows "watch.safe le i (watch_loop B E w wakeups) q"
proof (induction wakeups arbitrary: q)
  case Nil
  then show ?case by simp
next
  case (Cons x wakeups)
  have tick: "watch.safe le i (bind_prog (Tick B E w) (\<lambda>res.
        case res of
          Panicked p \<Rightarrow> Ret (Panicked p)
        | Returned None \<Rightarrow> watch_loop B E w wakeups
        | Returned (Some err) \<Rightarrow>
            CallInc (TickErrorsTotal (Itoa (walletIndex w))) (watch_loop B E w wakeups))) q" for q
    by (rule safe_bind [OF Tick_safe [OF assms]])
      (auto simp: no_panic_def watch.admits_def Cons split: outcome.split option.split)
  show ?case
    by (cases x; cases q) (auto simp: watch.admits_def tick)
qed

text \<open>A goroutine that could not make its ticker has panicked and does nothing.\<close>

definition watch_ok ::
  "(string \<Rightarrow> string \<Rightarrow> bool) \<Rightarrow> int \<Rightarrow> int \<Rightarrow> bool outcome prog \<Rightarrow> view \<Rightarrow> bool" where
  "watch_ok le secs i p q \<longleftrightarrow> watch.safe le i p q \<or>
     (ticker_interval secs \<le> 0 \<and> p = Ret (Panicked ticker_panic))"

lemma watch_ok_step: "watch_ok le secs i p q \<Longrightarrow> step_prog p ev = Some p' \<Longrightarrow> watch.safe le i p q"
  by (auto simp: watch_ok_def)

section \<open>The RPC method is safe\<close>

text \<open>It removes one row it has read, and sends and announces nothing.\<close>

fun clean_rely :: "nat \<Rightarrow> event \<Rightarrow> bool" where
  "clean_rely n (Query ms (Inr rows)) = (\<forall>r \<in> set rows. length (ID r) = 27)"
| "clean_rely n ev = True"

fun clean_guar :: "nat \<Rightarrow> event \<Rightarrow> bool" where
  "clean_guar n (Exec (DELETE ids) res) = (\<exists>x. ids = [x] \<and> length x = 27)"
| "clean_guar n (Exec (UPDATE vs ids) res) = False"
| "clean_guar n (Exec (INSERT vs act ret) res) = False"
| "clean_guar n (Exec (UPDATE_WHERE vs ms) res) = False"
| "clean_guar n (Exec (DELETE_WHERE ms) res) = False"
| "clean_guar n (Notify msg) = False"
| "clean_guar n (SendTransaction st res) = False"
| "clean_guar n (MarkMessage msg) = False"
| "clean_guar n ev = True"

interpretation clean: monitor clean_rely clean_guar "\<lambda>n ev. n + 1" "\<lambda>n r. True" .

lemma Clean_safe:
  assumes "plain B"
  shows "clean.safe (CleanStuckMetaTransactions B) n"
  unfolding Clean_plain [OF assms]
  by (auto simp: clean.admits_def split: sum.split list.split)

section \<open>The invariant\<close>

definition sys_inv ::
  "consumer_lib \<Rightarrow> Watcher list \<Rightarrow> (string \<Rightarrow> string \<Rightarrow> bool) \<Rightarrow> system \<Rightarrow> bool" where
  "sys_inv C ws le s \<longleftrightarrow>
     table_inv (tab s) \<and> length (watching s) = length ws \<and>
     (\<forall>k < length ws. \<exists>q. watch_ok le (block_time s) (walletIndex (ws ! k)) (watching s ! k) q \<and>
        sound (removed s) (walletIndex (ws ! k)) q (tab s)) \<and>
     (\<forall>p \<in> set (receiving s). \<exists>inputs h. intake.safe C (int (length ws)) inputs p h) \<and>
     (\<forall>p \<in> set (cleaning s). \<exists>n. clean.safe p n) \<and>
     (\<forall>x \<in> removed s. rows_by_id (tab s) x = None)"

lemma started_inv:
  assumes "plain B" and "started B E C ws s" and "table_inv (tab s)"
  shows "sys_inv C ws le s"
proof -
  from assms(2) have l2: "list_all2 (\<lambda>w p. \<exists>wakeups. p = watcher_goroutine B E (block_time s) w wakeups) ws (watching s)"
    and rec: "list_all (\<lambda>p. \<exists>inputs. p = ConsumeClaim B C (int (length ws)) inputs) (receiving s)"
    and none: "cleaning s = []" "removed s = {}"
    by (simp_all add: started_def)
  have "\<exists>q. watch_ok le (block_time s) (walletIndex (ws ! k)) (watching s ! k) q \<and>
      sound (removed s) (walletIndex (ws ! k)) q (tab s)" if "k < length ws" for k
  proof -
    from list_all2_nthD [OF l2 that] obtain wk where
      "watching s ! k = watcher_goroutine B E (block_time s) (ws ! k) wk" by blast
    with watch_loop_safe [OF assms(1) refl] watcher_goroutine_cases [of B E "block_time s" "ws ! k" wk]
    have "watch_ok le (block_time s) (walletIndex (ws ! k)) (watching s ! k) q" for q
      unfolding watch_ok_def by metis
    with sound_start none(2) show ?thesis by metis
  qed
  moreover have "\<exists>inputs h. intake.safe C (int (length ws)) inputs p h" if "p \<in> set (receiving s)" for p
  proof -
    from rec that obtain inputs where "p = ConsumeClaim B C (int (length ws)) inputs"
      by (auto simp: list_all_iff)
    with ConsumeClaim_intake [OF assms(1) order_refl] show ?thesis by metis
  qed
  ultimately show ?thesis
    using assms(3) list_all2_lengthD [OF l2] none by (simp add: sys_inv_def)
qed

text \<open>One call of a watcher, of a claim, of the RPC method, seen by everyone.\<close>

lemma watcher_event:
  assumes "table_inv T" and "watch.safe le i p q" and "sound R i q T"
    and "step_prog p ev = Some p'" and "db_event le now ev T T'"
  shows "watch_guar q ev \<and> watch.safe le i p' (watch_next i q ev) \<and>
    table_inv T' \<and> sound R i (watch_next i q ev) T' \<and> touches_only i T T'"
proof -
  have "watch_rely le i q ev" by (rule db_event_rely [OF assms(1,3,5)])
  with watch.safe_step [OF assms(2,4)] have g: "watch_guar q ev" "watch.safe le i p' (watch_next i q ev)"
    by auto
  with watch_step [OF assms(1,3) g(1) assms(5)] show ?thesis by simp
qed

lemma claim_event:
  assumes "table_inv T" and "intake.safe C n inputs p h" and "step_prog p ev = Some p'"
    and "db_event le now ev T T'" and "in_range ev"
  shows "intake.safe C n inputs p' (h @ [ev]) \<and> intake_event C n inputs ev \<and> table_inv T' \<and>
    (\<forall>R j q. sound R j q T \<and> (\<forall>x \<in> R. rows_by_id T' x = None) \<longrightarrow> sound R j q T')"
proof -
  have "intake_rely h ev"
    using assms(4,5) by (cases "(h, ev)" rule: intake_rely.cases) (auto simp: in_range_def)
  with intake.safe_step [OF assms(2,3)] have safe: "intake.safe C n inputs p' (h @ [ev])"
    and ev: "intake_event C n inputs ev" by (auto simp: intake_event_def)
  have "table_inv T' \<and> (\<forall>R j q. sound R j q T \<and> (\<forall>x \<in> R. rows_by_id T' x = None) \<longrightarrow> sound R j q T')"
  proof (cases "\<exists>s res. ev = Exec s res \<and> T' \<noteq> T")
    case False
    with assms(4) have "T' = T" by (cases "\<exists>s res. ev = Exec s res") (auto dest: db_event_no_exec)
    with assms(1) show ?thesis by simp
  next
    case True
    then obtain s res where e: "ev = Exec s res" "T' \<noteq> T" by blast
    with ev obtain msg where st: "arrival_stmt C n msg s" by (auto simp: intake_event_def)
    from arrival_data [OF st] obtain data where data: "Unmarshal C (Value msg) = Inr data" by blast
    from assms(4) e db_event_exec obtain re where "run_stmt le now s T = Some (re, T')" by blast
    from arrival_step [OF assms(1) st data this] show ?thesis by simp
  qed
  with safe ev show ?thesis by simp
qed

lemma rpc_event:
  assumes inv: "table_inv T" and "clean.safe p n" and "step_prog p ev = Some p'"
    and db: "db_event le now ev T T'"
  shows "clean.safe p' (n + 1) \<and> clean_guar n ev \<and> table_inv T' \<and>
    (\<forall>R i q. sound R i q T \<longrightarrow> sound (R \<union> (ID ` set T - ID ` set T')) i q T') \<and>
    (\<forall>x. rows_by_id T' x \<in> {None, rows_by_id T x})"
proof -
  have "clean_rely n ev"
    using db table_inv_rows_of [OF inv] answers_mem
    by (cases "(n, ev)" rule: clean_rely.cases) fastforce+
  with clean.safe_step [OF assms(2,3)] have safe: "clean.safe p' (n + 1)" and guar: "clean_guar n ev" by auto
  have "table_inv T' \<and> (\<forall>R i q. sound R i q T \<longrightarrow> sound (R \<union> (ID ` set T - ID ` set T')) i q T') \<and>
    (\<forall>x. rows_by_id T' x \<in> {None, rows_by_id T x})"
  proof (cases "T' = T")
    case True
    with inv show ?thesis by simp
  next
    case False
    with db db_event_no_exec obtain s res where e: "ev = Exec s res" by metis
    with guar obtain x where x: "s = DELETE [x]" "length x = 27" by (cases s) auto
    from db e False db_event_exec x obtain re where run: "run_DELETE [x] T = Some (re, T')" by fastforce
    note step = delete_step [OF inv x(2) run]
    have gone: "ID ` set T - ID ` set T' = (if rows_by_id T x = None then {} else {x})"
      using step by (auto simp: rows_by_id_None [symmetric] set_eq_iff split: if_splits)
        (metis rows_by_id_None fun_upd_apply option.distinct(1))+
    have "sound (R \<union> (ID ` set T - ID ` set T')) i q T'" if snd: "sound R i q T" for R i q
    proof (cases "rows_by_id T x = None")
      case True
      with step have "rows_by_id T' = rows_by_id T" by (simp add: fun_upd_idem)
      with sound_same_rows [OF snd] True show ?thesis by (simp add: gone)
    next
      case False
      then have "ID ` set T - ID ` set T' = {x}" by (simp only: gone if_False)
      with removed_stable [OF inv snd x(2) run] show ?thesis by simp
    qed
    with step show ?thesis by simp
  qed
  with safe guar show ?thesis by simp
qed

lemma system_step_inv:
  assumes B: "plain B" and dist: "distinct (map walletIndex ws)"
    and inv: "sys_inv C ws le s" and st: "system_step B E C ws le s l s'" and once: "\<not> redelivered s'"
  shows "sys_inv C ws le s'"
  using st
proof cases
  case (watcher_call k ev p now T)
  let ?i = "\<lambda>k. walletIndex (ws ! k)"
  from inv watcher_call(3) obtain q where k: "k < length ws"
    and w: "watch_ok le (block_time s) (?i k) (watching s ! k) q" "sound (removed s) (?i k) q (tab s)"
    by (auto simp: sys_inv_def)
  note q = watch_ok_step [OF w(1) watcher_call(4)] w(2)
  have tinv: "table_inv (tab s)" using inv by (simp add: sys_inv_def)
  note ev = watcher_event [OF tinv q watcher_call(4,5)]
  have "\<exists>q. watch_ok le (block_time s) (?i j) ((watching s)[k := p] ! j) q \<and> sound (removed s) (?i j) q T"
    if j: "j < length ws" for j
  proof (cases "j = k")
    case True
    with ev watcher_call(3) show ?thesis
      by (intro exI [of _ "watch_next (?i k) q ev"]) (simp add: watch_ok_def)
  next
    case False
    from inv j obtain qj where "watch_ok le (block_time s) (?i j) (watching s ! j) qj"
      "sound (removed s) (?i j) qj (tab s)"
      by (auto simp: sys_inv_def)
    moreover have "?i j \<noteq> ?i k"
      using dist False j k by (simp add: distinct_conv_nth)
    moreover have "touches_only (?i k) (tab s) T" using ev by blast
    ultimately have "sound (removed s) (?i j) qj T" using touches_stable by blast
    with \<open>watch_ok le (block_time s) (?i j) (watching s ! j) qj\<close> False show ?thesis
      by (intro exI [of _ qj]) simp
  qed
  moreover have "\<forall>x \<in> removed s. rows_by_id T x = None" using ev by (simp add: sound_def)
  ultimately show ?thesis using ev inv by (simp add: watcher_call(1,2) sys_inv_def)
next
  case (claim_call k ev p now T)
  from inv claim_call(3) obtain inputs h where safe: "intake.safe C (int (length ws)) inputs (receiving s ! k) h"
    by (fastforce simp: sys_inv_def)
  have tinv: "table_inv (tab s)" using inv by (simp add: sys_inv_def)
  note ev = claim_event [OF tinv safe claim_call(4,5,6)]
  have gone: "\<forall>x \<in> removed s. rows_by_id T x = None"
    using once claim_call(2) by (auto simp: rows_by_id_None)
  have "\<exists>inputs h. intake.safe C (int (length ws)) inputs p' h" if "p' \<in> set ((receiving s)[k := p])" for p'
  proof -
    from that have "p' = p \<or> p' \<in> set (receiving s)"
      using set_update_subset_insert by fastforce
    with ev inv show ?thesis unfolding sys_inv_def by blast
  qed
  moreover have "\<exists>q. watch_ok le (block_time s) (walletIndex (ws ! j)) (watching s ! j) q \<and>
      sound (removed s) (walletIndex (ws ! j)) q T" if "j < length ws" for j
    using inv ev that gone unfolding sys_inv_def by blast
  ultimately show ?thesis using ev inv gone by (simp add: claim_call(1,2) sys_inv_def)
next
  case rpc_arrives
  with inv Clean_safe [OF B] show ?thesis by (auto simp: sys_inv_def)
next
  case (rpc_call k ev p now T)
  from inv rpc_call(3) obtain n where safe: "clean.safe (cleaning s ! k) n"
    by (fastforce simp: sys_inv_def)
  have tinv: "table_inv (tab s)" using inv by (simp add: sys_inv_def)
  note ev = rpc_event [OF tinv safe rpc_call(4,5)]
  have "\<exists>n. clean.safe p' n" if "p' \<in> set ((cleaning s)[k := p])" for p'
  proof -
    from that have "p' = p \<or> p' \<in> set (cleaning s)"
      using set_update_subset_insert by fastforce
    with ev inv show ?thesis unfolding sys_inv_def by blast
  qed
  moreover have "rows_by_id T x = None" if "x \<in> removed s \<union> (ID ` set (tab s) - ID ` set T)" for x
  proof (cases "x \<in> removed s")
    case True
    with inv have "rows_by_id (tab s) x = None" by (simp add: sys_inv_def)
    with ev show ?thesis by (metis empty_iff insert_iff)
  next
    case False
    with that show ?thesis by (simp add: rows_by_id_None)
  qed
  moreover have "\<exists>q. watch_ok le (block_time s) (walletIndex (ws ! j)) (watching s ! j) q \<and>
      sound (removed s \<union> (ID ` set (tab s) - ID ` set T)) (walletIndex (ws ! j)) q T" if "j < length ws" for j
    using inv ev that unfolding sys_inv_def by blast
  ultimately show ?thesis using ev inv by (simp add: rpc_call(1,2) sys_inv_def)
next
  case restart
  from inv have "table_inv (tab s')" unfolding restart(3) sys_inv_def by simp
  then show ?thesis by (rule started_inv [OF B restart(2)])
qed

lemma service_run_inv:
  assumes "plain B" and "distinct (map walletIndex ws)" and "service_run B E C ws le h s"
    and "\<not> redelivered s"
  shows "sys_inv C ws le s"
  using assms(3,4)
proof induction
  case (begins s)
  then show ?case by (intro started_inv [OF assms(1)])
next
  case (goes_on h s l s')
  then show ?case using system_step_inv [OF assms(1,2)] step_redelivered by metis
qed

section \<open>Every step moves every request along its life cycle\<close>

lemma phase_active: "active r \<Longrightarrow> phase_of (Some r) \<in> {InFlight, OnChain}"
  by (simp add: phase_of_def)

lemma update_phase:
  assumes inv: "table_inv T" and snd: "sound R i q T" and ok: "update_allowed q vs x"
    and run: "run_UPDATE vs [x] T = Some (res, T')"
  shows "along (phase_of (rows_by_id T k)) (phase_of (rows_by_id T' k))"
proof (cases "rows_by_id T' = rows_by_id T")
  case True
  then show ?thesis by simp
next
  case False
  with update_step [OF assms] obtain r r' where r: "rows_by_id T x = Some r" "WalletIndex r = i"
    and ch: "changed_row vs r = Some r'" and rows: "rows_by_id T' = (rows_by_id T)(x \<mapsto> r')"
    and act: "active r'" "map_of vs Col_submitted_block_number = None \<longrightarrow> active r"
    by (elim exE conjE disjE) (simp, rule that)
  show ?thesis
  proof (cases "k = x")
    case False
    with rows show ?thesis by simp
  next
    case True
    show ?thesis
    proof (cases "map_of vs Col_submitted_block_number = None")
      case True
      with act have "active r" "active r'" by simp_all
      with r(1) rows \<open>k = x\<close> phase_active show ?thesis by (simp add: along_between)
    next
      case False
      with ok have idle: "fst q = Idle" and mined: "map_of vs Col_mined_block_number = None"
        and d: "distinct (map fst vs)" by (auto simp: update_allowed_def)
      with snd r have na: "\<not> active r" by (auto simp: sound_def idle_def)
      with table_inv_row [OF inv r(1)] have "MinedBlockNumber r = None" by (simp add: row_wf_def)
      with changed_row_field [OF ch d, of Col_mined_block_number] mined
      have "MinedBlockNumber r' = None" by simp
      with r(1) rows na act(1) True show ?thesis by (auto simp: phase_of_def intro: submit)
    qed
  qed
qed

lemma watch_phase:
  assumes inv: "table_inv T" and snd: "sound R i q T" and guar: "watch_guar q ev"
    and db: "db_event le now ev T T'"
  shows "along (phase_of (rows_by_id T k)) (phase_of (rows_by_id T' k))"
proof (cases "\<exists>s res re. ev = Exec s res \<and> run_stmt le now s T = Some (re, T')")
  case False
  with db have "T' = T"
    by (cases "\<exists>s res. ev = Exec s res") (auto dest: db_event_no_exec db_event_exec)
  then show ?thesis by simp
next
  case True
  then obtain s res re where ev: "ev = Exec s res" and run: "run_stmt le now s T = Some (re, T')" by blast
  show ?thesis
  proof (cases s)
    case (UPDATE vs ids)
    with guar ev obtain x where "ids = [x]" "update_allowed q vs x" by auto
    with update_phase [OF inv snd] run UPDATE show ?thesis by auto
  next
    case (DELETE ids)
    with guar ev obtain x where x: "ids = [x]" "length x = 27" by auto
    with run DELETE delete_step [OF inv x(2)] have "rows_by_id T' = (rows_by_id T)(x := None)" by auto
    then show ?thesis by (cases "k = x") (simp_all add: phase_of_def [of None] along_Absent)
  qed (use guar ev in simp_all)
qed

lemma intake_phase:
  assumes inv: "table_inv T" and guar: "intake_event C n inputs ev"
    and db: "db_event le now ev T T'"
  shows "along (phase_of (rows_by_id T k)) (phase_of (rows_by_id T' k))"
proof (cases "\<exists>s res re. ev = Exec s res \<and> run_stmt le now s T = Some (re, T')")
  case False
  with db have "T' = T"
    by (cases "\<exists>s res. ev = Exec s res") (auto dest: db_event_no_exec db_event_exec)
  then show ?thesis by simp
next
  case True
  then obtain s res re where ev: "ev = Exec s res" and run: "run_stmt le now s T = Some (re, T')" by blast
  with guar obtain msg where st: "arrival_stmt C n msg s" by (auto simp: intake_event_def)
  from arrival_data [OF st] obtain data where data: "Unmarshal C (Value msg) = Inr data" by blast
  show ?thesis
  proof (cases "rows_by_id T (EventData_ID data)")
    case None
    with arrival_step [OF inv st data run] obtain r where
      r: "is_new r" "rows_by_id T' = (rows_by_id T)(EventData_ID data \<mapsto> r)" by auto
    then have "phase_of (Some r) = Queued" using is_new_inactive [of r] by (simp add: phase_of_def)
    with None r(2) show ?thesis
      by (cases "k = EventData_ID data") (auto simp: phase_of_def [of None] intro: arrive)
  next
    case (Some r)
    with arrival_step [OF inv st data run] have "rows_by_id T' = rows_by_id T" by simp
    then show ?thesis by simp
  qed
qed

lemma system_step_phase:
  assumes inv: "sys_inv C ws le s" and st: "system_step B E C ws le s l s'"
  shows "along (phase_of (rows_by_id (tab s) k)) (phase_of (rows_by_id (tab s') k))"
  using st
proof cases
  case (watcher_call j ev p now T)
  from inv watcher_call(3) obtain q where
    w: "watch_ok le (block_time s) (walletIndex (ws ! j)) (watching s ! j) q"
      "sound (removed s) (walletIndex (ws ! j)) q (tab s)"
    by (auto simp: sys_inv_def)
  note q = watch_ok_step [OF w(1) watcher_call(4)] w(2)
  have tinv: "table_inv (tab s)" using inv by (simp add: sys_inv_def)
  from watcher_event [OF tinv q watcher_call(4,5)] have "watch_guar q ev" by simp
  from watch_phase [OF tinv q(2) this watcher_call(5)] show ?thesis by (simp add: watcher_call(2))
next
  case (claim_call j ev p now T)
  from inv claim_call(3) obtain inputs h where safe: "intake.safe C (int (length ws)) inputs (receiving s ! j) h"
    by (fastforce simp: sys_inv_def)
  have tinv: "table_inv (tab s)" using inv by (simp add: sys_inv_def)
  from claim_event [OF tinv safe claim_call(4,5,6)]
  have "intake_event C (int (length ws)) inputs ev" by simp
  from intake_phase [OF tinv this claim_call(5)] show ?thesis by (simp add: claim_call(2))
next
  case (rpc_call j ev p now T)
  from inv rpc_call(3) obtain n where safe: "clean.safe (cleaning s ! j) n"
    by (fastforce simp: sys_inv_def)
  have tinv: "table_inv (tab s)" using inv by (simp add: sys_inv_def)
  from rpc_event [OF tinv safe rpc_call(4,5)]
  have rows: "rows_by_id T k \<in> {None, rows_by_id (tab s) k}" by blast
  have "phase_of None = Absent" by (simp add: phase_of_def)
  with rows along_Absent [of "phase_of (rows_by_id (tab s) k)"] show ?thesis
    by (elim insertE) (simp_all add: rpc_call(2))
next
  case restart
  then show ?thesis by simp
qed simp

section \<open>Executions of one program inside the service\<close>

text \<open>Other programs may wait while one makes its calls.\<close>

lemma service_run_claim:
  assumes "service_run B E C ws le h s" and "k < length (receiving s)"
    and "run_trace (receiving s ! k) es = Some p'" and "db_run le es (tab s) T'"
    and "list_all in_range es" and "removed s = {}"
  shows "service_run B E C ws le (h @ es) (s\<lparr>tab := T', receiving := (receiving s)[k := p']\<rparr>)"
  using assms
proof (induction es arbitrary: s h)
  case Nil
  then have "s\<lparr>tab := T', receiving := (receiving s)[k := p']\<rparr> = s"
    by (cases s) auto
  with Nil show ?case by simp
next
  case (Cons e es)
  from Cons.prems(4) obtain now T1 where db: "db_event le now e (tab s) T1" "db_run le es T1 T'"
    by (auto elim: db_run_ConsE)
  from Cons.prems(3) obtain p1 where p1: "step_prog (receiving s ! k) e = Some p1" "run_trace p1 es = Some p'"
    by (auto split: option.splits)
  let ?s = "s\<lparr>tab := T1, receiving := (receiving s)[k := p1]\<rparr>"
  from Cons.prems(5) have rng: "in_range e" "list_all in_range es" by simp_all
  have "s\<lparr>tab := T1, receiving := (receiving s)[k := p1], redelivered := redelivered s \<or>
      ID ` set T1 \<inter> removed s \<noteq> {}\<rparr> = ?s" using Cons.prems(6) by simp
  have "service_run B E C ws le (h @ [e]) ?s"
    using goes_on [OF Cons.prems(1) claim_call [OF Cons.prems(2) p1(1) db(1) rng(1)]] Cons.prems(6)
    by simp
  from Cons.IH [OF this] p1(2) db(2) rng(2) Cons.prems(2,6) show ?case by simp
qed

lemma service_run_watcher:
  assumes "service_run B E C ws le h s" and "k < length (watching s)"
    and "run_trace (watching s ! k) es = Some p'" and "db_run le es (tab s) T'"
  shows "service_run B E C ws le (h @ es) (s\<lparr>tab := T', watching := (watching s)[k := p']\<rparr>)"
  using assms
proof (induction es arbitrary: s h)
  case Nil
  then have "s\<lparr>tab := T', watching := (watching s)[k := p']\<rparr> = s"
    by (cases s) auto
  with Nil show ?case by simp
next
  case (Cons e es)
  from Cons.prems(4) obtain now T1 where db: "db_event le now e (tab s) T1" "db_run le es T1 T'"
    by (auto elim: db_run_ConsE)
  from Cons.prems(3) obtain p1 where p1: "step_prog (watching s ! k) e = Some p1" "run_trace p1 es = Some p'"
    by (auto split: option.splits)
  let ?s = "s\<lparr>tab := T1, watching := (watching s)[k := p1]\<rparr>"
  have "service_run B E C ws le (h @ [e]) ?s"
    by (rule goes_on [OF Cons.prems(1) watcher_call [OF Cons.prems(2) p1(1) db(1)]])
  from Cons.IH [OF this] p1(2) db(2) Cons.prems(2) show ?case by simp
qed

end
