(* ===== verification/Tick_Log.thy ===== *)
theory Tick_Log
  imports Ticker
begin

text \<open>
  What a tick says and sends, given what happened earlier in the same tick: a monitor whose state
  is the list of events so far. Each clause of \<open>tick_guar\<close> names the earlier events that a call
  needs; the walk \<open>Tick_log\<close> proves them all at once, and the theorems at the end read them off
  an execution. Nothing is assumed about the answers.
\<close>

section \<open>What a call needs\<close>

definition is_send :: "event \<Rightarrow> bool" where
  "is_send ev \<longleftrightarrow> (case ev of SendTransaction st res \<Rightarrow> True | _ \<Rightarrow> False)"

lemma is_send_simps [simp]:
  "is_send (SendTransaction st res)" "\<not> is_send (Now t)" "\<not> is_send (Query ms rs)"
  "\<not> is_send (Exec s re)" "\<not> is_send (HeaderByNumber he)" "\<not> is_send (TransactionReceipt h rc)"
  "\<not> is_send (SuggestGasPrice p)" "\<not> is_send (EstimateGas c g)" "\<not> is_send (PendingNonceAt a n)"
  "\<not> is_send (Sign h s')" "\<not> is_send (Notify m)" "\<not> is_send (SetGauge ga v)"
  by (simp_all add: is_send_def)

text \<open>The request was read, as the first row of an answer.\<close>

definition was_read :: "event list \<Rightarrow> MetaTransactionRequest \<Rightarrow> bool" where
  "was_read h r \<longleftrightarrow> (\<exists>ms rs. Query ms (Inr (r # rs)) \<in> set h)"

text \<open>
  A transaction may be sent when none was before, its gas was estimated for the very call it
  makes, and the signature the signer gave for it is the one attached. A replacement is sent right
  after the UPDATE that gives its row the new hash, price and nonce has been answered without an
  error. The price is computed from the suggestion just read: twice it, or the price of a replacement.
\<close>

definition prepared ::
  "eth_lib \<Rightarrow> Watcher \<Rightarrow> event list \<Rightarrow> MetaTransactionRequest \<Rightarrow> SignedTx \<Rightarrow> bool" where
  "prepared E w h r st \<longleftrightarrow>
     \<not> list_ex is_send h \<and>
     (\<exists>s price gas nonce sig.
        SuggestGasPrice (Inr s) \<in> set h \<and>
        EstimateGas (call_msg E w r price) (Inr gas) \<in> set h \<and>
        Sign (SignerHash E (chainID w) (legacy_tx nonce price (2 * gas) (call_msg E w r price)))
          (Inr sig) \<in> set h \<and>
        WithSignature E (chainID w) (legacy_tx nonce price (2 * gas) (call_msg E w r price)) sig
          = Inr st \<and>
        (PendingNonceAt (senderAddress w) (Inr nonce) \<in> set h \<and> price = 2 * s \<or>
         (\<exists>n old vs res. Nonce r = Some n \<and> nonce = DecimalUint64 E n \<and>
            GasPrice r = Some old \<and> price = boost_price s old \<and>
            (\<exists>h'. h = h' @ [Exec (UPDATE vs [ID r]) (Inr res)]) \<and>
            map_of vs Col_hash = Some (VBytes (HashBytes E (TxHash E st))) \<and>
            map_of vs Col_gas_price = Some (VNum price) \<and>
            map_of vs Col_nonce = Some (VNum (uint nonce)))))"

definition receipt_for :: "eth_lib \<Rightarrow> event list \<Rightarrow> MetaTransactionRequest \<Rightarrow> Receipt \<Rightarrow> bool" where
  "receipt_for E h r rec \<longleftrightarrow>
     TransactionReceipt (BytesToHash E (null_bytes (Hash r))) (Inr rec) \<in> set h"

text \<open>The transaction makes the call of the request.\<close>

definition carries :: "eth_lib \<Rightarrow> MetaTransactionRequest \<Rightarrow> SignedTx \<Rightarrow> bool" where
  "carries E r st \<longleftrightarrow>
     (\<exists>w nonce price gas sig. WithSignature E (chainID w)
        (legacy_tx nonce price gas (call_msg E w r price)) sig = Inr st)"

text \<open>
  What an UPDATE needs: it concerns the request that was read; a block is recorded for it only
  when one was already, or after it has been announced as mined; it is marked submitted only
  after a transaction with its call has been accepted.
\<close>

definition update_needs ::
  "eth_lib \<Rightarrow> event list \<Rightarrow> MetaTransactionRequest \<Rightarrow> (col \<times> sql_value) list \<Rightarrow> bool" where
  "update_needs E h r vs \<longleftrightarrow>
     (map_of vs Col_mined_block_number \<in> {None, Some VNull} \<or> MinedBlockNumber r \<noteq> None \<or>
      (\<exists>m. Notify (Mined m) \<in> set h \<and> MinedMsg_ID m = ID r)) \<and>
     (map_of vs Col_submitted_block_number = None \<or>
      (\<exists>st. SendTransaction st None \<in> set h \<and> carries E r st))"

definition terminal :: "Producer \<Rightarrow> bool" where
  "terminal m \<longleftrightarrow> (case m of Confirmed c \<Rightarrow> True | Failed f \<Rightarrow> True | _ \<Rightarrow> False)"

fun tick_guar :: "eth_lib \<Rightarrow> Watcher \<Rightarrow> event list \<Rightarrow> event \<Rightarrow> bool" where
  "tick_guar E w h (SendTransaction st res) = (\<exists>r. was_read h r \<and> prepared E w h r st)"
| "tick_guar E w h (Notify (Submitted m)) =
     (\<exists>r st vs n. was_read h r \<and> ID r = SubmittedMsg_ID m \<and>
        SendTransaction st None \<in> set h \<and> carries E r st \<and> TxHash E st = SubmittedMsg_Hash m \<and>
        (\<exists>h'. h = h' @ [Exec (UPDATE vs [ID r]) (Inr n)]) \<and>
        map_of vs Col_hash = Some (VBytes (HashBytes E (SubmittedMsg_Hash m))))"
| "tick_guar E w h (Notify (Mined m)) =
     (\<exists>r rec. was_read h r \<and> ID r = MinedMsg_ID m \<and> MinedBlockNumber r = None \<and>
        SubmittedBlockNumber r \<noteq> None \<and>
        MinedMsg_Hash m = BytesToHash E (null_bytes (Hash r)) \<and> receipt_for E h r rec)"
| "tick_guar E w h (Notify (Confirmed m)) =
     (\<exists>r rec head. was_read h r \<and> MinedBlockNumber r \<noteq> None \<and> receipt_for E h r rec \<and>
        HeaderByNumber (Inr head) \<in> set h \<and>
        Number head - BlockNumber rec \<ge> confirmationBlocks w \<and>
        m = confirmed_msg E rec r)"
| "tick_guar E w h (Notify (Failed m)) =
     (\<exists>r price msg code d. was_read h r \<and> ID r = FailedMsg_ID m \<and>
        EstimateGas (call_msg E w r price) (Inl (ErrJSONRPC msg code d)) \<in> set h \<and>
        FailedMsg_Data m = revert_data E d)"
| "tick_guar E w h (Exec (DELETE ids) res) =
     (\<exists>m. ids = [request_id m] \<and> terminal m \<and> Notify m \<in> set h)"
| "tick_guar E w h (Exec (UPDATE vs ids) res) =
     (\<exists>r. was_read h r \<and> ids = [ID r] \<and> update_needs E h r vs)"
| "tick_guar E w h (Inc c) = False"
| "tick_guar E w h (MarkMessage msg) = False"
| "tick_guar E w h ev = True"

interpretation log: monitor "\<lambda>h e. True" "tick_guar E w" "\<lambda>h e. h @ [e]" "\<lambda>h r. True" for E w .

section \<open>The walk through the program\<close>

lemma was_read_append [simp]: "was_read h r \<Longrightarrow> was_read (h @ h') r"
  by (auto simp: was_read_def)

lemma was_read_Query [simp]: "was_read (h @ [Query ms (Inr (r # rs))]) r"
  by (auto simp: was_read_def)

declare tick_guar.simps(1-7) [simp del]

lemma guar_send:
  "was_read h r \<Longrightarrow> prepared E w h r st \<Longrightarrow> tick_guar E w h (SendTransaction st res)"
  by (auto simp: tick_guar.simps)

lemma guar_submitted:
  "was_read h r \<Longrightarrow> ID r = SubmittedMsg_ID m \<Longrightarrow> SendTransaction st None \<in> set h \<Longrightarrow>
   carries E r st \<Longrightarrow> TxHash E st = SubmittedMsg_Hash m \<Longrightarrow> h = h' @ [Exec (UPDATE vs [ID r]) (Inr n)] \<Longrightarrow>
   map_of vs Col_hash = Some (VBytes (HashBytes E (SubmittedMsg_Hash m))) \<Longrightarrow>
   tick_guar E w h (Notify (Submitted m))"
  unfolding tick_guar.simps by blast

lemma guar_mined:
  "was_read h r \<Longrightarrow> MinedBlockNumber r = None \<Longrightarrow> SubmittedBlockNumber r \<noteq> None \<Longrightarrow>
   receipt_for E h r rec \<Longrightarrow> tick_guar E w h (Notify (Mined \<lparr>MinedMsg_ID = ID r,
     MinedMsg_Hash = BytesToHash E (null_bytes (Hash r))\<rparr>))"
  by (auto simp: tick_guar.simps)

lemma guar_confirmed:
  "was_read h r \<Longrightarrow> MinedBlockNumber r \<noteq> None \<Longrightarrow> receipt_for E h r rec \<Longrightarrow>
   HeaderByNumber (Inr head) \<in> set h \<Longrightarrow>
   Number head - BlockNumber rec \<ge> confirmationBlocks w \<Longrightarrow>
   tick_guar E w h (Notify (Confirmed (confirmed_msg E rec r)))"
  unfolding tick_guar.simps by blast

lemma guar_failed:
  "was_read h r \<Longrightarrow> ID r = x \<Longrightarrow>
   EstimateGas (call_msg E w r price) (Inl (ErrJSONRPC msg code d)) \<in> set h \<Longrightarrow>
   tick_guar E w h (Notify (Failed \<lparr>FailedMsg_ID = x, FailedMsg_Data = revert_data E d\<rparr>))"
  unfolding tick_guar.simps by (intro exI conjI) auto

lemma guar_delete:
  "Notify m \<in> set h \<Longrightarrow> terminal m \<Longrightarrow> request_id m = x \<Longrightarrow>
   tick_guar E w h (Exec (DELETE [x]) res)"
  unfolding tick_guar.simps by blast

lemma guar_update:
  "was_read h r \<Longrightarrow> ID r = x \<Longrightarrow> update_needs E h r vs \<Longrightarrow> tick_guar E w h (Exec (UPDATE vs [x]) res)"
  unfolding tick_guar.simps by blast

lemma carriesI:
  "WithSignature E (chainID w) (legacy_tx nonce price gas (call_msg E w r price)) sig = Inr st \<Longrightarrow>
   carries E r st"
  unfolding carries_def by blast

text \<open>The parts of the request the later calls use; the object may have been updated in between.\<close>

definition same_request :: "MetaTransactionRequest \<Rightarrow> MetaTransactionRequest \<Rightarrow> bool" where
  "same_request r r' \<longleftrightarrow> ID r' = ID r \<and> Nonce r' = Nonce r \<and> To r' = To r \<and> Data r' = Data r"

lemma same_request_refl [simp]: "same_request r r"
  by (simp add: same_request_def)

lemma call_msg_same: "same_request r r' \<Longrightarrow> call_msg E w r' p = call_msg E w r p"
  by (simp add: call_msg_def same_request_def)

lemma estimate_failed_log:
  assumes "plain B" and "was_read h r" and "same_request r r'"
    and "EstimateGas (call_msg E w r price) (Inl err) \<in> set h"
  shows "log.safe E w (estimate_failed B E r' err) h"
  using assms guar_failed [OF assms(2), of "ID r'" E w price]
  by (cases err)
    (auto simp: estimate_failed_def log.admits_def Delete_plain [OF assms(1)] terminal_def
      same_request_def intro: guar_delete split: sum.split)

lemma sign_tx_log:
  assumes "\<And>sig st. WithSignature E (chainID w) txd sig = Inr st \<Longrightarrow>
    log.safe E w (k st) (h @ [Sign (SignerHash E (chainID w) txd) (Inr sig)])"
  shows "log.safe E w (sign_tx E w txd k) h"
  using assms by (auto simp: sign_tx_def log.admits_def split: sum.split)

lemma submitted_log:
  assumes "plain B" and "was_read h r" and "SendTransaction st None \<in> set h" and "carries E r st"
  shows "log.safe E w (Update B (submitted E head n g st r) (Whitelist (lib B) submit_columns)
      (\<lambda>res r'. case res of Inl err \<Rightarrow> fail err
        | Inr m \<Rightarrow> CallProducer (Submitted \<lparr>SubmittedMsg_ID = ID r', SubmittedMsg_Hash = TxHash E st\<rparr>) ok))
      h"
proof -
  have ne: "submit_columns \<noteq> []" by (simp add: submit_columns_def)
  have hash: "map_of (bound_values submit_columns (stamp_update t (submitted E head n g st r))) Col_hash
      = Some (VBytes (HashBytes E (TxHash E st)))" for t
    by (simp add: submit_columns_def submitted_def bound_values_def)
  have "tick_guar E w (h @ [Now t, Exec (UPDATE (bound_values submit_columns
      (stamp_update t (submitted E head n g st r))) [ID r]) (Inr res)])
    (Notify (Submitted \<lparr>SubmittedMsg_ID = ID r, SubmittedMsg_Hash = TxHash E st\<rparr>))" for t res
    by (rule guar_submitted [where r = r and st = st and h' = "h @ [Now t]"])
      (use assms(2-4) hash in auto)
  moreover have "tick_guar E w (h @ [Now t]) (Exec (UPDATE (bound_values submit_columns
      (stamp_update t (submitted E head n g st r))) [ID r]) res)" for t res
    by (rule guar_update [where r = r])
      (use assms(2-) in \<open>auto simp: update_needs_def submit_columns_def\<close>)
  ultimately show ?thesis
    unfolding Update_plain [OF assms(1) ne]
    by (auto simp: log.admits_def submitted_def tick_guar.simps(8-) split: sum.split)
qed

lemma prepared_fresh:
  assumes "\<not> list_ex is_send h" and "SuggestGasPrice (Inr s) \<in> set h" and "price = 2 * s"
    and "EstimateGas (call_msg E w r price) (Inr gas) \<in> set h"
    and "Sign (SignerHash E (chainID w) (legacy_tx nonce price (2 * gas) (call_msg E w r price)))
          (Inr sig) \<in> set h"
    and "WithSignature E (chainID w) (legacy_tx nonce price (2 * gas) (call_msg E w r price)) sig
          = Inr st"
    and "PendingNonceAt (senderAddress w) (Inr nonce) \<in> set h"
  shows "prepared E w h r st"
  unfolding prepared_def using assms by blast

lemma prepared_replacement:
  assumes "\<not> list_ex is_send h" and "SuggestGasPrice (Inr s) \<in> set h"
    and "GasPrice r = Some old" and "price = boost_price s old"
    and "EstimateGas (call_msg E w r price) (Inr gas) \<in> set h"
    and "Sign (SignerHash E (chainID w)
          (legacy_tx (DecimalUint64 E n) price (2 * gas) (call_msg E w r price))) (Inr sig) \<in> set h"
    and "WithSignature E (chainID w)
          (legacy_tx (DecimalUint64 E n) price (2 * gas) (call_msg E w r price)) sig = Inr st"
    and "Nonce r = Some n" and "h = h' @ [Exec (UPDATE vs [ID r]) (Inr res)]"
    and "map_of vs Col_hash = Some (VBytes (HashBytes E (TxHash E st)))"
    and "map_of vs Col_gas_price = Some (VNum price)"
    and "map_of vs Col_nonce = Some (VNum (uint (DecimalUint64 E n)))"
  shows "prepared E w h r st"
  unfolding prepared_def using assms by blast

lemma send_request_log:
  assumes "plain B" and "was_read h r" and "\<not> list_ex is_send h"
  shows "log.safe E w (send_request B E w head r) h"
proof -
  have send: "tick_guar E w (h @ [PendingNonceAt (senderAddress w) (Inr n), SuggestGasPrice (Inr p),
      EstimateGas (call_msg E w r (2 * p)) (Inr g),
      Sign (SignerHash E (chainID w) (legacy_tx n (2 * p) (2 * g) (call_msg E w r (2 * p)))) (Inr sig)])
      (SendTransaction st res)"
    if "WithSignature E (chainID w) (legacy_tx n (2 * p) (2 * g) (call_msg E w r (2 * p))) sig = Inr st"
    for n p g sig st res
    by (rule guar_send [where r = r], simp add: assms(2),
        rule prepared_fresh [where nonce = n and sig = sig and s = p]) (use assms(3) that in auto)
  have est: "log.safe E w (estimate_failed B E r err) (h @ [PendingNonceAt (senderAddress w) (Inr n),
      SuggestGasPrice (Inr p), EstimateGas (call_msg E w r price) (Inl err)])" for n p price err
    by (rule estimate_failed_log [OF assms(1), where r = r]) (use assms(2) in auto)
  show ?thesis
    unfolding send_request_def Let_def
    by (auto simp: log.admits_def tick_guar.simps(8-) est intro!: sign_tx_log send
        submitted_log [OF assms(1)] was_read_append assms(2) carriesI split: sum.split option.split)
qed

lemma submit_next_log:
  assumes "plain B" and "\<not> list_ex is_send h"
  shows "log.safe E w (submit_next B E w) h"
proof -
  have "log.safe E w (send_request B E w head r)
    (h @ [SetGauge g v, Query ms (Inr (r # rs)), HeaderByNumber hd, SetGauge g' v'])"
    for head r g v ms rs hd g' v'
    by (rule send_request_log [OF assms(1)]) (use assms(2) in \<open>auto simp: was_read_def\<close>)
  then show ?thesis
    unfolding submit_next_def One_plain [OF assms(1)]
    by (auto simp: log.admits_def tick_guar.simps(8-) split: sum.split list.split)
qed

lemma boost_log:
  assumes "plain B" and "was_read h r" and "same_request r r'" and "\<not> list_ex is_send h"
    and price: "GasPrice r' = GasPrice r"
  shows "log.safe E w (boost B E w headNum r') h"
proof -
  have ne: "boost_columns \<noteq> []" by (simp add: boost_columns_def)
  have id: "ID r' = ID r" "Nonce r' = Nonce r" "GasPrice r' = GasPrice r"
    using assms(3) price by (simp_all add: same_request_def)
  note call = call_msg_same [OF assms(3)]
  let ?up = "\<lambda>t n p st. UPDATE (bound_values boost_columns
      (stamp_update t (boosted E headNum (DecimalUint64 E n) p st r'))) [ID r]"
  let ?pre = "\<lambda>pr n price g sig. [SuggestGasPrice (Inr pr), EstimateGas (call_msg E w r price) (Inr g),
      Sign (SignerHash E (chainID w) (legacy_tx (DecimalUint64 E n) price (2 * g) (call_msg E w r price))) (Inr sig)]"
  have send: "tick_guar E w (h @ ?pre pr n price g sig @ [Now t, Exec (?up t n price st) (Inr rr)])
      (SendTransaction st res)"
    if "WithSignature E (chainID w) (legacy_tx (DecimalUint64 E n) price (2 * g) (call_msg E w r price)) sig = Inr st"
      "Nonce r = Some n" "GasPrice r = Some old" "price = boost_price pr old"
    for pr n price g sig st res t rr old
    by (rule guar_send [where r = r], simp add: assms(2),
        rule prepared_replacement [where n = n and s = pr and old = old and sig = sig and res = rr and vs = "bound_values boost_columns
      (stamp_update t (boosted E headNum (DecimalUint64 E n) price st r'))"
      and h' = "h @ ?pre pr n price g sig @ [Now t]"])
      (use assms(4) that in \<open>auto simp: bound_values_def boost_columns_def boosted_def\<close>)
  have upd: "tick_guar E w (h @ ?pre pr n price g sig @ [Now t]) (Exec (?up t n price st) res)"
    for pr n price g sig t st res
    by (rule guar_update [where r = r])
      (use assms(2) in \<open>auto simp: update_needs_def boost_columns_def\<close>)
  have est: "log.safe E w (estimate_failed B E r' err) (h @ [SuggestGasPrice (Inr p),
      EstimateGas (call_msg E w r price) (Inl err)])" for p price err
    by (rule estimate_failed_log [OF assms(1), where r = r]) (use assms(2,3) in auto)
  show ?thesis
    unfolding boost_def Let_def call
    using send upd
    by (auto simp: log.admits_def tick_guar.simps(8-) est id Update_plain [OF assms(1) ne] boosted_def
        intro!: sign_tx_log split: sum.split option.split)
qed

lemma not_included_log:
  assumes "plain B" and "was_read h r" and "\<not> list_ex is_send h"
  shows "log.safe E w (not_included B E w headNum r) h"
proof -
  have ne: "mined_columns \<noteq> []" by (simp add: mined_columns_def)
  have mb: "log.safe E w (maybe_boost B E w headNum r') h'"
    if "was_read h' r" "same_request r r'" "\<not> list_ex is_send h'" "GasPrice r' = GasPrice r" for r' h'
    using boost_log [OF assms(1) that] by (auto simp: maybe_boost_def split: option.split)
  have "log.safe E w (maybe_boost B E w headNum
      (stamp_update t (r\<lparr>MinedBlockNumber := None, MinedBlockHash := None\<rparr>)))
      (h @ [Now t, Exec s re])" for t s re
    by (rule mb) (use assms(2,3) in \<open>auto simp: same_request_def\<close>)
  moreover have "tick_guar E w (h @ [Now t]) (Exec (UPDATE (bound_values mined_columns
      (stamp_update t (r\<lparr>MinedBlockNumber := None, MinedBlockHash := None\<rparr>))) [ID r]) res)" for t res
    by (rule guar_update [where r = r])
      (use assms(2) in \<open>auto simp: update_needs_def mined_columns_def of_num_def\<close>)
  ultimately show ?thesis
    using mb [OF assms(2) same_request_refl assms(3) refl]
    unfolding not_included_def Update_plain [OF assms(1) ne]
    by (auto simp: log.admits_def tick_guar.simps(8-) split: sum.split)
qed

lemma record_mined_log:
  assumes "plain B" and "was_read h r"
    and "MinedBlockNumber r \<noteq> None \<or> (\<exists>m. Notify (Mined m) \<in> set h \<and> MinedMsg_ID m = ID r)"
  shows "log.safe E w (record_mined B E rec r) h"
proof -
  have ne: "mined_columns \<noteq> []" by (simp add: mined_columns_def)
  have "tick_guar E w (h @ [Now t]) (Exec (UPDATE (bound_values mined_columns
      (stamp_update t (mined_at E rec r))) [ID r]) res)" for t res
    by (rule guar_update [where r = r])
      (use assms(2,3) in \<open>auto simp: update_needs_def mined_columns_def\<close>)
  moreover have "ID (mined_at E rec r) = ID r" by (simp add: mined_at_def)
  ultimately show ?thesis
    unfolding record_mined_def Update_plain [OF assms(1) ne]
    by (auto simp: log.admits_def tick_guar.simps(8-) split: sum.split)
qed

lemma included_log:
  assumes "plain B" and "was_read h r" and "\<not> list_ex is_send h"
    and "receipt_for E h r rec" and "HeaderByNumber (Inr head) \<in> set h"
    and "SubmittedBlockNumber r \<noteq> None"
  shows "log.safe E w (included B E w (Number head) rec r) h"
proof -
  let ?c = "Confirmed (confirmed_msg E rec r)"
  have del: "tick_guar E w (h @ [Notify ?c]) (Exec (DELETE [ID r]) re)" for re
    by (rule guar_delete) (auto simp: terminal_def confirmed_msg_def)
  have sub: "log.safe E w (submit_next B E w) (h @ [Notify ?c, Exec (DELETE [ID r]) re])" for re
    by (rule submit_next_log [OF assms(1)]) (use assms(3) in simp)
  have rec1: "log.safe E w (record_mined B E rec r) h" if "MinedBlockNumber r \<noteq> None"
    by (rule record_mined_log [OF assms(1,2)]) (simp add: that)
  have rec2: "log.safe E w (record_mined B E rec r)
      (h @ [Notify (Mined \<lparr>MinedMsg_ID = ID r, MinedMsg_Hash = BytesToHash E (null_bytes (Hash r))\<rparr>)])"
    by (rule record_mined_log [OF assms(1)]) (use assms(2) in auto)
  show ?thesis
    using guar_mined [OF assms(2) _ assms(6,4)] guar_confirmed [OF assms(2) _ assms(4,5)] rec1 rec2
    by (auto simp: included_def log.admits_def
        Delete_plain [OF assms(1)] del sub tick_guar.simps(8-) split: sum.split)
qed

lemma tick_active_log:
  assumes "plain B" and "was_read h r" and "\<not> list_ex is_send h"
  shows "log.safe E w (tick_active B E w r) h"
proof -
  have "log.safe E w (not_included B E w headNum r) (h @ [HeaderByNumber hd, SetGauge g v,
      SetGauge g' v', TransactionReceipt x y])" for headNum hd g v g' v' x y
    by (rule not_included_log [OF assms(1)]) (use assms(2,3) in simp_all)
  moreover have "log.safe E w (included B E w (Number head) rec r) (h @ [HeaderByNumber (Inr head),
      SetGauge g v, SetGauge g' v',
      TransactionReceipt (BytesToHash E (null_bytes (Hash r))) (Inr rec)])"
    if "SubmittedBlockNumber r \<noteq> None" for head rec g v g' v'
    by (rule included_log [OF assms(1)]) (use assms(2,3) that in \<open>simp_all add: receipt_for_def\<close>)
  ultimately show ?thesis
    by (auto simp: tick_active_def log.admits_def tick_guar.simps(8-) split: sum.split option.split)
qed

theorem Tick_log:
  assumes "plain B"
  shows "log.safe E w (Tick B E w) []"
proof -
  have "log.safe E w (tick_active B E w r) [Query ms (Inr (r # rs))]" for ms r rs
    by (rule tick_active_log [OF assms]) (auto simp: was_read_def)
  moreover have "log.safe E w (submit_next B E w) [Query ms a]" for ms a
    by (rule submit_next_log [OF assms]) simp
  ultimately show ?thesis
    unfolding Tick_def One_plain [OF assms]
    by (auto simp: log.admits_def tick_guar.simps(8-) split: sum.split list.split)
qed

section \<open>What it says about an execution\<close>

lemma log_relies [simp]: "log.relies es h"
  by (induction es arbitrary: h) auto

lemma log_history [simp]: "foldl (\<lambda>h e. h @ [e]) h es = h @ es"
  by (induction es arbitrary: h) auto

text \<open>Every event of a tick is allowed by the events before it.\<close>

lemma Tick_event:
  assumes "plain B" and "run_trace (Tick B E w) (es @ e # fs) = Some p"
  shows "tick_guar E w es e"
  using log.safe_at [OF Tick_log [OF assms(1)] assms(2)] by simp

lemma Tick_one_send:
  assumes "plain B" and "run_trace (Tick B E w) es = Some p"
  shows "length (filter is_send es) \<le> 1"
proof (rule ccontr)
  assume "\<not> length (filter is_send es) \<le> 1"
  then obtain x y zs where xy: "filter is_send es = x # y # zs"
    by (cases "filter is_send es"; cases "tl (filter is_send es)") auto
  from filter_eq_ConsD [OF this] obtain us vs where us: "es = us @ x # vs" "is_send x"
    "y # zs = filter is_send vs" by blast
  from filter_eq_ConsD [OF us(3) [symmetric]] obtain us' vs' where vs: "vs = us' @ y # vs'" "is_send y"
    by blast
  obtain st res where y: "y = SendTransaction st res" using vs(2) by (cases y) (auto simp: is_send_def)
  have "tick_guar E w (us @ x # us') y"
    using Tick_event [OF assms(1), of E w "us @ x # us'" y vs' p] assms(2) us vs by simp
  with us(2) show False by (auto simp: y tick_guar.simps prepared_def)
qed


section \<open>A tick is short\<close>

text \<open>A budget of calls: every call costs one, and may only be made when one is left.\<close>

definition spend :: "nat \<Rightarrow> event \<Rightarrow> nat" where
  "spend n e = n - 1"

lemma spend_simps [simp]: "spend (Suc n) e = n" "spend (numeral k) e = pred_numeral k"
  by (simp_all add: spend_def)

interpretation budget: monitor "\<lambda>n e. True" "\<lambda>n e. 0 < n" spend "\<lambda>n r. True" .

lemma spend_mono: "m \<le> n \<Longrightarrow> spend m e \<le> spend n e"
  by (simp add: spend_def diff_le_mono)

lemma budget_admits_mono:
  "budget.admits m e p \<Longrightarrow> m \<le> n \<Longrightarrow> (\<And>m n. p m \<Longrightarrow> m \<le> n \<Longrightarrow> p n) \<Longrightarrow> budget.admits n e p"
  unfolding budget.admits_def using spend_mono by (meson less_le_trans)

lemma budget_weaken: "budget.safe p m \<Longrightarrow> m \<le> n \<Longrightarrow> budget.safe p n"
  by (induction p arbitrary: m n) (simp_all, (blast intro: budget_admits_mono)+)

lemma budget_guars: "budget.guars es n \<Longrightarrow> length es \<le> n"
proof (induction es arbitrary: n)
  case Nil
  then show ?case by simp
next
  case (Cons e es)
  from Cons.prems have "0 < n" and "budget.guars es (spend n e)" by simp_all
  moreover from Cons.IH [OF this(2)] have "length es \<le> n - 1" by (simp only: spend_def)
  ultimately show ?case by simp
qed

lemma budget_relies [simp]: "budget.relies es n"
  by (induction es arbitrary: n) auto

lemma estimate_failed_budget: "plain B \<Longrightarrow> budget.safe (estimate_failed B E r err) 2"
  by (cases err) (auto simp: estimate_failed_def budget.admits_def orm_simps split: sum.split)

lemma sign_tx_budget:
  "(\<And>st. budget.safe (k st) n) \<Longrightarrow> budget.safe (sign_tx E w txd k) (Suc n)"
  by (auto simp: sign_tx_def budget.admits_def split: sum.split)

lemma send_request_budget:
  assumes "plain B"
  shows "budget.safe (send_request B E w head r) 8"
proof -
  have ne: "submit_columns \<noteq> []" by (simp add: submit_columns_def)
  have upd: "budget.safe (sign_tx E w txd (\<lambda>signedTx.
                      CallSendTransaction signedTx (\<lambda>err.
                        case err of
                          Some err \<Rightarrow> fail (ErrWrap ''failed to submit transaction'' err)
                        | None \<Rightarrow>
                            Update B (submitted E head nonce gasPrice signedTx r)
                              (Whitelist (lib B) submit_columns) (\<lambda>res sendTx.
                                case res of
                                  Inl err \<Rightarrow> fail err
                                | Inr n \<Rightarrow>
                                    CallProducer (Submitted \<lparr>SubmittedMsg_ID = ID sendTx,
                                      SubmittedMsg_Hash = TxHash E signedTx\<rparr>) ok)))) (Suc 4)"
    for txd nonce gasPrice
    unfolding Update_plain [OF assms ne]
    by (rule sign_tx_budget) (auto simp: budget.admits_def split: sum.split option.split)
  have est: "budget.safe (estimate_failed B E r err) 5" for err
    by (rule budget_weaken [OF estimate_failed_budget [OF assms]]) simp
  show ?thesis
    unfolding send_request_def Let_def
    using upd est by (auto simp: budget.admits_def eval_nat_numeral split: sum.split)
qed

lemma submit_next_budget:
  assumes "plain B"
  shows "budget.safe (submit_next B E w) 12"
  unfolding submit_next_def One_plain [OF assms]
  using send_request_budget [OF assms]
  by (auto simp: budget.admits_def split: sum.split list.split)

lemma boost_budget:
  assumes "plain B"
  shows "budget.safe (boost B E w headNum r) 6"
proof -
  have ne: "boost_columns \<noteq> []" by (simp add: boost_columns_def)
  have "budget.safe (estimate_failed B E r err) 4" for err
    by (rule budget_weaken [OF estimate_failed_budget [OF assms]]) simp
  then show ?thesis
    unfolding boost_def Let_def Update_plain [OF assms ne]
    by (auto simp: budget.admits_def eval_nat_numeral intro!: sign_tx_budget
        split: sum.split option.split)
qed

lemma tick_active_budget:
  assumes "plain B"
  shows "budget.safe (tick_active B E w r) 18"
proof -
  have ne: "mined_columns \<noteq> []" by (simp add: mined_columns_def)
  have boost: "budget.safe (boost B E w n r') 12" "budget.safe (boost B E w n r') 14" for n r'
    by (rule budget_weaken [OF boost_budget [OF assms]], simp)+
  have ni: "budget.safe (not_included B E w n r) 14" for n
    unfolding not_included_def maybe_boost_def Update_plain [OF assms ne]
    using boost by (auto simp: budget.admits_def split: sum.split option.split)
  have inc: "budget.safe (included B E w n rec r) 14" for n rec
    unfolding included_def record_mined_def Update_plain [OF assms ne] Delete_plain [OF assms]
    using submit_next_budget [OF assms] by (auto simp: budget.admits_def split: sum.split)
  show ?thesis
    using ni inc by (auto simp: tick_active_def budget.admits_def split: sum.split option.split)
qed

lemma Tick_budget:
  assumes "plain B"
  shows "budget.safe (Tick B E w) 19"
proof -
  have "budget.safe (submit_next B E w) 18"
    by (rule budget_weaken [OF submit_next_budget [OF assms]]) simp
  then show ?thesis
    unfolding Tick_def One_plain [OF assms]
    using tick_active_budget [OF assms]
    by (auto simp: budget.admits_def split: sum.split list.split)
qed


lemma Tick_calls:
  assumes "plain B" and "run_trace (Tick B E w) es = Some p"
  shows "length es \<le> 19"
  using budget.safe_run [OF Tick_budget [OF assms(1)] assms(2)] budget_guars by simp

end
