(* ===== verification/History.thy ===== *)
theory History
  imports System Tick_Log
begin

text \<open>
  The history of the running service: all calls of all watchers, claims and the RPC method since the beginning,
  across restarts. The order of what is announced for a request is a fact about this history and
  not about one tick: the tick that confirms a request has only read that its block was recorded.
  The log of a watcher since its last tick began (the monitor \<open>since\<close>) ties its calls to the
  history, and \<open>hist_inv\<close> ties the rows of the table to it.
\<close>

declare One_nat_def [simp del]

section \<open>The log of a loop\<close>

text \<open>The loop counts a tick before it runs it: then a new log begins.\<close>

definition log_next :: "event list \<Rightarrow> event \<Rightarrow> event list" where
  "log_next h ev = (if ev = Inc TicksTotal then [] else h @ [ev])"

lemma log_next_tick [simp]: "log_next h (Inc TicksTotal) = []"
  by (simp add: log_next_def)

lemma log_next_set: "set (log_next h ev) \<subseteq> insert ev (set h)"
  by (simp add: log_next_def)

fun loop_guar :: "eth_lib \<Rightarrow> Watcher \<Rightarrow> event list \<Rightarrow> event \<Rightarrow> bool" where
  "loop_guar E w h (Inc c) = True"
| "loop_guar E w h ev = tick_guar E w h ev"

interpretation since: monitor "\<lambda>h e. True" "loop_guar E w" log_next "\<lambda>h r. True" for E w .

lemma loop_guar_not_Inc: "(\<And>c. ev \<noteq> Inc c) \<Longrightarrow> loop_guar E w h ev = tick_guar E w h ev"
  by (cases ev) auto

lemma since_tick: "log.safe E w p h \<Longrightarrow> since.safe E w p h"
proof (induction p arbitrary: h)
  case (CallInc c p)
  then show ?case by (simp add: log.admits_def)
qed (simp_all add: log.admits_def since.admits_def log_next_def loop_guar_not_Inc)

lemma watch_loop_since:
  assumes "plain B"
  shows "since.safe E w (watch_loop B E w wakeups) h"
proof (induction wakeups arbitrary: h)
  case Nil
  then show ?case by simp
next
  case (Cons x wakeups)
  have "since.safe E w (bind_prog (Tick B E w) (\<lambda>res.
        case res of
          Panicked p \<Rightarrow> Ret (Panicked p)
        | Returned None \<Rightarrow> watch_loop B E w wakeups
        | Returned (Some err) \<Rightarrow>
            CallInc (TickErrorsTotal (Itoa (walletIndex w))) (watch_loop B E w wakeups))) []"
    by (rule safe_bind [OF since_tick [OF Tick_log [OF assms]]])
      (auto simp: since.admits_def Cons split: outcome.split option.split)
  then show ?case by (cases x) (simp_all add: since.admits_def)
qed

lemma goroutine_since:
  assumes "plain B"
  shows "since.safe E w (watcher_goroutine B E secs w wakeups) h"
  using watch_loop_since [OF assms] by (simp add: watcher_goroutine_def)

section \<open>What the history says about a row\<close>

definition announced_mined :: "event list \<Rightarrow> string \<Rightarrow> bool" where
  "announced_mined h x \<longleftrightarrow> (\<exists>m. Notify (Mined m) \<in> set h \<and> MinedMsg_ID m = x)"

text \<open>The node has accepted a transaction with the call of a row with this id.\<close>

definition accepted :: "eth_lib \<Rightarrow> event list \<Rightarrow> string \<Rightarrow> bool" where
  "accepted E h x \<longleftrightarrow>
     (\<exists>r st. was_read h r \<and> ID r = x \<and> SendTransaction st None \<in> set h \<and> carries E r st)"

definition row_history :: "eth_lib \<Rightarrow> event list \<Rightarrow> MetaTransactionRequest \<Rightarrow> bool" where
  "row_history E h r \<longleftrightarrow>
     (MinedBlockNumber r \<noteq> None \<longrightarrow> announced_mined h (ID r)) \<and> (active r \<longrightarrow> accepted E h (ID r))"

lemma announced_mined_mono: "announced_mined h x \<Longrightarrow> set h \<subseteq> set h' \<Longrightarrow> announced_mined h' x"
  unfolding announced_mined_def by blast

lemma accepted_mono: "accepted E h x \<Longrightarrow> set h \<subseteq> set h' \<Longrightarrow> accepted E h' x"
  unfolding accepted_def was_read_def by blast

lemma row_history_mono: "row_history E h r \<Longrightarrow> set h \<subseteq> set h' \<Longrightarrow> row_history E h' r"
  unfolding row_history_def using announced_mined_mono accepted_mono by blast

text \<open>What must have happened before a message is sent.\<close>

definition has_cause :: "eth_lib \<Rightarrow> event list \<Rightarrow> Producer \<Rightarrow> bool" where
  "has_cause E h msg \<longleftrightarrow>
     (case msg of
        Failed m \<Rightarrow> True
      | Confirmed m \<Rightarrow> announced_mined h (request_id msg) \<and> accepted E h (request_id msg)
      | _ \<Rightarrow> accepted E h (request_id msg))"

lemma has_cause_mono: "has_cause E h msg \<Longrightarrow> set h \<subseteq> set h' \<Longrightarrow> has_cause E h' msg"
  unfolding has_cause_def using announced_mined_mono accepted_mono
  by (cases msg) (auto split: Producer.splits)

abbreviation rows_known :: "eth_lib \<Rightarrow> event list \<Rightarrow> table \<Rightarrow> bool" where
  "rows_known E h T \<equiv> \<forall>r \<in> set T. row_history E h r"

abbreviation reads_known :: "eth_lib \<Rightarrow> event list \<Rightarrow> bool" where
  "reads_known E h \<equiv> \<forall>ms rows. Query ms (Inr rows) \<in> set h \<longrightarrow> rows_known E h rows"

abbreviation all_caused :: "eth_lib \<Rightarrow> event list \<Rightarrow> bool" where
  "all_caused E h \<equiv> \<forall>msg. Notify msg \<in> set h \<longrightarrow> has_cause E h msg"

definition hist_inv :: "eth_lib \<Rightarrow> Watcher list \<Rightarrow> event list \<Rightarrow> system \<Rightarrow> bool" where
  "hist_inv E ws h s \<longleftrightarrow> rows_known E h (tab s) \<and> reads_known E h \<and> all_caused E h \<and>
     (\<forall>k < length ws. \<exists>l. set l \<subseteq> set h \<and> since.safe E (ws ! k) (watching s ! k) l)"

text \<open>The causes of a message follow from what its tick knows and from the history.\<close>

lemma notify_has_cause:
  assumes reads: "reads_known E h"
    and said: "all_caused E h"
    and l: "set l \<subseteq> set h" and guar: "tick_guar E w l (Notify msg)"
  shows "has_cause E h msg"
proof -
  have read: "was_read h r \<and> row_history E h r" if "was_read l r" for r
    using that l reads unfolding was_read_def by (metis list.set_intros(1) subsetD)
  show ?thesis
  proof (cases msg)
    case (Submitted m)
    with guar obtain r st where r: "was_read l r" "ID r = SubmittedMsg_ID m"
      "SendTransaction st None \<in> set l" "carries E r st"
      unfolding Submitted tick_guar.simps by blast
    with l read have "accepted E h (SubmittedMsg_ID m)" unfolding accepted_def by blast
    then show ?thesis by (simp add: Submitted has_cause_def)
  next
    case (Mined m)
    with guar obtain r where r: "was_read l r" "ID r = MinedMsg_ID m" "active r"
      unfolding Mined tick_guar.simps active_def by blast
    with read [OF r(1)] show ?thesis by (auto simp: Mined has_cause_def row_history_def)
  next
    case (Confirmed m)
    with guar obtain r rec where r: "was_read l r" "MinedBlockNumber r \<noteq> None"
      "m = confirmed_msg E rec r"
      unfolding Confirmed tick_guar.simps by blast
    then have id: "ConfirmedMsg_ID m = ID r" by (simp add: confirmed_msg_def)
    from read [OF r(1)] r(2) obtain m' where m': "Notify (Mined m') \<in> set h" "MinedMsg_ID m' = ID r"
      by (auto simp: row_history_def announced_mined_def)
    have "has_cause E h (Mined m')" using said m'(1) by blast
    with m' show ?thesis
      by (auto simp: Confirmed has_cause_def id announced_mined_def)
  next
    case (Failed m)
    then show ?thesis by (simp add: has_cause_def)
  qed
qed

section \<open>The invariant of the history\<close>

text \<open>A statement of a watcher keeps every row in step with the history.\<close>

lemma update_row_history:
  assumes ch: "changed_row vs r = Some r'" and d: "distinct (map fst vs)" and noid: "map_of vs Col_id = None"
    and r: "row_history E h r" and needs: "update_needs E l r0 vs" and read: "was_read l r0" "row_history E h r0"
    and id: "ID r0 = ID r" and l: "set l \<subseteq> set h"
  shows "row_history E h r'"
proof -
  note f = changed_row_field [OF ch d]
  have id': "ID r' = ID r"
    using ch noid store_cols_ID [of vs r r'] by (simp add: changed_row_Some map_of_eq_None_iff)
  have "announced_mined h (ID r)" if m: "MinedBlockNumber r' \<noteq> None"
  proof (cases "map_of vs Col_mined_block_number")
    case None
    with f [of Col_mined_block_number] m have "MinedBlockNumber r \<noteq> None"
      by (auto simp: of_num_def split: option.splits)
    with r show ?thesis by (simp add: row_history_def)
  next
    case (Some v)
    with f [of Col_mined_block_number] m have "v \<noteq> VNull" by (auto simp: of_num_def split: option.splits)
    with needs Some consider "MinedBlockNumber r0 \<noteq> None"
      | m where "Notify (Mined m) \<in> set l" "MinedMsg_ID m = ID r0"
      by (auto simp: update_needs_def)
    then show ?thesis
      using read(2) id l by cases (auto simp: row_history_def announced_mined_def)
  qed
  moreover have "accepted E h (ID r)" if a: "active r'"
  proof (cases "map_of vs Col_submitted_block_number")
    case None
    with f [of Col_submitted_block_number] a have "active r"
      by (auto simp: active_def of_num_def split: option.splits)
    with r show ?thesis by (simp add: row_history_def)
  next
    case (Some v)
    with needs obtain st where "SendTransaction st None \<in> set l" "carries E r0 st"
      by (auto simp: update_needs_def)
    then have "accepted E l (ID r)" using read(1) id unfolding accepted_def by blast
    then show ?thesis by (rule accepted_mono [OF _ l])
  qed
  ultimately show ?thesis by (simp add: row_history_def id')
qed

lemma watcher_rows_history:
  assumes inv: "table_inv T" and snd: "sound R i q T" and guar: "watch_guar q ev"
    and db: "db_event le now ev T T'" and tick: "loop_guar E w l ev"
    and rows: "rows_known E h T"
    and reads: "reads_known E h"
    and l: "set l \<subseteq> set h" and r': "r' \<in> set T'"
  shows "row_history E h r'"
proof (cases "\<exists>s res re. ev = Exec s res \<and> run_stmt le now s T = Some (re, T')")
  case False
  with db have "T' = T"
    by (cases "\<exists>s res. ev = Exec s res") (auto dest: db_event_no_exec db_event_exec)
  with r' rows show ?thesis by simp
next
  case True
  then obtain s res re where ev: "ev = Exec s res" and run: "run_stmt le now s T = Some (re, T')" by blast
  show ?thesis
  proof (cases s)
    case (UPDATE vs ids)
    with guar ev obtain x where x: "ids = [x]" "update_allowed q vs x" by auto
    from tick UPDATE ev obtain r0 where r0: "was_read l r0" "ids = [ID r0]" "update_needs E l r0 vs"
      by (auto simp: tick_guar.simps)
    from run UPDATE x have "run_UPDATE vs [x] T = Some (re, T')" by simp
    from update_step [OF inv snd x(2) this] have inv': "table_inv T'"
      and rows': "rows_by_id T' = rows_by_id T \<or> (\<exists>r r1. rows_by_id T x = Some r \<and>
        changed_row vs r = Some r1 \<and> rows_by_id T' = (rows_by_id T)(x \<mapsto> r1))" by blast+
    show ?thesis
    proof (cases "rows_by_id T' = rows_by_id T")
      case True
      with table_inv_rows_of [OF inv' r'] rows rows_by_id_ID show ?thesis by metis
    next
      case False
      with rows' obtain r r1 where
        r: "rows_by_id T x = Some r" "changed_row vs r = Some r1" "rows_by_id T' = (rows_by_id T)(x \<mapsto> r1)"
        by blast
      from table_inv_rows_of [OF inv' r'] have "rows_by_id T' (ID r') = Some r'" by simp
      then have "(ID r' = x \<and> r' = r1) \<or> rows_by_id T (ID r') = Some r'"
        using r(3) by (auto split: if_splits)
      then show ?thesis
      proof (elim disjE conjE)
        assume "r' = r1"
        have "row_history E h r0" using r0(1) reads l unfolding was_read_def by (metis list.set_intros(1) subsetD)
        moreover have "r \<in> set T" "ID r = x" using rows_by_id_ID [OF r(1)] by auto
        ultimately show ?thesis
          using update_row_history [OF r(2), where h = h and E = E and l = l and ?r0.0 = r0] rows x r0 l \<open>r' = r1\<close>
          by (auto simp: update_allowed_def)
      qed (use rows rows_by_id_ID in blast)
    qed
  next
    case (DELETE ids)
    with run have "set T' \<subseteq> set T" by (auto simp: run_DELETE_def)
    with r' rows show ?thesis by blast
  qed (use guar ev in simp_all)
qed

lemma claim_rows_history:
  assumes inv: "table_inv T" and guar: "intake_event C n inputs ev" and db: "db_event le now ev T T'"
    and rows: "rows_known E h T" and r': "r' \<in> set T'"
  shows "row_history E h r'"
proof (cases "\<exists>s res re. ev = Exec s res \<and> run_stmt le now s T = Some (re, T')")
  case False
  with db have "T' = T"
    by (cases "\<exists>s res. ev = Exec s res") (auto dest: db_event_no_exec db_event_exec)
  with r' rows show ?thesis by simp
next
  case True
  then obtain s res re where ev: "ev = Exec s res" and run: "run_stmt le now s T = Some (re, T')" by blast
  with guar obtain msg where st: "arrival_stmt C n msg s" by (auto simp: intake_event_def)
  from arrival_data [OF st] obtain data where data: "Unmarshal C (Value msg) = Inr data" by blast
  note step = arrival_step [OF inv st data run]
  then have "rows_by_id T' (ID r') = Some r'" using table_inv_rows_of r' by blast
  with step have "is_new r' \<or> rows_by_id T (ID r') = Some r'"
    by (auto split: if_splits)
  then show ?thesis
    using rows rows_by_id_ID is_new_inactive by (auto simp: row_history_def is_new_def)
qed

lemma query_rows_history:
  assumes db: "db_event le now ev T T'" and rows: "rows_known E h T"
    and reads: "reads_known E h"
    and q: "Query ms (Inr rows') \<in> set (h @ [ev])" "r \<in> set rows'"
  shows "row_history E (h @ [ev]) r"
proof -
  have "row_history E h r"
  proof (cases "Query ms (Inr rows') \<in> set h")
    case True
    with reads q(2) show ?thesis by blast
  next
    case False
    with q(1) have "ev = Query ms (Inr rows')" by auto
    with db q(2) answers_mem have "r \<in> set T" by fastforce
    with rows show ?thesis by blast
  qed
  then show ?thesis by (rule row_history_mono) auto
qed

lemma started_hist_inv:
  assumes "plain B" and "started B E C ws s"
    and "rows_known E h (tab s)" and "reads_known E h" and "all_caused E h"
  shows "hist_inv E ws h s"
proof -
  from assms(2) have l2: "list_all2 (\<lambda>w p. \<exists>wakeups. p = watcher_goroutine B E (block_time s) w wakeups) ws (watching s)"
    by (simp add: started_def)
  have "\<exists>l. set l \<subseteq> set h \<and> since.safe E (ws ! k) (watching s ! k) l" if "k < length ws" for k
  proof -
    from list_all2_nthD [OF l2 that] obtain wk where
      "watching s ! k = watcher_goroutine B E (block_time s) (ws ! k) wk" by blast
    with goroutine_since [OF assms(1), of E "ws ! k" "block_time s" wk "[]"] show ?thesis
      by (intro exI [of _ "[]"]) simp
  qed
  with assms(3-) show ?thesis unfolding hist_inv_def by blast
qed

text \<open>A call that announces nothing and leaves the watchers as they are.\<close>

lemma quiet_hist:
  assumes hist: "hist_inv E ws h s" and db: "db_event le now ev (tab s) (tab s')"
    and watching: "watching s' = watching s" and quiet: "\<And>msg. ev \<noteq> Notify msg"
    and rows: "rows_known E h (tab s')"
  shows "hist_inv E ws (h @ [ev]) s'"
proof -
  from hist have before: "rows_known E h (tab s)" "reads_known E h" "all_caused E h"
    unfolding hist_inv_def by blast+
  have sub: "set h \<subseteq> set (h @ [ev])" by auto
  have "row_history E (h @ [ev]) r" if "r \<in> set (tab s')" for r
    using rows that row_history_mono [OF _ sub] by blast
  moreover have "has_cause E (h @ [ev]) msg" if "Notify msg \<in> set (h @ [ev])" for msg
    using that quiet [of msg] before(3) has_cause_mono [OF _ sub] by auto
  moreover have "\<exists>l. set l \<subseteq> set (h @ [ev]) \<and> since.safe E (ws ! j) (watching s' ! j) l"
    if "j < length ws" for j
    using hist that sub unfolding hist_inv_def watching by blast
  ultimately show ?thesis
    using query_rows_history [OF db before(1,2)] by (simp add: hist_inv_def)
qed

lemma watcher_hist:
  assumes inv: "sys_inv C ws le s" and hist: "hist_inv E ws h s" and k: "k < length (watching s)"
    and step: "step_prog (watching s ! k) ev = Some p" and db: "db_event le now ev (tab s) T"
  shows "hist_inv E ws (h @ [ev]) (s\<lparr>tab := T, watching := (watching s)[k := p]\<rparr>)"
proof -
  let ?i = "\<lambda>k. walletIndex (ws ! k)"
  from inv k obtain q where k': "k < length ws"
    and w: "watch_ok le (block_time s) (?i k) (watching s ! k) q" "sound (removed s) (?i k) q (tab s)"
    by (auto simp: sys_inv_def)
  note q = watch_ok_step [OF w(1) step] w(2)
  have tinv: "table_inv (tab s)" using inv by (simp add: sys_inv_def)
  have guar: "watch_guar q ev" using watcher_event [OF tinv q step db] by blast
  from hist k' obtain l where l: "set l \<subseteq> set h" "since.safe E (ws ! k) (watching s ! k) l"
    by (auto simp: hist_inv_def)
  from since.safe_step [OF l(2) step] have tick: "loop_guar E (ws ! k) l ev"
    and safe: "since.safe E (ws ! k) p (log_next l ev)" by auto
  from hist have rows: "rows_known E h (tab s)" and reads: "reads_known E h" and said: "all_caused E h"
    unfolding hist_inv_def by blast+
  have sub: "set h \<subseteq> set (h @ [ev])" by auto
  have "row_history E (h @ [ev]) r" if "r \<in> set T" for r
    using watcher_rows_history [OF tinv q(2) guar db tick rows reads l(1) that]
      row_history_mono [OF _ sub] by blast
  moreover have "has_cause E (h @ [ev]) msg" if "Notify msg \<in> set (h @ [ev])" for msg
  proof (cases "Notify msg \<in> set h")
    case True
    with said has_cause_mono [OF _ sub] show ?thesis by blast
  next
    case False
    with that have "ev = Notify msg" by auto
    with tick have "tick_guar E (ws ! k) l (Notify msg)" by simp
    from notify_has_cause [OF reads said l(1) this] has_cause_mono [OF _ sub] show ?thesis by blast
  qed
  moreover have "\<exists>l. set l \<subseteq> set (h @ [ev]) \<and> since.safe E (ws ! j) ((watching s)[k := p] ! j) l"
    if "j < length ws" for j
  proof (cases "j = k")
    case True
    have "set (log_next l ev) \<subseteq> set (h @ [ev])" using l(1) log_next_set [of l ev] by auto
    with safe True k show ?thesis by (intro exI [of _ "log_next l ev"]) simp
  next
    case False
    from hist that obtain lj where "set lj \<subseteq> set h" "since.safe E (ws ! j) (watching s ! j) lj"
      unfolding hist_inv_def by blast
    with False show ?thesis by (intro exI [of _ lj]) auto
  qed
  ultimately show ?thesis
    using query_rows_history [OF db rows reads] by (simp add: hist_inv_def)
qed

lemma system_step_hist:
  assumes B: "plain B" and inv: "sys_inv C ws le s" and hist: "hist_inv E ws h s"
    and st: "system_step B E C ws le s l s'"
  shows "hist_inv E ws (h @ l) s'"
proof -
  have tinv: "table_inv (tab s)" using inv by (simp add: sys_inv_def)
  have rows: "rows_known E h (tab s)" using hist by (simp add: hist_inv_def)
  from st show ?thesis
  proof cases
    case (watcher_call k ev p now T)
    from watcher_hist [OF inv hist watcher_call(3-5)] show ?thesis by (simp add: watcher_call(1,2))
  next
    case (claim_call k ev p now T)
    from inv claim_call(3) obtain inputs hc where "intake.safe C (int (length ws)) inputs (receiving s ! k) hc"
      by (fastforce simp: sys_inv_def)
    from claim_event [OF tinv this claim_call(4,5,6)]
    have guar: "intake_event C (int (length ws)) inputs ev" by blast
    from claim_rows_history [OF tinv guar claim_call(5) rows] guar claim_call(5) show ?thesis
      unfolding claim_call(1,2) by (intro quiet_hist [OF hist]) (auto simp: intake_event_def)
  next
    case rpc_arrives
    with hist show ?thesis by (simp add: hist_inv_def)
  next
    case (rpc_call k ev p now T)
    from inv rpc_call(3) obtain n where "clean.safe (cleaning s ! k) n"
      by (fastforce simp: sys_inv_def)
    from rpc_event [OF tinv this rpc_call(4,5)] have ev: "clean_guar n ev" "table_inv T"
      and gone: "\<And>x. rows_by_id T x \<in> {None, rows_by_id (tab s) x}" by blast+
    have "row_history E h r" if "r \<in> set T" for r
    proof -
      from table_inv_rows_of [OF ev(2) that] gone [of "ID r"]
      have "rows_by_id (tab s) (ID r) = Some r" by simp
      with rows rows_by_id_ID show ?thesis by blast
    qed
    with ev(1) rpc_call(5) show ?thesis
      unfolding rpc_call(1,2) by (intro quiet_hist [OF hist]) auto
  next
    case restart
    with hist show ?thesis
      by (intro started_hist_inv [OF B restart(2)]) (auto simp: hist_inv_def)
  qed
qed

lemma service_run_hist:
  assumes B: "plain B" and dist: "distinct (map walletIndex ws)"
    and run: "service_run B E C ws le h s" and once: "\<not> redelivered s"
  shows "hist_inv E ws h s"
  using run once
proof induction
  case (begins s)
  have "row_history E [] r" if "r \<in> set (tab s)" for r
  proof -
    from begins(3) that have "row_wf r" by (simp add: table_inv_def)
    with begins(4) [OF that] show ?thesis by (simp add: row_history_def row_wf_def)
  qed
  then show ?case by (intro started_hist_inv [OF B begins(1)]) auto
next
  case (goes_on h s l s')
  then show ?case using system_step_hist [OF B service_run_inv [OF B dist]] step_redelivered by metis
qed

lemma carries_call:
  assumes "eth_laws E" and "carries E r st"
  shows "LegacyTx_To (inner st) = BytesToAddress E (To r) \<and> LegacyTx_Data (inner st) = Data r"
  using assms unfolding carries_def eth_laws_def
  by (auto simp: legacy_tx_def call_msg_def)

end
