(* ===== verification/Replacement.thy ===== *)
theory Replacement
  imports History
begin

text \<open>
  What replaces a submitted transaction competes with it. The watchers are followed a third time,
  by a monitor that remembers the submitted row as it was read: while the wallet has a submitted
  row, whatever is sent makes the call of this row with the nonce stored in it, and no statement
  changes that nonce. With the unique nonce of a transaction this is what makes the chain carry out a
  request at most once, however often it is boosted.
\<close>

declare One_nat_def [simp del]

section \<open>The submitted row as it was read\<close>

type_synonym grip = "view \<times> MetaTransactionRequest option"

fun row_next :: "int \<Rightarrow> MetaTransactionRequest option \<Rightarrow> event \<Rightarrow> MetaTransactionRequest option" where
  "row_next i b (Query ms (Inr rows)) =
     (if ms = asks_active i then (case rows of [] \<Rightarrow> None | r # rs \<Rightarrow> Some r) else b)"
| "row_next i b (Exec (UPDATE vs ids) res) =
     (if map_of vs Col_submitted_block_number = None then b else None)"
| "row_next i b (Exec (DELETE ids) res) = None"
| "row_next i b ev = b"

definition grip_next :: "int \<Rightarrow> grip \<Rightarrow> event \<Rightarrow> grip" where
  "grip_next i s ev = (watch_next i (fst s) ev, row_next i (snd s) ev)"

text \<open>The watcher knows that this row is the submitted one, and has read it so.\<close>

definition grips :: "grip \<Rightarrow> MetaTransactionRequest \<Rightarrow> bool" where
  "grips s r \<longleftrightarrow> snd s = Some r \<and> fst (fst s) = Active (ID r)"

definition call_of :: "eth_lib \<Rightarrow> MetaTransactionRequest \<Rightarrow> LegacyTx \<Rightarrow> bool" where
  "call_of E r tx \<longleftrightarrow> LegacyTx_To tx = BytesToAddress E (To r) \<and> LegacyTx_Data tx = Data r"

definition stored_nonce :: "eth_lib \<Rightarrow> MetaTransactionRequest \<Rightarrow> uint64 \<Rightarrow> bool" where
  "stored_nonce E r n \<longleftrightarrow> (\<exists>d. Nonce r = Some d \<and> n = DecimalUint64 E d)"

text \<open>
  An UPDATE leaves the call alone; the nonce it stores is the one the submitted row was read with,
  unless it marks a row submitted.
\<close>

definition update_keeps :: "eth_lib \<Rightarrow> grip \<Rightarrow> (col \<times> sql_value) list \<Rightarrow> string \<Rightarrow> bool" where
  "update_keeps E s vs x \<longleftrightarrow>
     map_of vs Col_to = None \<and> map_of vs Col_data = None \<and>
     (\<forall>v. map_of vs Col_nonce = Some v \<longrightarrow>
        (\<exists>n. v = VNum (uint n) \<and>
          (map_of vs Col_submitted_block_number = None \<longrightarrow>
            (\<exists>r. grips s r \<and> ID r = x \<and> stored_nonce E r n))))"

fun grip_guar :: "eth_lib \<Rightarrow> grip \<Rightarrow> event \<Rightarrow> bool" where
  "grip_guar E s (SendTransaction st res) =
     (fst (fst s) = Idle \<or>
      (\<exists>r. grips s r \<and> call_of E r (inner st) \<and> stored_nonce E r (LegacyTx_Nonce (inner st))))"
| "grip_guar E s (Exec (UPDATE vs ids) res) = (\<forall>x. ids = [x] \<longrightarrow> update_keeps E s vs x)"
| "grip_guar E s ev = True"

interpretation grip: monitor "\<lambda>s. watch_rely le i (fst s)" "grip_guar E" "grip_next i" "\<lambda>s r. True"
  for le i E .

lemmas grip_simps = grip.admits_def grip_next_def

section \<open>The walk through the program\<close>

lemma estimate_failed_grip:
  assumes "plain B"
  shows "grip.safe le i E (estimate_failed B E r err) s"
  using assms
  by (cases err) (auto simp: estimate_failed_def Delete_plain grip_simps split: sum.split)

lemma sign_tx_grip:
  assumes "eth_laws E" and "\<And>st. inner st = txd \<Longrightarrow> grip.safe le i E (k st) s"
  shows "grip.safe le i E (sign_tx E w txd k) s"
proof -
  have "inner st = txd" if "WithSignature E (chainID w) txd sig = Inr st" for sig st
    using assms(1) that unfolding eth_laws_def by blast
  with assms(2) show ?thesis
    by (cases s; cases "fst s") (auto simp: sign_tx_def grip_simps split: sum.split)
qed

lemma send_request_grip:
  assumes "plain B" and "eth_laws E"
  shows "grip.safe le i E (send_request B E w head r) ((Idle, K), b)"
proof -
  have ne: "submit_columns \<noteq> []" by (simp add: submit_columns_def)
  have "grip.safe le i E (Update B (submitted E head n g st r) (Whitelist (lib B) submit_columns)
      (\<lambda>res r'. case res of Inl err \<Rightarrow> fail err
        | Inr m \<Rightarrow> CallProducer (Submitted \<lparr>SubmittedMsg_ID = ID r', SubmittedMsg_Hash = TxHash E st\<rparr>) ok))
      ((Idle, K), b)" for n g st
    unfolding Update_plain [OF assms(1) ne]
    by (auto simp: grip_simps update_keeps_def submit_columns_def submitted_def of_num_def split: sum.split)
  then show ?thesis
    unfolding send_request_def Let_def
    by (auto simp: grip_simps intro!: estimate_failed_grip [OF assms(1)] sign_tx_grip [OF assms(2)]
        split: sum.split option.split)
qed

lemma submit_next_grip:
  assumes "plain B" and "eth_laws E"
  shows "grip.safe le i E (submit_next B E w) ((Idle, K), b)"
proof -
  have neq: "MetaTransactionRequests (next_request w) @ [Limit 1] \<noteq> asks_active i"
    by (simp add: next_request_def asks_active_def MetaTransactionRequests_eq where_helper_defs)
  show ?thesis
    unfolding submit_next_def One_plain [OF assms(1)]
    by (auto simp: grip_simps learn_def neq intro!: send_request_grip [OF assms] split: sum.split list.split)
qed

text \<open>The object the walk carries differs from the row that was read in its other fields only.\<close>

definition carried :: "MetaTransactionRequest \<Rightarrow> grip \<Rightarrow> bool" where
  "carried r' s \<longleftrightarrow> (\<exists>r. grips s r \<and> same_request r r')"

lemma carried_upd:
  "carried r s \<Longrightarrow> carried (r\<lparr>MinedBlockNumber := x, MinedBlockHash := y\<rparr>) s"
  "carried r s \<Longrightarrow> carried (stamp_update t r) s"
  by (auto simp: carried_def same_request_def)

lemma Update_mined_grip:
  assumes "plain B" and "\<And>res t. grip.safe le i E (k res (stamp_update t r)) s"
  shows "grip.safe le i E (Update B r (Whitelist (lib B) mined_columns) k) s"
proof -
  have ne: "mined_columns \<noteq> []" by (simp add: mined_columns_def)
  show ?thesis
    unfolding Update_plain [OF assms(1) ne] using assms(2)
    by (cases s; cases "fst s") (auto simp: grip_simps update_keeps_def mined_columns_def split: sum.split)
qed

lemma boost_grip:
  assumes "plain B" and "eth_laws E" and "carried r s"
  shows "grip.safe le i E (boost B E w headNum r) s"
proof -
  from assms(3) obtain r0 where r0: "grips s r0" "same_request r0 r" by (auto simp: carried_def)
  obtain kn K b where s: "s = ((kn, K), b)" by (cases s) force
  have ne: "boost_columns \<noteq> []" by (simp add: boost_columns_def)
  have send: "grip_guar E s (SendTransaction st res)"
    if "inner st = legacy_tx (DecimalUint64 E n) p g (call_msg E w r p)" "Nonce r = Some n" for st res n p g
  proof -
    have "Nonce r0 = Some n" using r0(2) that(2) by (simp add: same_request_def)
    with r0(2) that(1) have "call_of E r0 (inner st)" "stored_nonce E r0 (LegacyTx_Nonce (inner st))"
      by (simp_all add: call_of_def stored_nonce_def legacy_tx_def call_msg_def same_request_def)
    with r0(1) show ?thesis by auto
  qed
  have "grip.safe le i E (Update B (boosted E headNum (DecimalUint64 E n) p st r) (Whitelist (lib B) boost_columns)
      (\<lambda>res r'. case res of Inl err \<Rightarrow> fail err
        | Inr n \<Rightarrow> CallSendTransaction st (\<lambda>err. Ret (Returned err)))) s"
    if "inner st = legacy_tx (DecimalUint64 E n) p g (call_msg E w r p)" "Nonce r = Some n" for n p g st
  proof -
    have "\<exists>r'. grips s r' \<and> ID r' = ID r \<and> stored_nonce E r' (DecimalUint64 E n)"
      using r0 that(2) unfolding stored_nonce_def same_request_def by metis
    then have "update_keeps E s (bound_values boost_columns
        (stamp_update t (boosted E headNum (DecimalUint64 E n) p st r))) (ID r)" for t
      by (auto simp: update_keeps_def boost_columns_def boosted_def of_num_def)
    with send [OF that] show ?thesis
      unfolding Update_plain [OF assms(1) ne]
      by (auto simp: grip_simps boosted_def boost_columns_def s split: sum.split)
  qed
  then show ?thesis
    unfolding boost_def Let_def
    by (auto simp: grip_simps s intro!: estimate_failed_grip [OF assms(1)] sign_tx_grip [OF assms(2)]
        split: sum.split option.split)
qed


lemma maybe_boost_grip:
  assumes "plain B" and "eth_laws E" and "carried r s"
  shows "grip.safe le i E (maybe_boost B E w headNum r) s"
  using boost_grip [OF assms] by (auto simp: maybe_boost_def split: option.split)

lemma not_included_grip:
  assumes "plain B" and "eth_laws E" and "carried r s"
  shows "grip.safe le i E (not_included B E w headNum r) s"
proof -
  note mb = maybe_boost_grip [OF assms(1,2)]
  have "grip.safe le i E (Update B (r\<lparr>MinedBlockNumber := None, MinedBlockHash := None\<rparr>)
      (Whitelist (lib B) mined_columns)
      (\<lambda>res r'. case res of Inl err \<Rightarrow> fail err | Inr n \<Rightarrow> maybe_boost B E w headNum r')) s"
    by (rule Update_mined_grip [OF assms(1)])
      (use mb [OF carried_upd(2) [OF carried_upd(1) [OF assms(3)]]] in \<open>simp split: sum.split\<close>)
  with mb [OF assms(3)] show ?thesis by (simp add: not_included_def)
qed

lemma record_mined_grip:
  assumes "plain B"
  shows "grip.safe le i E (record_mined B E rec r) s"
  unfolding record_mined_def by (rule Update_mined_grip [OF assms]) (auto split: sum.split)

lemma included_grip:
  assumes "plain B" and "eth_laws E" and "carried r s"
  shows "grip.safe le i E (included B E w headNum rec r) s"
proof -
  from assms(3) have kn: "fst (fst s) = Active (ID r)"
    by (auto simp: carried_def grips_def same_request_def)
  obtain K b where "s = ((fst (fst s), K), b)" by (cases s) force
  then have s: "s = ((Active (ID r), K), b)" unfolding kn .
  show ?thesis
    using record_mined_grip [OF assms(1)] submit_next_grip [OF assms(1,2)]
    by (auto simp: s included_def grip_simps Delete_plain [OF assms(1)] split: sum.split)
qed

lemma tick_active_grip:
  assumes "plain B" and "eth_laws E" and "carried r s"
  shows "grip.safe le i E (tick_active B E w r) s"
proof -
  obtain kn K b where s: "s = ((kn, K), b)" by (cases s) force
  show ?thesis
    using included_grip [OF assms] not_included_grip [OF assms]
    unfolding tick_active_def s by (auto simp: grip_simps split: sum.split option.split)
qed

theorem Tick_grip:
  assumes "plain B" and "eth_laws E" and i: "i = walletIndex w"
  shows "grip.safe le i E (Tick B E w) s"
proof -
  have ask: "MetaTransactionRequests (active_request w) @ [Limit 1] = asks_active i"
    by (simp add: active_request_def asks_active_def where_helper_defs i)
  obtain kn K b where s: "s = ((kn, K), b)" by (cases s) force
  have "carried r ((Active (ID r), K'), Some r)" for r K'
    by (auto simp: carried_def grips_def)
  then show ?thesis
    unfolding Tick_def One_plain [OF assms(1)] ask
    using submit_next_grip [OF assms(1,2)] tick_active_grip [OF assms(1,2)]
    by (auto simp: s grip_simps learn_def split: sum.split list.split)
qed

lemma watch_loop_grip:
  assumes "plain B" and "eth_laws E" and "i = walletIndex w"
  shows "grip.safe le i E (watch_loop B E w wakeups) s"
proof (induction wakeups arbitrary: s)
  case Nil
  then show ?case by simp
next
  case (Cons x wakeups)
  have tick: "grip.safe le i E (bind_prog (Tick B E w) (\<lambda>res.
        case res of
          Panicked p \<Rightarrow> Ret (Panicked p)
        | Returned None \<Rightarrow> watch_loop B E w wakeups
        | Returned (Some err) \<Rightarrow>
            CallInc (TickErrorsTotal (Itoa (walletIndex w))) (watch_loop B E w wakeups))) s" for s
    by (rule safe_bind [OF Tick_grip [OF assms]])
      (auto simp: grip.admits_def Cons split: outcome.split option.split)
  show ?case
    by (cases x) (auto simp: grip.admits_def tick)
qed


section \<open>What the table keeps\<close>

text \<open>The nonces stored are nonces of transactions.\<close>

definition nonces_fit :: "table \<Rightarrow> bool" where
  "nonces_fit T \<longleftrightarrow>
     (\<forall>k r. rows_by_id T k = Some r \<and> active r \<longrightarrow> (\<exists>n :: uint64. Nonce r = Some (uint n)))"

text \<open>The row the watcher has read still makes the same call with the same nonce, or is gone for good.\<close>

definition gripped :: "string set \<Rightarrow> grip \<Rightarrow> table \<Rightarrow> bool" where
  "gripped R s T \<longleftrightarrow>
     (\<forall>r. grips s r \<and> ID r \<notin> R \<longrightarrow> (\<exists>r0. rows_by_id T (ID r) = Some r0 \<and> same_request r r0))"

text \<open>
  A row keeps its wallet and its call until it is removed, and a submitted row stays so and keeps its
  nonce.
\<close>

definition keeps_row :: "MetaTransactionRequest \<Rightarrow> MetaTransactionRequest \<Rightarrow> bool" where
  "keeps_row r r' \<longleftrightarrow> ID r' = ID r \<and> To r' = To r \<and> Data r' = Data r \<and>
     WalletIndex r' = WalletIndex r \<and> (active r \<longrightarrow> active r' \<and> Nonce r' = Nonce r)"

definition keeps_rows :: "table \<Rightarrow> table \<Rightarrow> bool" where
  "keeps_rows T T' \<longleftrightarrow>
     (\<forall>k r r'. rows_by_id T k = Some r \<and> rows_by_id T' k = Some r' \<longrightarrow> keeps_row r r')"

lemma keeps_row_refl [simp]: "keeps_row r r"
  by (simp add: keeps_row_def)

lemma gripped_start [simp]: "gripped R (q, None) T"
  by (simp add: gripped_def grips_def)

lemma keeps_rows_refl [simp]: "keeps_rows T T"
  by (auto simp: keeps_rows_def)

lemma same_request_trans: "same_request r1 r2 \<Longrightarrow> same_request r2 r3 \<Longrightarrow> same_request r1 r3"
  by (simp add: same_request_def)

lemma of_num_eq [simp]: "of_num x = of_num y \<longleftrightarrow> x = y" "of_num x = VNum n \<longleftrightarrow> x = Some n"
  by (auto simp: of_num_def split: option.splits)

text \<open>The change an UPDATE that keeps the call makes to a row.\<close>

lemma update_keeps_row:
  assumes ok: "update_allowed q vs x" and keeps: "update_keeps E (q, b) vs x"
    and ch: "changed_row vs r = Some r'"
  shows "ID r' = ID r \<and> To r' = To r \<and> Data r' = Data r \<and>
    (map_of vs Col_nonce = None \<longrightarrow> Nonce r' = Nonce r) \<and>
    (\<forall>n. map_of vs Col_nonce = Some (VNum n) \<longrightarrow> Nonce r' = Some n)"
proof -
  from ok have d: "distinct (map fst vs)" and noid: "map_of vs Col_id = None"
    by (auto simp: update_allowed_def)
  note f = changed_row_field [OF ch d]
  have "ID r' = ID r"
    using ch noid store_cols_ID [of vs r r'] by (simp add: changed_row_Some map_of_eq_None_iff)
  with f [of Col_to] f [of Col_data] f [of Col_nonce] keeps show ?thesis
    by (auto simp: update_keeps_def)
qed

lemma grip_update:
  assumes E: "eth_laws E" and inv: "table_inv T" and snd: "sound R i q T" and fit: "nonces_fit T"
    and grip: "gripped R (q, b) T" and ok: "update_allowed q vs x" and keeps: "update_keeps E (q, b) vs x"
    and run: "run_UPDATE vs [x] T = Some (res, T')"
  shows "nonces_fit T' \<and> keeps_rows T T' \<and>
    (map_of vs Col_submitted_block_number = None \<longrightarrow> gripped R (q, b) T')"
proof (cases "rows_by_id T' = rows_by_id T")
  case True
  have "keeps_rows T T'" using keeps_rows_refl [of T] unfolding keeps_rows_def True .
  with fit grip True show ?thesis by (simp add: nonces_fit_def gripped_def)
next
  case False
  with update_step [OF inv snd ok run] obtain r r' where r: "rows_by_id T x = Some r" "WalletIndex r = i"
    and ch: "changed_row vs r = Some r'" and rows: "rows_by_id T' = (rows_by_id T)(x \<mapsto> r')"
    and act: "WalletIndex r' = i" "active r'" "map_of vs Col_submitted_block_number = None \<longrightarrow> active r"
    by (elim exE conjE disjE) (simp, rule that)
  note row = update_keeps_row [OF ok keeps ch]
  have here: "x \<notin> R" using snd r(1) by (auto simp: sound_def)
  show ?thesis
  proof (cases "map_of vs Col_submitted_block_number = None")
    case True
    with fit r(1) act obtain m :: uint64 where m: "Nonce r = Some (uint m)" by (auto simp: nonces_fit_def)
    have same: "same_request r r'"
    proof (cases "map_of vs Col_nonce")
      case None
      with row show ?thesis by (simp add: same_request_def)
    next
      case (Some v)
      with keeps True obtain n r1 where v: "v = VNum (uint n)"
        and r1: "grips (q, b) r1" "ID r1 = x" "stored_nonce E r1 n"
        unfolding update_keeps_def by blast
      from grip r1(1,2) here r(1) have "same_request r1 r" by (auto simp: gripped_def)
      with r1(3) m have "n = DecimalUint64 E (uint m)" by (auto simp: stored_nonce_def same_request_def)
      with E have "n = m" by (simp add: eth_laws_def)
      with row Some v m show ?thesis by (simp add: same_request_def)
    qed
    then have "gripped R (q, b) T'"
      using grip r(1) unfolding gripped_def rows by (metis fun_upd_apply option.inject same_request_trans)
    moreover have "nonces_fit T'" using fit same m rows by (auto simp: nonces_fit_def same_request_def)
    moreover have "keeps_rows T T'" using same r act
      by (auto simp: keeps_rows_def rows keeps_row_def same_request_def)
    ultimately show ?thesis by blast
  next
    case False
    with ok have idle: "fst q = Idle" and "given vs Col_nonce"
      by (auto simp: update_allowed_def submit_data_def)
    then obtain v where "map_of vs Col_nonce = Some v" by (auto simp: given_def)
    with keeps row have "\<exists>n :: uint64. Nonce r' = Some (uint n)" by (auto simp: update_keeps_def)
    then have "nonces_fit T'" using fit rows by (auto simp: nonces_fit_def)
    moreover have "\<not> active r" using snd idle r by (auto simp: sound_def idle_def)
    with r rows row act have "keeps_rows T T'" by (auto simp: keeps_rows_def keeps_row_def)
    ultimately show ?thesis using False by blast
  qed
qed


lemma rows_only_removed:
  assumes "\<And>k. rows_by_id T' k \<in> {None, rows_by_id T k}" and "nonces_fit T"
  shows "nonces_fit T' \<and> keeps_rows T T'"
proof -
  have "rows_by_id T k = Some r" if "rows_by_id T' k = Some r" for k r
    using assms(1) [of k] that by auto
  then show ?thesis
    using assms(2) unfolding nonces_fit_def keeps_rows_def
    by (metis option.inject keeps_row_refl)
qed

text \<open>A call of the watcher itself.\<close>

lemma gripped_learn:
  assumes inv: "table_inv T" and ans: "answers le ms T rows"
    and grip: "gripped R (q, b) T"
  shows "gripped R (grip_next i (q, b) (Query ms (Inr rows))) T"
proof (cases "ms = asks_active i")
  case False
  with grip show ?thesis by (cases q) (simp add: grip_next_def gripped_def grips_def learn_def)
next
  case True
  have "rows_by_id T (ID r) = Some r" if "r \<in> set rows" for r
    using answers_mem [OF ans that] table_inv_rows_of [OF inv] by blast
  with True show ?thesis
    by (cases q; cases rows) (auto simp: grip_next_def gripped_def grips_def)
qed

lemma gripped_silent:
  assumes "\<And>ms rows. ev \<noteq> Query ms (Inr rows)" and "\<And>s r. ev \<noteq> Exec s r"
  shows "grip_next i (q, b) ev = (q, b)"
  using watch_next_silent [OF assms] assms
  by (cases "(i, b, ev)" rule: row_next.cases) (simp_all add: grip_next_def)

lemma grip_own:
  assumes E: "eth_laws E" and inv: "table_inv T" and snd: "sound R i q T" and fit: "nonces_fit T"
    and grip: "gripped R (q, b) T" and guar: "watch_guar q ev" "grip_guar E (q, b) ev"
    and db: "db_event le now ev T T'"
  shows "nonces_fit T' \<and> keeps_rows T T' \<and> gripped R (grip_next i (q, b) ev) T'"
proof -
  obtain kn K where q: "q = (kn, K)" by force
  consider (query) ms rows where "ev = Query ms (Inr rows)"
    | (upd) vs x res where "ev = Exec (UPDATE vs [x]) res" "update_allowed q vs x"
    | (del) x res where "ev = Exec (DELETE [x]) res" "length x = 27"
    | (other) "\<And>ms rows. ev \<noteq> Query ms (Inr rows)" "\<And>s r. ev \<noteq> Exec s r"
  proof (cases "\<exists>s res. ev = Exec s res")
    case True
    then obtain s res where "ev = Exec s res" by blast
    with guar(1) upd del show thesis by (cases s) auto
  next
    case False
    with query other show thesis by blast
  qed
  then show ?thesis
  proof cases
    case query
    with db have "answers le ms T rows" "T' = T" by simp_all
    with gripped_learn [OF inv _ grip] fit query show ?thesis by simp
  next
    case upd
    have keeps: "update_keeps E (q, b) vs x" using guar(2) by (simp add: upd(1))
    have "nonces_fit T' \<and> keeps_rows T T' \<and>
        (map_of vs Col_submitted_block_number = None \<longrightarrow> gripped R (q, b) T')"
      using grip_update [OF E inv snd fit grip upd(2) keeps] db_event_exec [OF db [unfolded upd(1)]] fit grip
      by auto
    then show ?thesis
      by (cases "map_of vs Col_submitted_block_number") (auto simp: upd(1) q grip_next_def)
  next
    case del
    have "rows_by_id T' k \<in> {None, rows_by_id T k}" for k
      using db_event_exec [OF db [unfolded del(1)]] delete_step [OF inv del(2)] by auto
    with rows_only_removed [OF _ fit] show ?thesis by (simp add: del(1) q grip_next_def)
  next
    case other
    with db have "T' = T" by (blast intro: db_event_no_exec)
    with fit grip gripped_silent [OF other] show ?thesis by simp
  qed
qed

text \<open>A call of someone else.\<close>

lemma arrived_queued:
  assumes "table_inv T" and "intake_event C n inputs ev" and "db_event le now ev T T'"
    and "rows_by_id T' x = Some r" and "active r"
  shows "rows_by_id T x = Some r"
proof (cases "rows_by_id T x")
  case None
  from intake_phase [OF assms(1-3), of x] phase_active [OF assms(5)] show ?thesis
    unfolding None assms(4) by (auto simp: phase_of_def [of None] elim: lifecycleE)
next
  case (Some r0)
  with intake_event_step [OF assms(1-3)] have "rows_by_id T' x = Some r0"
    by (auto simp: map_le_def dom_def)
  with Some assms(4) show ?thesis by simp
qed

lemma gripped_stable:
  assumes "sound R i q T" and "gripped R (q, b) T" and "R \<subseteq> R'"
    and "\<And>x r. rows_by_id T x = Some r \<Longrightarrow> WalletIndex r = i \<Longrightarrow> x \<notin> R' \<Longrightarrow> rows_by_id T' x = Some r"
  shows "gripped R' (q, b) T'"
  unfolding gripped_def
proof (intro allI impI, elim conjE)
  fix r
  assume r: "grips (q, b) r" "ID r \<notin> R'"
  with assms(2,3) obtain r0 where r0: "rows_by_id T (ID r) = Some r0" "same_request r r0"
    by (auto simp: gripped_def)
  from r(2) assms(3) have "ID r \<notin> R" by blast
  with r(1) assms(1) r0(1) have "WalletIndex r0 = i" by (simp add: grips_def sound_def)
  with assms(4) r0 r(2) show "\<exists>r0. rows_by_id T' (ID r) = Some r0 \<and> same_request r r0" by blast
qed


section \<open>The service\<close>

text \<open>
  Every watcher knows what it does about the table (as in System) and has the row it works on in its
  grip.
\<close>

definition watcher_grips ::
  "eth_lib \<Rightarrow> (string \<Rightarrow> string \<Rightarrow> bool) \<Rightarrow> int \<Rightarrow> Watcher \<Rightarrow> string set \<Rightarrow> bool outcome prog \<Rightarrow> table \<Rightarrow> bool" where
  "watcher_grips E le secs w R p T \<longleftrightarrow>
     (\<exists>q b. watch_ok le secs (walletIndex w) p q \<and> sound R (walletIndex w) q T \<and>
        grip.safe le (walletIndex w) E p (q, b) \<and> gripped R (q, b) T)"

definition grip_inv ::
  "eth_lib \<Rightarrow> Watcher list \<Rightarrow> (string \<Rightarrow> string \<Rightarrow> bool) \<Rightarrow> system \<Rightarrow> bool" where
  "grip_inv E ws le s \<longleftrightarrow> nonces_fit (tab s) \<and>
     (\<forall>k < length ws. watcher_grips E le (block_time s) (ws ! k) (removed s) (watching s ! k) (tab s))"

lemma started_grip:
  assumes "plain B" and "eth_laws E" and "started B E C ws s" and "nonces_fit (tab s)"
  shows "grip_inv E ws le s"
proof -
  from assms(3) have l2: "list_all2 (\<lambda>w p. \<exists>wakeups. p = watcher_goroutine B E (block_time s) w wakeups) ws (watching s)"
    and none: "removed s = {}"
    by (simp_all add: started_def)
  have "watcher_grips E le (block_time s) (ws ! k) (removed s) (watching s ! k) (tab s)" if "k < length ws" for k
  proof -
    from list_all2_nthD [OF l2 that] obtain wk where
      p: "watching s ! k = watcher_goroutine B E (block_time s) (ws ! k) wk" by blast
    have "watch_ok le (block_time s) (walletIndex (ws ! k)) (watching s ! k) (Unknown, {})"
      using watch_loop_safe [OF assms(1) refl, of le "ws ! k" E wk "(Unknown, {})"]
        watcher_goroutine_cases [of B E "block_time s" "ws ! k" wk]
      unfolding p watch_ok_def by metis
    moreover have "grip.safe le (walletIndex (ws ! k)) E (watching s ! k) ((Unknown, {}), None)"
      using watch_loop_grip [OF assms(1,2) refl, of le "ws ! k" wk "((Unknown, {}), None)"]
      unfolding p by (simp add: watcher_goroutine_def)
    ultimately show ?thesis
      unfolding watcher_grips_def none using sound_start gripped_start by blast
  qed
  with assms(4) show ?thesis by (simp add: grip_inv_def)
qed

lemma watcher_grips_own:
  assumes E: "eth_laws E" and inv: "table_inv T" and fit: "nonces_fit T"
    and grips: "watcher_grips E le secs w R p T" and step: "step_prog p ev = Some p'"
    and db: "db_event le now ev T T'"
  shows "nonces_fit T' \<and> keeps_rows T T' \<and> watcher_grips E le secs w R p' T' \<and>
    touches_only (walletIndex w) T T'"
proof -
  let ?i = "walletIndex w"
  from grips obtain q b where w: "watch_ok le secs ?i p q" "sound R ?i q T"
    and b: "grip.safe le ?i E p (q, b)" "gripped R (q, b) T"
    unfolding watcher_grips_def by blast
  note q = watch_ok_step [OF w(1) step] w(2)
  note ev = watcher_event [OF inv q step db]
  have "watch_rely le ?i (fst (q, b)) ev" using db_event_rely [OF inv q(2) db] by simp
  from grip.safe_step [OF b(1) step this] have g: "grip_guar E (q, b) ev"
    "grip.safe le ?i E p' (grip_next ?i (q, b) ev)" by auto
  from ev have "watch_guar q ev" by blast
  note own = grip_own [OF E inv q(2) fit b(2) this g(1) db]
  have "grip_next ?i (q, b) ev = (watch_next ?i q ev, row_next ?i b ev)" by (simp add: grip_next_def)
  with own g(2) ev have "watcher_grips E le secs w R p' T'" unfolding watcher_grips_def watch_ok_def by metis
  with own ev show ?thesis by blast
qed

lemma watcher_grips_stable:
  assumes "watcher_grips E le secs w R p T" and "R \<subseteq> R'"
    and "\<And>q. sound R (walletIndex w) q T \<Longrightarrow> sound R' (walletIndex w) q T'"
    and "\<And>x r. rows_by_id T x = Some r \<Longrightarrow> WalletIndex r = walletIndex w \<Longrightarrow> x \<notin> R' \<Longrightarrow>
      rows_by_id T' x = Some r"
  shows "watcher_grips E le secs w R' p T'"
  using assms(1) gripped_stable [OF _ _ assms(2,4)] assms(3) unfolding watcher_grips_def by blast

lemma system_step_grip:
  assumes B: "plain B" and E: "eth_laws E" and dist: "distinct (map walletIndex ws)"
    and inv: "sys_inv C ws le s" and grip: "grip_inv E ws le s"
    and st: "system_step B E C ws le s l s'" and once: "\<not> redelivered s'"
  shows "grip_inv E ws le s' \<and> keeps_rows (tab s) (tab s')"
proof -
  have tinv: "table_inv (tab s)" using inv by (simp add: sys_inv_def)
  from grip have fit: "nonces_fit (tab s)"
    and all: "\<forall>k < length ws. watcher_grips E le (block_time s) (ws ! k) (removed s) (watching s ! k) (tab s)"
    by (simp_all add: grip_inv_def)
  from st show ?thesis
  proof cases
    case (watcher_call k ev p now T)
    have k: "k < length ws" using inv watcher_call(3) by (simp add: sys_inv_def)
    note own = watcher_grips_own [OF E tinv fit all [rule_format, OF k] watcher_call(4,5)]
    have "watcher_grips E le (block_time s) (ws ! j) (removed s) ((watching s)[k := p] ! j) T" if j: "j < length ws" for j
    proof (cases "j = k")
      case True
      with own watcher_call(3) show ?thesis by simp
    next
      case False
      have "walletIndex (ws ! j) \<noteq> walletIndex (ws ! k)"
        using dist False j k by (simp add: distinct_conv_nth)
      with own have "sound (removed s) (walletIndex (ws ! j)) q T"
        if "sound (removed s) (walletIndex (ws ! j)) q (tab s)" for q
        using touches_stable that by blast
      moreover have "rows_by_id T x = Some r"
        if "rows_by_id (tab s) x = Some r" "WalletIndex r = walletIndex (ws ! j)" for x r
        using own that \<open>walletIndex (ws ! j) \<noteq> _\<close> unfolding touches_only_def by (metis option.inject)
      ultimately have "watcher_grips E le (block_time s) (ws ! j) (removed s) (watching s ! j) T"
        using watcher_grips_stable [OF all [rule_format, OF j] order_refl] by blast
      with False show ?thesis by simp
    qed
    with own show ?thesis by (simp add: watcher_call(1,2) grip_inv_def)
  next
    case (claim_call k ev p now T)
    from inv claim_call(3) obtain inputs h where "intake.safe C (int (length ws)) inputs (receiving s ! k) h"
      by (fastforce simp: sys_inv_def)
    note ev = claim_event [OF tinv this claim_call(4,5,6)]
    then have kept: "rows_by_id (tab s) \<subseteq>\<^sub>m rows_by_id T"
      and queued: "\<And>x r. rows_by_id T x = Some r \<Longrightarrow> active r \<Longrightarrow> rows_by_id (tab s) x = Some r"
      using intake_event_step [OF tinv _ claim_call(5)] arrived_queued [OF tinv _ claim_call(5)] by blast+
    have gone: "\<forall>x \<in> removed s. rows_by_id T x = None"
      using once claim_call(2) by (auto simp: rows_by_id_None)
    have "watcher_grips E le (block_time s) (ws ! j) (removed s) (watching s ! j) T" if j: "j < length ws" for j
      using watcher_grips_stable [OF all [rule_format, OF j] order_refl, of T] ev gone kept
      unfolding map_le_def dom_def by (metis (mono_tags, lifting) mem_Collect_eq option.distinct(1))
    moreover have "nonces_fit T" using fit queued unfolding nonces_fit_def by blast
    moreover have "keeps_rows (tab s) T"
      using kept unfolding keeps_rows_def map_le_def dom_def
      by (metis (mono_tags, lifting) mem_Collect_eq option.distinct(1) option.inject keeps_row_refl)
    ultimately show ?thesis by (simp add: claim_call(1,2) grip_inv_def)
  next
    case rpc_arrives
    with grip show ?thesis by (simp add: grip_inv_def)
  next
    case (rpc_call k ev p now T)
    let ?R = "removed s \<union> (ID ` set (tab s) - ID ` set T)"
    from inv rpc_call(3) obtain n where "clean.safe (cleaning s ! k) n"
      by (fastforce simp: sys_inv_def)
    note ev = rpc_event [OF tinv this rpc_call(4,5)]
    have kept: "rows_by_id T x = Some r" if "rows_by_id (tab s) x = Some r" "x \<notin> ?R" for x r
      using ev that by (metis UnCI DiffI insertE singletonD rows_by_id_None option.distinct(1))
    have "watcher_grips E le (block_time s) (ws ! j) ?R (watching s ! j) T" if j: "j < length ws" for j
      using watcher_grips_stable [OF all [rule_format, OF j], of ?R T] ev kept by blast
    with rows_only_removed [OF _ fit, of T] ev show ?thesis by (simp add: rpc_call(1,2) grip_inv_def)
  next
    case restart
    with started_grip [OF B E restart(2)] fit show ?thesis by simp
  qed
qed

lemma service_run_grip:
  assumes "plain B" and "eth_laws E" and "distinct (map walletIndex ws)"
    and "service_run B E C ws le h s" and "\<not> redelivered s"
  shows "grip_inv E ws le s"
  using assms(4,5)
proof induction
  case (begins s)
  have "nonces_fit (tab s)" using begins(4) rows_by_id_ID unfolding nonces_fit_def by blast
  then show ?case by (rule started_grip [OF assms(1,2) begins(1)])
next
  case (goes_on h s l s')
  then show ?case using system_step_grip [OF assms(1-3) service_run_inv [OF assms(1,3)]] step_redelivered by metis
qed


text \<open>What a watcher sends while its wallet has a submitted row.\<close>

lemma watcher_sends:
  assumes E: "eth_laws E" and inv: "table_inv (tab s)" and grip: "grip_inv E ws le s"
    and r: "r \<in> set (tab s)"
  shows "active r \<longrightarrow> (\<forall>k st res p. k < length ws \<and> walletIndex (ws ! k) = WalletIndex r \<and>
    step_prog (watching s ! k) (SendTransaction st res) = Some p \<longrightarrow>
    Nonce r = Some (uint (LegacyTx_Nonce (inner st))) \<and>
    LegacyTx_To (inner st) = BytesToAddress E (To r) \<and> LegacyTx_Data (inner st) = Data r)"
proof (intro allI impI, elim conjE)
  fix k res p and st :: SignedTx
  let ?i = "walletIndex (ws ! k)" and ?n = "LegacyTx_Nonce (inner st)"
  assume act_r: "active r" and k: "k < length ws" and w: "?i = WalletIndex r"
    and step: "step_prog (watching s ! k) (SendTransaction st res) = Some p"
  note row = table_inv_rows_of [OF inv]
  from grip k obtain q b where snd: "sound (removed s) ?i q (tab s)"
    and b: "grip.safe le ?i E (watching s ! k) (q, b)" "gripped (removed s) (q, b) (tab s)"
    unfolding grip_inv_def watcher_grips_def by blast
  have busy: "\<not> idle WalletIndex active ?i (rows_by_id (tab s))"
    using row(1) [OF r] act_r w by (auto simp: idle_def)
  from grip.safe_step [OF b(1) step] have "grip_guar E (q, b) (SendTransaction st res)" by simp
  moreover have "fst q \<noteq> Idle" using snd busy by (auto simp: sound_def)
  ultimately obtain r1 where r1: "grips (q, b) r1" "call_of E r1 (inner st)" "stored_nonce E r1 ?n" by auto
  then have act: "fst q = Active (ID r1)" by (simp add: grips_def)
  have here: "ID r1 \<notin> removed s" using snd busy act by (auto simp: sound_def)
  with snd act obtain r0 where r0: "rows_by_id (tab s) (ID r1) = Some r0" "WalletIndex r0 = ?i" "active r0"
    by (auto simp: sound_def)
  have "r0 = r" using table_inv_unique [OF inv _ r r0(3) act_r] r0 w rows_by_id_ID by metis
  with b(2) r1(1) here r0(1) have same: "same_request r1 r" by (auto simp: gripped_def)
  from grip row(1) [OF r] act_r obtain m :: uint64 where m: "Nonce r = Some (uint m)"
    unfolding grip_inv_def nonces_fit_def by blast
  with same r1(3) E have "?n = m" by (auto simp: stored_nonce_def same_request_def eth_laws_def)
  with m same r1(2) show "Nonce r = Some (uint ?n) \<and>
      LegacyTx_To (inner st) = BytesToAddress E (To r) \<and> LegacyTx_Data (inner st) = Data r"
    by (simp add: call_of_def same_request_def)
qed

end
