(* ===== verification/Delivery.thy ===== *)
theory Delivery
  imports History
begin

text \<open>
  Delivery through the whole service: a request whose message has been marked is in the table, or
  its end was announced, or a call of the RPC method has asked for its removal. The parts of the
  argument are the log of every claim (a message is marked after its insert), of every watcher (a
  row is deleted after its end was announced) and of every call of the RPC method (a row is deleted
  after it was read as the oldest), each within the history of the service.
\<close>

declare One_nat_def [simp del]

section \<open>What has become of a request\<close>

text \<open>Its insert was acknowledged.\<close>

definition was_stored :: "consumer_lib \<Rightarrow> int \<Rightarrow> event list \<Rightarrow> string \<Rightarrow> bool" where
  "was_stored C n h x \<longleftrightarrow>
     (\<exists>s re msg data. arrival_stmt C n msg s \<and> Unmarshal C (Value msg) = Inr data \<and>
        EventData_ID data = x \<and> Exec s (Inr re) \<in> set h)"

text \<open>Its end was announced.\<close>

definition finished :: "event list \<Rightarrow> string \<Rightarrow> bool" where
  "finished h x \<longleftrightarrow> (\<exists>m. Notify m \<in> set h \<and> terminal m \<and> request_id m = x)"

text \<open>A call of the RPC method has read its row as the oldest, to remove it.\<close>

definition asked_removal :: "event list \<Rightarrow> string \<Rightarrow> bool" where
  "asked_removal h x \<longleftrightarrow>
     (\<exists>r rs. Query (MetaTransactionRequests oldest_request @ [Limit 1]) (Inr (r # rs)) \<in> set h \<and> ID r = x)"

definition settled :: "event list \<Rightarrow> table \<Rightarrow> string \<Rightarrow> bool" where
  "settled h T x \<longleftrightarrow> rows_by_id T x \<noteq> None \<or> finished h x \<or> asked_removal h x"

lemma finished_mono: "finished h x \<Longrightarrow> set h \<subseteq> set h' \<Longrightarrow> finished h' x"
  unfolding finished_def by blast

lemma asked_removal_mono: "asked_removal h x \<Longrightarrow> set h \<subseteq> set h' \<Longrightarrow> asked_removal h' x"
  unfolding asked_removal_def by blast

text \<open>What a call of the RPC method has read when it removes a row.\<close>

fun asked_guar :: "event list \<Rightarrow> event \<Rightarrow> bool" where
  "asked_guar h (Exec (DELETE ids) res) = (\<exists>x. ids = [x] \<and> asked_removal h x)"
| "asked_guar h ev = True"

interpretation asked: monitor "\<lambda>h ev. True" asked_guar "\<lambda>h ev. h @ [ev]" "\<lambda>h r. True" .

lemma Clean_asked:
  assumes "plain B"
  shows "asked.safe (CleanStuckMetaTransactions B) h"
  unfolding Clean_plain [OF assms]
  by (auto simp: asked.admits_def asked_removal_def split: sum.split list.split)

section \<open>Who removes a row\<close>

lemma watcher_removes:
  assumes inv: "table_inv T" and snd: "sound R i q T" and guar: "watch_guar q ev"
    and db: "db_event le now ev T T'" and gone: "rows_by_id T x \<noteq> None" "rows_by_id T' x = None"
  shows "\<exists>res. ev = Exec (DELETE [x]) res"
proof -
  from gone have "T' \<noteq> T" by auto
  with db db_event_no_exec obtain s res where ev: "ev = Exec s res" by metis
  with db \<open>T' \<noteq> T\<close> db_event_exec obtain re where run: "run_stmt le now s T = Some (re, T')" by blast
  show ?thesis
  proof (cases s)
    case (UPDATE vs ids)
    with guar ev obtain y where y: "ids = [y]" "update_allowed q vs y" by auto
    with run UPDATE have "run_UPDATE vs [y] T = Some (re, T')" by simp
    from update_step [OF inv snd y(2) this] gone show ?thesis by (auto split: if_splits)
  next
    case (DELETE ids)
    with guar ev obtain y where y: "ids = [y]" "length y = 27" by auto
    with run DELETE have "run_DELETE [y] T = Some (re, T')" by simp
    from delete_step [OF inv y(2) this] gone have "x = y" by (auto split: if_splits)
    with ev DELETE y show ?thesis by simp
  qed (use guar ev in simp_all)
qed

lemma rpc_removes:
  assumes inv: "table_inv T" and guar: "clean_guar n ev"
    and db: "db_event le now ev T T'" and gone: "rows_by_id T x \<noteq> None" "rows_by_id T' x = None"
  shows "\<exists>res. ev = Exec (DELETE [x]) res"
proof -
  from gone have "T' \<noteq> T" by auto
  with db db_event_no_exec obtain s res where ev: "ev = Exec s res" by metis
  with guar obtain y where y: "s = DELETE [y]" "length y = 27" by (cases s) auto
  with ev db \<open>T' \<noteq> T\<close> db_event_exec obtain re where "run_DELETE [y] T = Some (re, T')" by fastforce
  from delete_step [OF inv y(2) this] gone have "x = y" by (auto split: if_splits)
  with ev y show ?thesis by simp
qed

section \<open>The invariant of the histories\<close>

definition delivery_inv :: "consumer_lib \<Rightarrow> int \<Rightarrow> event list \<Rightarrow> system \<Rightarrow> bool" where
  "delivery_inv C n h s \<longleftrightarrow>
     (\<forall>x. was_stored C n h x \<longrightarrow> settled h (tab s) x) \<and>
     (\<forall>msg data. MarkMessage msg \<in> set h \<and> Unmarshal C (Value msg) = Inr data \<and>
        length (EventData_ID data) = 27 \<longrightarrow> was_stored C n h (EventData_ID data)) \<and>
     (\<forall>p \<in> set (receiving s). \<exists>l. set l \<subseteq> set h \<and> (\<exists>inputs. intake.safe C n inputs p l)) \<and>
     (\<forall>p \<in> set (cleaning s). \<exists>l. set l \<subseteq> set h \<and> asked.safe p l)"

lemma settled_step:
  assumes "\<forall>x. was_stored C n h x \<longrightarrow> settled h T x"
    and "\<And>x. was_stored C n [ev] x \<Longrightarrow> rows_by_id T' x \<noteq> None"
    and "\<And>x. rows_by_id T x \<noteq> None \<Longrightarrow> rows_by_id T' x = None \<Longrightarrow> finished h x \<or> asked_removal h x"
  shows "\<forall>x. was_stored C n (h @ [ev]) x \<longrightarrow> settled (h @ [ev]) T' x"
proof (intro allI impI)
  fix x
  assume "was_stored C n (h @ [ev]) x"
  then consider "was_stored C n h x" | "was_stored C n [ev] x" by (fastforce simp: was_stored_def)
  then have "settled h T' x"
  proof cases
    case 1
    with assms(1,3) show ?thesis unfolding settled_def by blast
  next
    case 2
    with assms(2) show ?thesis unfolding settled_def by blast
  qed
  then show "settled (h @ [ev]) T' x"
    unfolding settled_def using finished_mono asked_removal_mono by (metis set_append sup_ge1)
qed

lemma marked_step:
  assumes "\<forall>msg data. MarkMessage msg \<in> set h \<and> Unmarshal C (Value msg) = Inr data \<and>
        length (EventData_ID data) = 27 \<longrightarrow> was_stored C n h (EventData_ID data)"
    and "\<And>msg data. ev = MarkMessage msg \<Longrightarrow> Unmarshal C (Value msg) = Inr data \<Longrightarrow>
        length (EventData_ID data) = 27 \<Longrightarrow> was_stored C n h (EventData_ID data)"
  shows "\<forall>msg data. MarkMessage msg \<in> set (h @ [ev]) \<and> Unmarshal C (Value msg) = Inr data \<and>
        length (EventData_ID data) = 27 \<longrightarrow> was_stored C n (h @ [ev]) (EventData_ID data)"
proof -
  have "was_stored C n h x \<Longrightarrow> was_stored C n (h @ [ev]) x" for x
    unfolding was_stored_def by (metis UnI1 set_append)
  with assms show ?thesis by (metis Un_iff empty_iff list.set(1,2) insert_iff set_append)
qed

text \<open>The programs that wait while another makes a call.\<close>

lemma logs_wait:
  assumes "\<forall>p \<in> set ps. \<exists>l. set l \<subseteq> set h \<and> P p l"
  shows "\<forall>p \<in> set ps. \<exists>l. set l \<subseteq> set (h @ h') \<and> P p l"
  using assms by (metis set_append le_supI1)

lemma logs_call:
  assumes "\<forall>p \<in> set ps. \<exists>l. set l \<subseteq> set h \<and> P p l"
    and "\<exists>l. set l \<subseteq> set (h @ [ev]) \<and> P p l"
  shows "\<forall>p' \<in> set (ps[k := p]). \<exists>l. set l \<subseteq> set (h @ [ev]) \<and> P p' l"
  using assms(2) logs_wait [OF assms(1), of "[ev]"] set_update_subset_insert [of ps k p] by blast


lemma started_delivery:
  assumes "plain B" and "started B E C ws s"
    and "\<forall>x. was_stored C (int (length ws)) h x \<longrightarrow> settled h (tab s) x"
    and "\<forall>msg data. MarkMessage msg \<in> set h \<and> Unmarshal C (Value msg) = Inr data \<and>
        length (EventData_ID data) = 27 \<longrightarrow> was_stored C (int (length ws)) h (EventData_ID data)"
  shows "delivery_inv C (int (length ws)) h s"
proof -
  from assms(2) have rec: "list_all (\<lambda>p. \<exists>inputs. p = ConsumeClaim B C (int (length ws)) inputs) (receiving s)"
    and none: "cleaning s = []"
    by (simp_all add: started_def)
  have "\<exists>l. set l \<subseteq> set h \<and> (\<exists>inputs. intake.safe C (int (length ws)) inputs p l)" if "p \<in> set (receiving s)" for p
  proof -
    from rec that obtain inputs where "p = ConsumeClaim B C (int (length ws)) inputs"
      by (auto simp: list_all_iff)
    with ConsumeClaim_intake [OF assms(1) order_refl, of C "int (length ws)" inputs "[]"] show ?thesis
      by (intro exI [of _ "[]"]) auto
  qed
  with assms(3,4) none show ?thesis by (simp add: delivery_inv_def)
qed

lemma system_step_delivery:
  assumes B: "plain B" and inv: "sys_inv C ws le s" and hist: "hist_inv E ws h s"
    and dlv: "delivery_inv C (int (length ws)) h s" and st: "system_step B E C ws le s l s'"
  shows "delivery_inv C (int (length ws)) (h @ l) s'"
proof -
  let ?n = "int (length ws)" and ?i = "\<lambda>k. walletIndex (ws ! k)"
  have tinv: "table_inv (tab s)" using inv by (simp add: sys_inv_def)
  from dlv have settled: "\<forall>x. was_stored C ?n h x \<longrightarrow> settled h (tab s) x"
    and marked: "\<forall>msg data. MarkMessage msg \<in> set h \<and> Unmarshal C (Value msg) = Inr data \<and>
        length (EventData_ID data) = 27 \<longrightarrow> was_stored C ?n h (EventData_ID data)"
    and claims: "\<forall>p \<in> set (receiving s). \<exists>l. set l \<subseteq> set h \<and> (\<exists>inputs. intake.safe C ?n inputs p l)"
    and calls: "\<forall>p \<in> set (cleaning s). \<exists>l. set l \<subseteq> set h \<and> asked.safe p l"
    unfolding delivery_inv_def by blast+
  from st show ?thesis
  proof cases
    case (watcher_call k ev p now T)
    from inv watcher_call(3) obtain q where k: "k < length ws"
      and w: "watch_ok le (block_time s) (?i k) (watching s ! k) q" "sound (removed s) (?i k) q (tab s)"
      by (auto simp: sys_inv_def)
    note q = watch_ok_step [OF w(1) watcher_call(4)] w(2)
    from watcher_event [OF tinv q watcher_call(4,5)] have guar: "watch_guar q ev" by blast
    from hist k obtain lk where lk: "set lk \<subseteq> set h" "since.safe E (ws ! k) (watching s ! k) lk"
      by (auto simp: hist_inv_def)
    from since.safe_step [OF lk(2) watcher_call(4)] have tick: "loop_guar E (ws ! k) lk ev" by simp
    have "\<not> was_stored C ?n [ev] x" for x
      using guar by (auto simp: was_stored_def arrival_stmt_def)
    moreover have "finished h x" if "rows_by_id (tab s) x \<noteq> None" "rows_by_id T x = None" for x
    proof -
      from watcher_removes [OF tinv q(2) guar watcher_call(5) that] obtain res where
        "ev = Exec (DELETE [x]) res" by blast
      with tick have "finished lk x" by (auto simp: tick_guar.simps finished_def)
      then show ?thesis using lk(1) by (rule finished_mono)
    qed
    ultimately have "\<forall>x. was_stored C ?n (h @ [ev]) x \<longrightarrow> settled (h @ [ev]) T x"
      by (intro settled_step [OF settled]) blast+
    moreover have "ev \<noteq> MarkMessage msg" for msg using tick by (auto simp: tick_guar.simps)
    then have "\<forall>msg data. MarkMessage msg \<in> set (h @ [ev]) \<and> Unmarshal C (Value msg) = Inr data \<and>
        length (EventData_ID data) = 27 \<longrightarrow> was_stored C ?n (h @ [ev]) (EventData_ID data)"
      by (intro marked_step [OF marked]) blast
    ultimately show ?thesis
      using logs_wait [OF claims, of "[ev]"] logs_wait [OF calls, of "[ev]"]
      unfolding watcher_call(1,2) delivery_inv_def by simp
  next
    case (claim_call k ev p now T)
    from claims claim_call(3) obtain inputs lk where lk: "set lk \<subseteq> set h"
      "intake.safe C ?n inputs (receiving s ! k) lk" by (meson nth_mem)
    note ev = claim_event [OF tinv lk(2) claim_call(4,5,6)]
    then have kept: "rows_by_id (tab s) \<subseteq>\<^sub>m rows_by_id T"
      using intake_event_step [OF tinv _ claim_call(5)] by blast
    have "intake_rely lk ev"
      using claim_call(5,6) by (cases "(lk, ev)" rule: intake_rely.cases) (auto simp: in_range_def)
    with intake.safe_step [OF lk(2) claim_call(4)] have guar: "intake_guar C ?n inputs lk ev" by blast
    have "rows_by_id T x \<noteq> None" if st: "was_stored C ?n [ev] x" for x
    proof -
      from st obtain s0 re msg data where s0: "arrival_stmt C ?n msg s0" "Unmarshal C (Value msg) = Inr data"
        "EventData_ID data = x" "ev = Exec s0 (Inr re)" by (auto simp: was_stored_def)
      with claim_call(5) have "run_stmt le now s0 (tab s) = Some (re, T)" by simp
      from arrival_stored(1) [OF tinv s0(1,2) this] s0(3) show ?thesis by simp
    qed
    then have "\<forall>x. was_stored C ?n (h @ [ev]) x \<longrightarrow> settled (h @ [ev]) T x"
      using kept by (intro settled_step [OF settled]) (auto simp: map_le_def dom_def)
    moreover have "was_stored C ?n h (EventData_ID data)"
      if "ev = MarkMessage msg" "Unmarshal C (Value msg) = Inr data" "length (EventData_ID data) = 27"
      for msg data
    proof -
      from guar that obtain s0 re where "arrival_stmt C ?n msg s0" "Exec s0 (Inr re) \<in> set lk"
        by (auto simp: unusable_def)
      with that(2) lk(1) show ?thesis unfolding was_stored_def by blast
    qed
    then have "\<forall>msg data. MarkMessage msg \<in> set (h @ [ev]) \<and> Unmarshal C (Value msg) = Inr data \<and>
        length (EventData_ID data) = 27 \<longrightarrow> was_stored C ?n (h @ [ev]) (EventData_ID data)"
      by (rule marked_step [OF marked])
    moreover have "\<exists>l. set l \<subseteq> set (h @ [ev]) \<and> (\<exists>inputs. intake.safe C ?n inputs p l)"
      using ev lk(1) by (intro exI [of _ "lk @ [ev]"]) auto
    ultimately show ?thesis
      using logs_call [OF claims, of ev p k] logs_wait [OF calls, of "[ev]"]
      unfolding claim_call(1,2) delivery_inv_def by simp
  next
    case rpc_arrives
    have "\<exists>l. set l \<subseteq> set h \<and> asked.safe (CleanStuckMetaTransactions B) l"
      using Clean_asked [OF B, of "[]"] by (intro exI [of _ "[]"]) simp
    with settled marked claims calls show ?thesis
      unfolding rpc_arrives delivery_inv_def by simp
  next
    case (rpc_call k ev p now T)
    from inv rpc_call(3) obtain m where "clean.safe (cleaning s ! k) m"
      by (fastforce simp: sys_inv_def)
    from rpc_event [OF tinv this rpc_call(4,5)] have guar: "clean_guar m ev" by blast
    from calls rpc_call(3) obtain lk where lk: "set lk \<subseteq> set h" "asked.safe (cleaning s ! k) lk"
      by (meson nth_mem)
    from asked.safe_step [OF lk(2) rpc_call(4)] have asked: "asked_guar lk ev" "asked.safe p (lk @ [ev])"
      by auto
    have "\<not> was_stored C ?n [ev] x" for x
      using guar by (auto simp: was_stored_def arrival_stmt_def)
    moreover have "asked_removal h x" if "rows_by_id (tab s) x \<noteq> None" "rows_by_id T x = None" for x
      using rpc_removes [OF tinv guar rpc_call(5) that] asked(1) asked_removal_mono [OF _ lk(1)] by auto
    ultimately have "\<forall>x. was_stored C ?n (h @ [ev]) x \<longrightarrow> settled (h @ [ev]) T x"
      by (intro settled_step [OF settled]) blast+
    moreover have "ev \<noteq> MarkMessage msg" for msg using guar by auto
    then have "\<forall>msg data. MarkMessage msg \<in> set (h @ [ev]) \<and> Unmarshal C (Value msg) = Inr data \<and>
        length (EventData_ID data) = 27 \<longrightarrow> was_stored C ?n (h @ [ev]) (EventData_ID data)"
      by (intro marked_step [OF marked]) blast
    moreover have "\<exists>l. set l \<subseteq> set (h @ [ev]) \<and> asked.safe p l"
      using asked(2) lk(1) by (intro exI [of _ "lk @ [ev]"]) auto
    ultimately show ?thesis
      using logs_call [OF calls, of ev p k] logs_wait [OF claims, of "[ev]"]
      unfolding rpc_call(1,2) delivery_inv_def by simp
  next
    case restart
    with started_delivery [OF B restart(2), of h] settled marked show ?thesis by simp
  qed
qed

lemma service_run_delivery:
  assumes "plain B" and "distinct (map walletIndex ws)" and "service_run B E C ws le h s"
    and "\<not> redelivered s"
  shows "delivery_inv C (int (length ws)) h s"
  using assms(3,4)
proof induction
  case (begins s)
  then show ?case by (intro started_delivery [OF assms(1)]) (auto simp: was_stored_def)
next
  case (goes_on h s l s')
  then have "\<not> redelivered s" using step_redelivered by metis
  with goes_on system_step_delivery [OF assms(1) service_run_inv [OF assms(1,2)] service_run_hist [OF assms(1,2)]]
  show ?case by blast
qed

end
