(* ===== verification/Tick_Branches.thy ===== *)
theory Tick_Branches
  imports Ticker
begin

text \<open>
  The branches of a tick as complete executions: for each one the list of its calls with the
  answers that lead to it, and the proof that the tick makes exactly these calls, in this order,
  and returns what it returns. The lists are definitions, so that statements can name them.
\<close>

declare One_nat_def [simp del]

section \<open>The two queries\<close>

definition ask_active :: "Watcher \<Rightarrow> query_mod list" where
  "ask_active w = MetaTransactionRequests (active_request w) @ [Limit 1]"

definition ask_next :: "Watcher \<Rightarrow> query_mod list" where
  "ask_next w = MetaTransactionRequests (next_request w) @ [Limit 1]"

lemma query_simps:
  "limit_of (ask_active w) = Some 1" "limit_of (ask_next w) = Some 1"
  "order_col (ask_active w) = None" "order_col (ask_next w) = Some Col_id"
  "matches le (ask_active w) r \<longleftrightarrow> active r \<and> WalletIndex r = walletIndex w"
  "matches le (ask_next w) r \<longleftrightarrow> WalletIndex r = walletIndex w"
  by (auto simp: ask_active_def ask_next_def active_request_def next_request_def
      MetaTransactionRequests_eq where_helper_defs matches_def active_def)

definition update_of :: "col list \<Rightarrow> time \<Rightarrow> MetaTransactionRequest \<Rightarrow> stmt" where
  "update_of cs t obj = UPDATE (bound_values cs (stamp_update t obj)) [ID obj]"

section \<open>The part after the submitted transaction\<close>

text \<open>Nothing to do.\<close>

definition idle_calls :: "Watcher \<Rightarrow> event list" where
  "idle_calls w =
     [SetGauge (SubmittedTxBlockAge (Itoa (walletIndex w))) (FLit 0), Query (ask_next w) (Inr [])]"

lemma idle_run:
  assumes "plain B"
  shows "run_trace (submit_next B E w) (idle_calls w) = Some ok"
  unfolding submit_next_def idle_calls_def ask_next_def
  by (simp add: One_plain [OF assms])

text \<open>The next request, from the query to its estimate.\<close>

definition next_calls ::
  "eth_lib \<Rightarrow> Watcher \<Rightarrow> MetaTransactionRequest \<Rightarrow> Header \<Rightarrow> uint64 \<Rightarrow> int \<Rightarrow> event list" where
  "next_calls E w r head nonce suggested =
     [SetGauge (SubmittedTxBlockAge (Itoa (walletIndex w))) (FLit 0),
      Query (ask_next w) (Inr [r]),
      HeaderByNumber (Inr head),
      SetGauge LatestBlock (OfBig (Number head)),
      PendingNonceAt (senderAddress w) (Inr nonce),
      SuggestGasPrice (Inr suggested)]"

definition submit_calls ::
  "eth_lib \<Rightarrow> Watcher \<Rightarrow> MetaTransactionRequest \<Rightarrow> Header \<Rightarrow> uint64 \<Rightarrow> int \<Rightarrow> uint64 \<Rightarrow> bytes \<Rightarrow>
   SignedTx \<Rightarrow> time \<Rightarrow> event list" where
  "submit_calls E w r head nonce suggested gas sig st t =
     (let call = call_msg E w r (2 * suggested);
          txd = legacy_tx nonce (2 * suggested) (2 * gas) call
      in next_calls E w r head nonce suggested @
         [EstimateGas call (Inr gas),
          Sign (SignerHash E (chainID w) txd) (Inr sig),
          SendTransaction st None,
          Now t,
          Exec (update_of submit_columns t (submitted E head nonce (2 * suggested) st r)) (Inr (1, [])),
          Notify (Submitted \<lparr>SubmittedMsg_ID = ID r, SubmittedMsg_Hash = TxHash E st\<rparr>)])"

lemma submit_run:
  assumes "plain B"
    and "WithSignature E (chainID w)
      (legacy_tx nonce (2 * suggested) (2 * gas) (call_msg E w r (2 * suggested))) sig = Inr st"
  shows "run_trace (submit_next B E w) (submit_calls E w r head nonce suggested gas sig st t) = Some ok"
proof -
  have ne: "submit_columns \<noteq> []" by (simp add: submit_columns_def)
  have id: "ID (submitted E head n p s r) = ID r" for n p s by (simp add: submitted_def)
  show ?thesis
    unfolding submit_next_def send_request_def submit_calls_def next_calls_def ask_next_def Let_def
    by (simp add: One_plain [OF assms(1)] sign_tx_def assms(2) Update_plain [OF assms(1) ne] update_of_def id)
qed

text \<open>A request that cannot be estimated is announced as failed, with its revert data, and removed.\<close>

definition drop_calls ::
  "eth_lib \<Rightarrow> MetaTransactionRequest \<Rightarrow> CallMsg \<Rightarrow> string \<Rightarrow> int \<Rightarrow> errdata \<Rightarrow> event list" where
  "drop_calls E r call msg code d =
     [EstimateGas call (Inl (ErrJSONRPC msg code d)),
      Notify (Failed \<lparr>FailedMsg_ID = ID r, FailedMsg_Data = revert_data E d\<rparr>),
      Exec (DELETE [ID r]) (Inr (1, []))]"

lemma drop_run:
  assumes "plain B"
  shows "run_trace (submit_next B E w)
    (next_calls E w r head nonce suggested @
     drop_calls E r (call_msg E w r (2 * suggested)) msg code d) = Some ok"
  unfolding submit_next_def send_request_def next_calls_def ask_next_def drop_calls_def Let_def
    estimate_failed_def
  by (simp add: One_plain [OF assms] Delete_plain [OF assms])

section \<open>The submitted transaction\<close>

text \<open>Up to the receipt.\<close>

definition active_calls ::
  "eth_lib \<Rightarrow> Watcher \<Rightarrow> MetaTransactionRequest \<Rightarrow> Header \<Rightarrow> goerror + Receipt \<Rightarrow> event list" where
  "active_calls E w r head receipt =
     [Query (ask_active w) (Inr [r]),
      HeaderByNumber (Inr head),
      SetGauge LatestBlock (OfBig (Number head)),
      SetGauge (SubmittedTxBlockAge (Itoa (walletIndex w)))
        (FSub (OfBig (Number head)) (OfBig (the (SubmittedBlockNumber r)))),
      TransactionReceipt (BytesToHash E (null_bytes (Hash r))) receipt]"

lemma active_run:
  assumes "plain B" and "SubmittedBlockNumber r = Some sub"
  shows "run_trace (Tick B E w) (active_calls E w r head (Inr rec) @ es) =
      run_trace (included B E w (Number head) rec r) es"
    and "run_trace (Tick B E w) (active_calls E w r head (Inl ErrNotFound) @ es) =
      run_trace (not_included B E w (Number head) r) es"
    and "err \<noteq> ErrNotFound \<Longrightarrow> run_trace (Tick B E w) (active_calls E w r head (Inl err)) =
      Some (fail (ErrWrap ''error retrieving transaction receipt'' err))"
  unfolding Tick_def active_calls_def ask_active_def tick_active_def
  by (simp_all add: One_plain [OF assms(1)] assms(2))

definition mine_calls ::
  "eth_lib \<Rightarrow> MetaTransactionRequest \<Rightarrow> Receipt \<Rightarrow> time \<Rightarrow> event list" where
  "mine_calls E r rec t =
     [Notify (Mined \<lparr>MinedMsg_ID = ID r, MinedMsg_Hash = BytesToHash E (null_bytes (Hash r))\<rparr>),
      Now t, Exec (update_of mined_columns t (mined_at E rec r)) (Inr (1, []))]"

definition move_calls ::
  "eth_lib \<Rightarrow> MetaTransactionRequest \<Rightarrow> Receipt \<Rightarrow> time \<Rightarrow> event list" where
  "move_calls E r rec t =
     [Now t, Exec (update_of mined_columns t (mined_at E rec r)) (Inr (1, []))]"

definition confirm_calls ::
  "eth_lib \<Rightarrow> MetaTransactionRequest \<Rightarrow> Receipt \<Rightarrow> event list" where
  "confirm_calls E r rec =
     [Notify (Confirmed (confirmed_msg E rec r)), Exec (DELETE [ID r]) (Inr (1, []))]"

text \<open>The four outcomes of a receipt.\<close>

lemma record_mined_run:
  assumes "plain B"
  shows "run_trace (record_mined B E rec r) (move_calls E r rec t) = Some ok"
proof -
  have ne: "mined_columns \<noteq> []" by (simp add: mined_columns_def)
  show ?thesis
    by (simp add: record_mined_def move_calls_def Update_plain [OF assms ne] update_of_def)
qed

lemma mine_run:
  assumes "plain B" and "MinedBlockNumber r = None"
  shows "run_trace (included B E w headNum rec r) (mine_calls E r rec t) = Some ok"
  using record_mined_run [OF assms(1), of E rec r t] assms(2)
  by (simp add: included_def mine_calls_def move_calls_def)

lemma confirm_run:
  assumes "plain B" and "MinedBlockNumber r \<noteq> None"
    and "headNum - BlockNumber rec \<ge> confirmationBlocks w"
  shows "run_trace (included B E w headNum rec r) (confirm_calls E r rec @ es) =
    run_trace (submit_next B E w) es"
  using assms(2,3) by (auto simp: included_def confirm_calls_def Delete_plain [OF assms(1)])

lemma move_run:
  assumes "plain B" and "MinedBlockNumber r \<noteq> None"
    and "\<not> headNum - BlockNumber rec \<ge> confirmationBlocks w"
    and "BlockHash rec \<noteq> BytesToHash E (null_bytes (MinedBlockHash r))"
  shows "run_trace (included B E w headNum rec r) (move_calls E r rec t) = Some ok"
  using record_mined_run [OF assms(1), of E rec r t] assms(2-4) by (auto simp: included_def)

lemma wait_run:
  assumes "MinedBlockNumber r \<noteq> None" and "\<not> headNum - BlockNumber rec \<ge> confirmationBlocks w"
    and "BlockHash rec = BytesToHash E (null_bytes (MinedBlockHash r))"
  shows "run_trace (included B E w headNum rec r) [] = Some ok"
  using assms by (simp add: included_def)

text \<open>No receipt: forget the block it was mined in, and boost when it is due.\<close>

definition unmine_calls :: "MetaTransactionRequest \<Rightarrow> time \<Rightarrow> event list" where
  "unmine_calls r t =
     (if MinedBlockNumber r = None then []
      else [Now t, Exec (update_of mined_columns t
              (r\<lparr>MinedBlockNumber := None, MinedBlockHash := None\<rparr>)) (Inr (1, []))])"

definition unmined :: "MetaTransactionRequest \<Rightarrow> time \<Rightarrow> MetaTransactionRequest" where
  "unmined r t =
     (if MinedBlockNumber r = None then r
      else stamp_update t (r\<lparr>MinedBlockNumber := None, MinedBlockHash := None\<rparr>))"

lemma unmine_run:
  assumes "plain B"
  shows "run_trace (not_included B E w headNum r) (unmine_calls r t @ es) =
    run_trace (maybe_boost B E w headNum (unmined r t)) es"
proof -
  have ne: "mined_columns \<noteq> []" by (simp add: mined_columns_def)
  show ?thesis
    by (simp add: not_included_def unmine_calls_def unmined_def Update_plain [OF assms ne] update_of_def)
qed

definition boost_calls ::
  "eth_lib \<Rightarrow> Watcher \<Rightarrow> MetaTransactionRequest \<Rightarrow> int \<Rightarrow> int \<Rightarrow> uint64 \<Rightarrow> bytes \<Rightarrow> SignedTx \<Rightarrow>
   time \<Rightarrow> goerror option \<Rightarrow> event list" where
  "boost_calls E w r headNum suggested gas sig st t sent =
     (let price = boost_price suggested (the (GasPrice r));
          nonce = DecimalUint64 E (the (Nonce r));
          call = call_msg E w r price
      in [SuggestGasPrice (Inr suggested),
          EstimateGas call (Inr gas),
          Sign (SignerHash E (chainID w) (legacy_tx nonce price (2 * gas) call)) (Inr sig),
          Now t,
          Exec (update_of boost_columns t (boosted E headNum nonce price st r)) (Inr (1, [])),
          SendTransaction st sent])"

lemma boost_run:
  assumes "plain B" and "GasPrice r = Some p" and "Nonce r = Some n"
    and "WithSignature E (chainID w)
      (legacy_tx (DecimalUint64 E n) (boost_price suggested p) (2 * gas)
        (call_msg E w r (boost_price suggested p))) sig = Inr st"
  shows "run_trace (boost B E w headNum r) (boost_calls E w r headNum suggested gas sig st t sent) =
    Some (Ret (Returned sent))"
proof -
  have ne: "boost_columns \<noteq> []" by (simp add: boost_columns_def)
  have id: "ID (boosted E h n p s r) = ID r" for h n p s by (simp add: boosted_def)
  show ?thesis
    unfolding boost_def boost_calls_def Let_def
    by (simp add: assms(2-4) sign_tx_def Update_plain [OF assms(1) ne] update_of_def id)
qed

text \<open>When a boost is due.\<close>

lemma maybe_boost_due:
  assumes "last_send r = Some n"
  shows "maybe_boost B E w headNum r =
    (if n + boostAfterBlocks w \<le> headNum \<and> \<not> disableBoosting w then boost B E w headNum r else ok)"
  using assms by (auto simp: maybe_boost_def)

text \<open>The object that has forgotten its block differs from the row in nothing a boost reads.\<close>

lemma unmined_simps [simp]:
  "ID (unmined r t) = ID r" "GasPrice (unmined r t) = GasPrice r" "Nonce (unmined r t) = Nonce r"
  "last_send (unmined r t) = last_send r" "call_msg E w (unmined r t) p = call_msg E w r p"
  by (simp_all add: unmined_def last_send_def call_msg_def stamp_update_def split: option.split)

lemma Tick_no_receipt:
  assumes "plain B" and "SubmittedBlockNumber r = Some sub" and "last_send r = Some n"
  shows "run_trace (Tick B E w) (active_calls E w r head (Inl ErrNotFound) @ unmine_calls r t @ es) =
    run_trace (if n + boostAfterBlocks w \<le> Number head \<and> \<not> disableBoosting w
      then boost B E w (Number head) (unmined r t) else ok) es"
  unfolding active_run(2) [OF assms(1,2)] unmine_run [OF assms(1)]
  using assms(3) by (simp add: maybe_boost_due)

text \<open>A transaction whose estimate is refused.\<close>

lemma estimate_failed_other:
  "\<forall>msg code d. err \<noteq> ErrJSONRPC msg code d \<Longrightarrow>
   estimate_failed B E r err = fail (ErrWrap ''error estimating gas'' err)"
  by (cases err) (simp_all add: estimate_failed_def)

lemma send_refused_run:
  assumes "plain B"
  shows "run_trace (submit_next B E w) (next_calls E w r head nonce suggested @
      EstimateGas (call_msg E w r (2 * suggested)) (Inl err) # es) =
    run_trace (estimate_failed B E r err) es"
  unfolding submit_next_def send_request_def next_calls_def ask_next_def Let_def
  by (simp add: One_plain [OF assms])

lemma boost_refused_run:
  assumes "GasPrice r = Some old"
  shows "run_trace (boost B E w headNum r) (SuggestGasPrice (Inr suggested) #
      EstimateGas (call_msg E w r (boost_price suggested old)) (Inl err) # es) =
    run_trace (estimate_failed B E r err) es"
  unfolding boost_def Let_def by (simp add: assms)

lemma estimate_failed_run:
  assumes "plain B"
  shows "run_trace (estimate_failed B E r (ErrJSONRPC msg code d)) (tl (drop_calls E r call msg code d)) = Some ok"
  by (simp add: estimate_failed_def drop_calls_def Delete_plain [OF assms])

end
