(* ===== verification/Progress.thy ===== *)
theory Progress
  imports Tick_Branches Tick_Invariant
begin

text \<open>
  Progress: a watcher whose calls are all answered works off the requests of its wallet, while
  the rest of the service does what it likes with the rows of the other wallets.
\<close>

declare One_nat_def [simp del]

section \<open>Calls that are answered\<close>

text \<open>
  A call that is answered: no error, a receipt for the transaction asked for, a signature that can
  be attached.
\<close>

definition smooth :: "eth_lib \<Rightarrow> Watcher \<Rightarrow> event \<Rightarrow> bool" where
  "smooth E w ev \<longleftrightarrow>
     (case ev of
        Query ms a \<Rightarrow> \<not> isl a
      | Exec s a \<Rightarrow> \<not> isl a
      | HeaderByNumber a \<Rightarrow> \<not> isl a
      | TransactionReceipt h a \<Rightarrow> \<not> isl a
      | SuggestGasPrice a \<Rightarrow> \<not> isl a
      | EstimateGas c a \<Rightarrow> \<not> isl a
      | SendTransaction st a \<Rightarrow> a = None
      | PendingNonceAt ad a \<Rightarrow> \<not> isl a
      | Sign h a \<Rightarrow> (\<exists>sig. a = Inr sig \<and> (\<forall>t. \<exists>st. WithSignature E (chainID w) t sig = Inr st))
      | _ \<Rightarrow> True)"


lemma not_isl: "\<not> isl a \<longleftrightarrow> (\<exists>x. a = Inr x)"
  by (cases a) auto

lemma smooth_iffs [simp]:
  "smooth E w (Now t)" "smooth E w (Notify m)" "smooth E w (SetGauge g v)"
  "smooth E w (Query ms a) \<longleftrightarrow> (\<exists>x. a = Inr x)" "smooth E w (Exec s b) \<longleftrightarrow> (\<exists>x. b = Inr x)"
  "smooth E w (HeaderByNumber c) \<longleftrightarrow> (\<exists>x. c = Inr x)"
  "smooth E w (TransactionReceipt h d) \<longleftrightarrow> (\<exists>x. d = Inr x)"
  "smooth E w (SuggestGasPrice e) \<longleftrightarrow> (\<exists>x. e = Inr x)"
  "smooth E w (EstimateGas cm f) \<longleftrightarrow> (\<exists>x. f = Inr x)"
  "smooth E w (SendTransaction st oe) \<longleftrightarrow> oe = None"
  "smooth E w (PendingNonceAt ad f) \<longleftrightarrow> (\<exists>x. f = Inr x)"
  "smooth E w (Sign h i) \<longleftrightarrow> (\<exists>sig. i = Inr sig \<and> (\<forall>t. \<exists>st. WithSignature E (chainID w) t sig = Inr st))"
  by (simp_all add: smooth_def not_isl)

text \<open>A complete execution in which every call is answered.\<close>

definition smooth_end :: "eth_lib \<Rightarrow> Watcher \<Rightarrow> 'r prog \<Rightarrow> event list \<Rightarrow> 'r \<Rightarrow> bool" where
  "smooth_end E w p es y \<longleftrightarrow> run_trace p es = Some (Ret y) \<and> list_all (smooth E w) es"

lemma smooth_end_iffs:
  "smooth_end E w (Ret x) es y \<longleftrightarrow> es = [] \<and> y = x"
  "smooth_end E w (CallNow k) es y \<longleftrightarrow> (\<exists>t es'. es = Now t # es' \<and> smooth_end E w (k t) es' y)"
  "smooth_end E w (CallQuery ms kq) es y \<longleftrightarrow>
     (\<exists>a es'. es = Query ms (Inr a) # es' \<and> smooth_end E w (kq (Inr a)) es' y)"
  "smooth_end E w (CallExec s kx) es y \<longleftrightarrow>
     (\<exists>a es'. es = Exec s (Inr a) # es' \<and> smooth_end E w (kx (Inr a)) es' y)"
  "smooth_end E w (CallHeaderByNumber kh) es y \<longleftrightarrow>
     (\<exists>a es'. es = HeaderByNumber (Inr a) # es' \<and> smooth_end E w (kh (Inr a)) es' y)"
  "smooth_end E w (CallTransactionReceipt h kr) es y \<longleftrightarrow>
     (\<exists>a es'. es = TransactionReceipt h (Inr a) # es' \<and> smooth_end E w (kr (Inr a)) es' y)"
  "smooth_end E w (CallSuggestGasPrice kp) es y \<longleftrightarrow>
     (\<exists>a es'. es = SuggestGasPrice (Inr a) # es' \<and> smooth_end E w (kp (Inr a)) es' y)"
  "smooth_end E w (CallEstimateGas c ke) es y \<longleftrightarrow>
     (\<exists>a es'. es = EstimateGas c (Inr a) # es' \<and> smooth_end E w (ke (Inr a)) es' y)"
  "smooth_end E w (CallSendTransaction st ks) es y \<longleftrightarrow>
     (\<exists>es'. es = SendTransaction st None # es' \<and> smooth_end E w (ks None) es' y)"
  "smooth_end E w (CallPendingNonceAt ad ke) es y \<longleftrightarrow>
     (\<exists>a es'. es = PendingNonceAt ad (Inr a) # es' \<and> smooth_end E w (ke (Inr a)) es' y)"
  "smooth_end E w (CallProducer m p) es y \<longleftrightarrow> (\<exists>es'. es = Notify m # es' \<and> smooth_end E w p es' y)"
  "smooth_end E w (CallSetGauge g v p) es y \<longleftrightarrow> (\<exists>es'. es = SetGauge g v # es' \<and> smooth_end E w p es' y)"
  unfolding smooth_end_def by (auto simp: complete_iffs)

lemma smooth_end_sign:
  assumes "smooth_end E w (sign_tx E w txd k) es y"
  shows "\<exists>sig st es'. es = Sign (SignerHash E (chainID w) txd) (Inr sig) # es' \<and> smooth_end E w (k st) es' y"
proof -
  from assms obtain sig es' where es: "es = Sign (SignerHash E (chainID w) txd) (Inr sig) # es'"
    and all: "list_all (smooth E w) es'" and att: "\<forall>t. \<exists>st. WithSignature E (chainID w) t sig = Inr st"
    and run: "run_trace (case WithSignature E (chainID w) txd sig of
            Inl err \<Rightarrow> fail (ErrWrap ''failed to attach signature to transaction'' err)
          | Inr signedTx \<Rightarrow> k signedTx) es' = Some (Ret y)"
    by (auto simp: smooth_end_def sign_tx_def complete_iffs)
  from att obtain st where "WithSignature E (chainID w) txd sig = Inr st" by blast
  with run es all show ?thesis by (auto simp: smooth_end_def)
qed

section \<open>The table while others work on it\<close>

definition backlog :: "int \<Rightarrow> table \<Rightarrow> MetaTransactionRequest set" where
  "backlog i T = {r \<in> set T. WalletIndex r = i}"

lemma finite_backlog [simp]: "finite (backlog i T)"
  by (simp add: backlog_def)

text \<open>What the rest of the service may do: keep the invariant and the rows of the wallet.\<close>

definition others :: "int \<Rightarrow> table \<Rightarrow> table \<Rightarrow> bool" where
  "others i T T' \<longleftrightarrow> (table_inv T \<longrightarrow> table_inv T') \<and> backlog i T' = backlog i T"

lemma others_refl [simp]: "others i T T"
  by (simp add: others_def)

text \<open>
  An execution of one watcher with the others between its calls; \<open>kept_run\<close> is the same with the
  invariant at every point.
\<close>

inductive shared_run :: "(string \<Rightarrow> string \<Rightarrow> bool) \<Rightarrow> int \<Rightarrow> event list \<Rightarrow> table \<Rightarrow> table \<Rightarrow> bool"
  for le i where
  shared_Nil: "others i T T' \<Longrightarrow> shared_run le i [] T T'"
| shared_Cons: "others i T T0 \<Longrightarrow> db_event le now e T0 T1 \<Longrightarrow> shared_run le i es T1 T' \<Longrightarrow>
    shared_run le i (e # es) T T'"

inductive_simps shared_run_iffs: "shared_run le i [] T T'" "shared_run le i (e # es) T T'"

lemma db_run_shared: "db_run le es T T' \<Longrightarrow> shared_run le i es T T'"
  by (induction rule: db_run.induct) (auto intro: shared_Nil shared_Cons [OF others_refl])

inductive kept_run :: "(string \<Rightarrow> string \<Rightarrow> bool) \<Rightarrow> int \<Rightarrow> event list \<Rightarrow> table \<Rightarrow> table \<Rightarrow> bool"
  for le i where
  kept_Nil: "table_inv T' \<Longrightarrow> backlog i T' = backlog i T \<Longrightarrow> kept_run le i [] T T'"
| kept_Cons: "table_inv T0 \<Longrightarrow> backlog i T0 = backlog i T \<Longrightarrow> db_event le now e T0 T1 \<Longrightarrow>
    kept_run le i es T1 T' \<Longrightarrow> kept_run le i (e # es) T T'"

inductive_simps kept_run_iffs: "kept_run le i [] T T'" "kept_run le i (e # es) T T'"

lemma sound_others:
  assumes "sound {} i q T" and "table_inv T" and "table_inv T'" and "backlog i T' = backlog i T"
  shows "sound {} i q T'"
proof -
  have iff: "rows_by_id T' x = Some r \<longleftrightarrow> rows_by_id T x = Some r" if "WalletIndex r = i" for x r
  proof -
    have "r \<in> set T' \<longleftrightarrow> r \<in> set T" using assms(4) that by (auto simp: backlog_def set_eq_iff)
    moreover have "unique_ids T" "unique_ids T'"
      using assms(2,3) by (simp_all add: table_inv_def table_ok_unique)
    ultimately show ?thesis by (simp add: rows_by_id_iff)
  qed
  with assms(1) show ?thesis
    unfolding sound_def idle_def by (auto split: knowledge.splits) (metis iff)+
qed

lemma shared_kept:
  assumes "watch.safe le i p q" and "run_trace p es = Some p'" and "shared_run le i es T T'"
    and "table_inv T" and "sound {} i q T"
  shows "kept_run le i es T T'"
  using assms
proof (induction es arbitrary: p q T)
  case Nil
  then show ?case by (auto simp: shared_run_iffs others_def intro: kept_Nil)
next
  case (Cons e es)
  from Cons.prems(3) obtain T0 now T1 where o: "others i T T0" and db: "db_event le now e T0 T1"
    and run: "shared_run le i es T1 T'" by (auto simp: shared_run_iffs)
  from Cons.prems(2) obtain p1 where p1: "step_prog p e = Some p1" "run_trace p1 es = Some p'"
    by (auto split: option.splits)
  from o Cons.prems(4) have inv: "table_inv T0" "backlog i T0 = backlog i T" by (simp_all add: others_def)
  have snd: "sound {} i q T0" by (rule sound_others [OF Cons.prems(5,4) inv])
  from watch.safe_step [OF Cons.prems(1) p1(1) db_event_rely [OF inv(1) snd db]]
  have guar: "watch_guar q e" and safe: "watch.safe le i p1 (watch_next i q e)" by auto
  from watch_step [OF inv(1) snd guar db] have "table_inv T1" "sound {} i (watch_next i q e) T1" by auto
  from Cons.IH [OF safe p1(2) run this] show ?case by (rule kept_Cons [OF inv db])
qed

section \<open>What single calls tell and do\<close>

lemma ask_active_answer:
  assumes "answers le (ask_active w) T rows"
  shows "(rows = [] \<and> (\<forall>r \<in> backlog (walletIndex w) T. \<not> active r)) \<or>
    (\<exists>r. rows = [r] \<and> r \<in> backlog (walletIndex w) T \<and> active r)"
proof (cases rows)
  case Nil
  with answers_Nil [OF assms [unfolded Nil]] show ?thesis
    by (auto simp: query_simps backlog_def One_nat_def)
next
  case (Cons r rs)
  with answers_one [OF assms] have "rs = []" by (simp add: query_simps One_nat_def)
  with Cons answers_mem [OF assms, of r] show ?thesis by (auto simp: query_simps backlog_def)
qed

lemma ask_next_answer:
  assumes "answers le (ask_next w) T rows"
  shows "(rows = [] \<and> backlog (walletIndex w) T = {}) \<or>
    (\<exists>r. rows = [r] \<and> r \<in> backlog (walletIndex w) T)"
proof (cases rows)
  case Nil
  with answers_Nil [OF assms [unfolded Nil]] show ?thesis
    by (auto simp: query_simps backlog_def One_nat_def)
next
  case (Cons r rs)
  with answers_one [OF assms] have "rs = []" by (simp add: query_simps One_nat_def)
  with Cons answers_mem [OF assms, of r] show ?thesis by (auto simp: query_simps backlog_def)
qed

lemma backlog_row:
  assumes "table_inv T" and "r \<in> backlog i T"
  shows "rows_by_id T (ID r) = Some r" "length (ID r) = 27" "row_wf r" "WalletIndex r = i"
  using assms table_inv_rows_of [of T r] by (auto simp: backlog_def)

lemma backlog_iff: "table_ok T \<Longrightarrow> r \<in> backlog i T \<longleftrightarrow> rows_by_id T (ID r) = Some r \<and> WalletIndex r = i"
  by (auto simp: backlog_def rows_by_id_iff table_ok_unique)

lemma backlog_ID: "table_inv T \<Longrightarrow> r \<in> backlog i T \<Longrightarrow> r' \<in> backlog i T \<Longrightarrow> ID r' = ID r \<Longrightarrow> r' = r"
  using backlog_row(1) by (metis option.inject)

lemma DELETE_backlog:
  assumes inv: "table_inv T" and r: "r \<in> backlog i T" and run: "run_DELETE [ID r] T = Some (res, T')"
  shows "backlog i T' = backlog i T - {r}"
proof -
  from inv have ok: "table_ok T" by (simp add: table_inv_def)
  have ok': "table_ok T'" by (rule run_DELETE_ok [OF ok run])
  note rows = run_DELETE_rows [OF ok backlog_row(2) [OF inv r] run]
  show ?thesis
    using backlog_ID [OF inv r]
    by (auto simp: backlog_iff [OF ok'] backlog_iff [OF ok] rows split: if_splits)
qed

lemma UPDATE_backlog:
  assumes inv: "table_inv T" and r: "r \<in> backlog i T" and run: "run_UPDATE vs [ID r] T = Some (res, T')"
    and d: "distinct (map fst vs)" and cols: "Col_id \<notin> fst ` set vs" "Col_wallet_index \<notin> fst ` set vs"
  shows "\<exists>r'. changed_row vs r = Some r' \<and> ID r' = ID r \<and> WalletIndex r' = i \<and>
    backlog i T' = insert r' (backlog i T - {r})"
proof -
  from inv have ok: "table_ok T" by (simp add: table_inv_def)
  have ok': "table_ok T'" by (rule run_UPDATE_ok [OF ok run])
  from run_UPDATE_rows [OF ok backlog_row(2) [OF inv r] cols(1) run] backlog_row(1) [OF inv r]
  obtain r' where r': "changed_row vs r = Some r'" "rows_by_id T' = (rows_by_id T)(ID r \<mapsto> r')" by auto
  from r'(1) cols have id: "ID r' = ID r" "WalletIndex r' = i"
    using store_cols_ID store_cols_WalletIndex backlog_row(4) [OF inv r] by (auto simp: changed_row_Some)
  have "backlog i T' = insert r' (backlog i T - {r})"
    using backlog_ID [OF inv r] id
    by (auto simp: backlog_iff [OF ok'] backlog_iff [OF ok] r'(2) split: if_splits)
  with r' id show ?thesis by blast
qed


section \<open>The calls of a kept run\<close>

lemma kept_cong: "kept_run le i es T0 T' \<Longrightarrow> backlog i T0 = backlog i T \<Longrightarrow> kept_run le i es T T'"
  by (cases es) (auto simp: kept_run_iffs)

lemma kept_skip:
  assumes "kept_run le i (e # es) T T'" and "\<And>s r. e \<noteq> Exec s r"
  shows "kept_run le i es T T'"
proof -
  from assms(1) obtain T0 now T1 where "backlog i T0 = backlog i T" "db_event le now e T0 T1"
    "kept_run le i es T1 T'" by (auto simp: kept_run_iffs)
  with db_event_no_exec [of le now e T0 T1] assms(2) kept_cong show ?thesis by metis
qed

lemmas kept_skips =
  kept_skip [of le i "Now t" for le i t, simplified]
  kept_skip [of le i "HeaderByNumber he" for le i he, simplified]
  kept_skip [of le i "TransactionReceipt h rc" for le i h rc, simplified]
  kept_skip [of le i "SuggestGasPrice p" for le i p, simplified]
  kept_skip [of le i "EstimateGas c g" for le i c g, simplified]
  kept_skip [of le i "SendTransaction st oe" for le i st oe, simplified]
  kept_skip [of le i "PendingNonceAt ad n" for le i ad n, simplified]
  kept_skip [of le i "Sign h sg" for le i h sg, simplified]
  kept_skip [of le i "Notify m" for le i m, simplified]
  kept_skip [of le i "SetGauge ga v" for le i ga v, simplified]

lemma kept_query:
  assumes "kept_run le i (Query ms (Inr rows) # es) T T'"
  shows "\<exists>T0. answers le ms T0 rows \<and> backlog i T0 = backlog i T \<and> table_inv T0 \<and> kept_run le i es T T'"
proof -
  from assms obtain T0 where "table_inv T0" "backlog i T0 = backlog i T" "answers le ms T0 rows"
    by (auto simp: kept_run_iffs)
  with kept_skip [OF assms] show ?thesis by blast
qed

lemma kept_active:
  assumes "kept_run le (walletIndex w) (Query (ask_active w) (Inr rows) # es) T T'"
  shows "kept_run le (walletIndex w) es T T' \<and>
    ((rows = [] \<and> (\<forall>r \<in> backlog (walletIndex w) T. \<not> active r \<and> MinedBlockNumber r = None)) \<or>
     (\<exists>r. rows = [r] \<and> r \<in> backlog (walletIndex w) T \<and> active r \<and>
        (\<forall>r' \<in> backlog (walletIndex w) T. r' \<noteq> r \<longrightarrow> \<not> active r' \<and> MinedBlockNumber r' = None)))"
proof -
  from kept_query [OF assms] obtain T0 where T0: "answers le (ask_active w) T0 rows"
    "backlog (walletIndex w) T0 = backlog (walletIndex w) T" "table_inv T0"
    "kept_run le (walletIndex w) es T T'" by blast
  have "MinedBlockNumber r = None" if "r \<in> backlog (walletIndex w) T0" "\<not> active r" for r
    using backlog_row(3) [OF T0(3) that(1)] that(2) by (simp add: row_wf_def)
  moreover have "r' = r" if "r \<in> backlog (walletIndex w) T0" "r' \<in> backlog (walletIndex w) T0"
    "active r" "active r'" for r r'
    using that table_inv_unique [OF T0(3), of r r'] by (auto simp: backlog_def)
  ultimately show ?thesis
    using ask_active_answer [OF T0(1)] T0(2,4) by metis
qed

lemma kept_next:
  assumes "kept_run le (walletIndex w) (Query (ask_next w) (Inr rows) # es) T T'"
  shows "kept_run le (walletIndex w) es T T' \<and>
    ((rows = [] \<and> backlog (walletIndex w) T = {}) \<or> (\<exists>r. rows = [r] \<and> r \<in> backlog (walletIndex w) T))"
  using kept_query [OF assms] ask_next_answer by metis

lemma kept_delete:
  assumes "kept_run le i (Exec (DELETE [ID r]) (Inr res) # es) T T'" and "r \<in> backlog i T"
  shows "\<exists>T1. backlog i T1 = backlog i T - {r} \<and> kept_run le i es T1 T'"
proof -
  from assms(1) obtain T0 T1 where T0: "table_inv T0" "backlog i T0 = backlog i T"
    "run_DELETE [ID r] T0 = Some (res, T1)" "kept_run le i es T1 T'"
    by (auto simp: kept_run_iffs)
  with DELETE_backlog [OF T0(1) _ T0(3)] assms(2) show ?thesis by metis
qed

lemma kept_update:
  assumes "kept_run le i (Exec (UPDATE (bound_values cs r1) [ID r]) (Inr res) # es) T T'"
    and "r \<in> backlog i T" and "distinct cs" and "Col_id \<notin> set cs" and "Col_wallet_index \<notin> set cs"
  shows "\<exists>T1 r'. backlog i T1 = insert r' (backlog i T - {r}) \<and> ID r' = ID r \<and>
    (\<forall>c. c \<noteq> Col_id \<longrightarrow> field_value c r' = (if c \<in> set cs then as_stored (field_value c r1) else field_value c r)) \<and>
    kept_run le i es T1 T'"
proof -
  from assms(1) obtain T0 T1 where T0: "table_inv T0" "backlog i T0 = backlog i T"
    "run_UPDATE (bound_values cs r1) [ID r] T0 = Some (res, T1)" "kept_run le i es T1 T'"
    by (auto simp: kept_run_iffs)
  from UPDATE_backlog [OF T0(1) _ T0(3), of i] assms(2-5) T0(2) obtain r' where
    r': "changed_row (bound_values cs r1) r = Some r'" "ID r' = ID r" "backlog i T1 = insert r' (backlog i T - {r})"
    by auto
  have "field_value c r' = (if c \<in> set cs then as_stored (field_value c r1) else field_value c r)" if "c \<noteq> Col_id" for c
    using changed_row_field [OF r'(1) _ that] assms(3) by simp
  with r' T0(4) show ?thesis by blast
qed

section \<open>One tick\<close>

text \<open>One request is put in flight.\<close>

definition put_in_flight :: "MetaTransactionRequest set \<Rightarrow> MetaTransactionRequest set \<Rightarrow> bool" where
  "put_in_flight S S' \<longleftrightarrow>
     (\<exists>r r'. r \<in> S \<and> S' = insert r' (S - {r}) \<and> ID r' = ID r \<and> active r' \<and> MinedBlockNumber r' = None)"

lemma kept_end: "kept_run le i [] T T' \<Longrightarrow> backlog i T' = backlog i T"
  by (simp add: kept_run_iffs)

lemma smooth_One:
  assumes "plain B" and "smooth_end E w (One B q k) es y"
  shows "\<exists>rows es'. es = Query (MetaTransactionRequests q @ [Limit 1]) (Inr rows) # es' \<and>
    (rows = [] \<longrightarrow> smooth_end E w (k (Inl ErrNoRows)) es' y) \<and>
    (\<forall>r rs. rows = r # rs \<longrightarrow> smooth_end E w (k (Inr r)) es' y)"
  using assms(2) by (auto simp: One_plain [OF assms(1)] smooth_end_iffs(3))

lemma send_request_smooth:
  assumes "plain B" and "smooth_end E w (send_request B E w head r) es y"
  shows "\<exists>nonce sug c gas h sig st t res m.
    es = [PendingNonceAt (senderAddress w) (Inr nonce), SuggestGasPrice (Inr sug), EstimateGas c (Inr gas),
      Sign h (Inr sig), SendTransaction st None, Now t,
      Exec (UPDATE (bound_values submit_columns
        (stamp_update t (submitted E head nonce (2 * sug) st r))) [ID r]) (Inr res), Notify m]"
proof -
  have ne: "submit_columns \<noteq> []" by (simp add: submit_columns_def)
  have id: "ID (submitted E head n p s r) = ID r" for n p s by (simp add: submitted_def)
  from assms(2) show ?thesis
    unfolding send_request_def Let_def
    by (auto simp: smooth_end_iffs Update_plain [OF assms(1) ne] id split: prod.splits
        dest!: smooth_end_sign)
qed

lemma submit_next_smooth:
  assumes "plain B" and "smooth_end E w (submit_next B E w) es y"
    and "kept_run le (walletIndex w) es T T'"
    and "\<forall>r \<in> backlog (walletIndex w) T. MinedBlockNumber r = None"
  shows "(backlog (walletIndex w) T = {} \<and> backlog (walletIndex w) T' = {}) \<or>
    put_in_flight (backlog (walletIndex w) T) (backlog (walletIndex w) T')"
proof -
  let ?i = "walletIndex w"
  from assms(2) obtain rows es1 g v where es: "es = SetGauge g v # Query (ask_next w) (Inr rows) # es1"
    and nil: "rows = [] \<Longrightarrow> smooth_end E w ok es1 y"
    and cons: "\<And>r. rows = [r] \<Longrightarrow> smooth_end E w (CallHeaderByNumber (\<lambda>res.
        case res of
          Inl err \<Rightarrow> fail (ErrWrap ''failed to retrieve latest block'' err)
        | Inr head \<Rightarrow> CallSetGauge LatestBlock (OfBig (Number head)) (send_request B E w head r))) es1 y"
    by (fastforce simp: submit_next_def smooth_end_iffs(12) ask_next_def dest!: smooth_One [OF assms(1)])
  from kept_next [OF kept_skips(10) [OF assms(3) [unfolded es]]]
  have kept: "kept_run le ?i es1 T T'"
    and rows: "(rows = [] \<and> backlog ?i T = {}) \<or> (\<exists>r. rows = [r] \<and> r \<in> backlog ?i T)" by auto
  from rows show ?thesis
  proof (elim disjE exE conjE)
    assume "rows = []" "backlog ?i T = {}"
    with nil kept show ?thesis by (auto simp: smooth_end_iffs dest: kept_end)
  next
    fix r assume r: "rows = [r]" "r \<in> backlog ?i T"
    from cons [OF r(1)] obtain head g2 v2 es2 where es1: "es1 = HeaderByNumber (Inr head) # SetGauge g2 v2 # es2"
      and send: "smooth_end E w (send_request B E w head r) es2 y"
      by (auto simp: smooth_end_iffs)
    from send_request_smooth [OF assms(1) send] obtain nonce sug c gas h sig st t res m where
      es2: "es2 = [PendingNonceAt (senderAddress w) (Inr nonce), SuggestGasPrice (Inr sug),
         EstimateGas c (Inr gas), Sign h (Inr sig), SendTransaction st None, Now t,
         Exec (UPDATE (bound_values submit_columns
           (stamp_update t (submitted E head nonce (2 * sug) st r))) [ID r]) (Inr res), Notify m]" by blast
    have "kept_run le ?i [Exec (UPDATE (bound_values submit_columns
            (stamp_update t (submitted E head nonce (2 * sug) st r))) [ID r]) (Inr res), Notify m] T T'"
      using kept unfolding es1 es2 by (auto dest!: kept_skips)
    from kept_update [OF this r(2)] obtain T1 r' where
      T1: "backlog ?i T1 = insert r' (backlog ?i T - {r})" "ID r' = ID r" "kept_run le ?i [Notify m] T1 T'"
      and f: "\<forall>c. c \<noteq> Col_id \<longrightarrow> field_value c r' = (if c \<in> set submit_columns
          then as_stored (field_value c (stamp_update t (submitted E head nonce (2 * sug) st r)))
          else field_value c r)"
      by (auto simp: submit_columns_def)
    have "active r'" "MinedBlockNumber r' = None"
      using f [rule_format, of Col_submitted_block_number] f [rule_format, of Col_mined_block_number]
        assms(4) r(2)
      by (auto simp: submit_columns_def submitted_def stamp_update_def active_def)
    with T1 r(2) kept_end [OF kept_skips(9) [OF T1(3)]] show ?thesis
      unfolding put_in_flight_def by auto
  qed
qed


text \<open>
  A tick that does not come too early: when it reads a request whose block is recorded, the receipt
  is deep enough below the head.
\<close>

definition deep :: "Watcher \<Rightarrow> event list \<Rightarrow> bool" where
  "deep w es \<longleftrightarrow>
     (\<forall>ms r rs head h rec. Query ms (Inr (r # rs)) \<in> set es \<and> MinedBlockNumber r \<noteq> None \<and>
        HeaderByNumber (Inr head) \<in> set es \<and> TransactionReceipt h (Inr rec) \<in> set es \<longrightarrow>
        confirmationBlocks w \<le> Number head - BlockNumber rec)"

text \<open>What a tick does to the rows of its wallet: submit, record, or confirm and submit the next.\<close>

definition advances :: "event list \<Rightarrow> MetaTransactionRequest set \<Rightarrow> MetaTransactionRequest set \<Rightarrow> bool" where
  "advances es S S' \<longleftrightarrow>
     (S = {} \<and> S' = {}) \<or>
     ((\<forall>r \<in> S. \<not> active r) \<and> put_in_flight S S') \<or>
     (\<exists>r r'. r \<in> S \<and> active r \<and> MinedBlockNumber r = None \<and>
        S' = insert r' (S - {r}) \<and> ID r' = ID r \<and> active r' \<and> MinedBlockNumber r' \<noteq> None) \<or>
     (\<exists>r \<in> S. active r \<and> MinedBlockNumber r \<noteq> None \<and> (\<forall>r' \<in> S - {r}. \<not> active r') \<and>
        (\<exists>m. Notify (Confirmed m) \<in> set es \<and> ConfirmedMsg_ID m = ID r) \<and>
        ((S - {r} = {} \<and> S' = {}) \<or> put_in_flight (S - {r}) S'))"

text \<open>A tick that comes too early leaves the rows, or records another block for one of them.\<close>

definition stays :: "MetaTransactionRequest set \<Rightarrow> MetaTransactionRequest set \<Rightarrow> bool" where
  "stays S S' \<longleftrightarrow> S' = S \<or>
     (\<exists>r r'. r \<in> S \<and> active r \<and> MinedBlockNumber r \<noteq> None \<and>
        S' = insert r' (S - {r}) \<and> ID r' = ID r \<and> active r' \<and> MinedBlockNumber r' \<noteq> None)"

lemma record_mined_smooth:
  assumes "plain B" and "smooth_end E w (record_mined B E rec r) es y"
    and "kept_run le i es T T'" and "r \<in> backlog i T" and "active r"
  shows "\<exists>r'. backlog i T' = insert r' (backlog i T - {r}) \<and> ID r' = ID r \<and> active r' \<and>
    MinedBlockNumber r' \<noteq> None"
proof -
  have ne: "mined_columns \<noteq> []" by (simp add: mined_columns_def)
  have id: "ID (mined_at E rec r) = ID r" by (simp add: mined_at_def)
  from assms(2) obtain t res where es: "es = [Now t, Exec (UPDATE (bound_values mined_columns
      (stamp_update t (mined_at E rec r))) [ID r]) (Inr res)]"
    by (auto simp: record_mined_def Update_plain [OF assms(1) ne] id smooth_end_iffs split: prod.splits)
  from kept_update [OF kept_skips(1) [OF assms(3) [unfolded es]] assms(4)] obtain T1 r' where
    T1: "backlog i T1 = insert r' (backlog i T - {r})" "ID r' = ID r" "kept_run le i [] T1 T'"
    and f: "\<forall>c. c \<noteq> Col_id \<longrightarrow> field_value c r' = (if c \<in> set mined_columns
        then as_stored (field_value c (stamp_update t (mined_at E rec r))) else field_value c r)"
    by (auto simp: mined_columns_def)
  have "active r'" "MinedBlockNumber r' \<noteq> None"
    using f [rule_format, of Col_submitted_block_number] f [rule_format, of Col_mined_block_number] assms(5)
    by (auto simp: mined_columns_def mined_at_def stamp_update_def active_def)
  with T1 kept_end [OF T1(3)] show ?thesis by metis
qed

lemma included_smooth:
  assumes "plain B" and "smooth_end E w (included B E w headNum rec r) es y"
    and "kept_run le (walletIndex w) es T T'" and r: "r \<in> backlog (walletIndex w) T" "active r"
    and rest: "\<forall>r' \<in> backlog (walletIndex w) T. r' \<noteq> r \<longrightarrow> \<not> active r' \<and> MinedBlockNumber r' = None"
  shows "advances es (backlog (walletIndex w) T) (backlog (walletIndex w) T') \<or>
    (stays (backlog (walletIndex w) T) (backlog (walletIndex w) T') \<and> MinedBlockNumber r \<noteq> None \<and>
     \<not> confirmationBlocks w \<le> headNum - BlockNumber rec)"
proof (cases "MinedBlockNumber r = None")
  case True
  with assms(2) obtain m es1 where es: "es = Notify m # es1"
    and run: "smooth_end E w (record_mined B E rec r) es1 y"
    by (auto simp: included_def smooth_end_iffs)
  from record_mined_smooth [OF assms(1) run kept_skips(9) [OF assms(3) [unfolded es]] r] True r
  show ?thesis unfolding advances_def by blast
next
  case False
  let ?i = "walletIndex w"
  show ?thesis
  proof (cases "confirmationBlocks w \<le> headNum - BlockNumber rec")
    case early: False
    have "smooth_end E w (record_mined B E rec r) es y \<or> es = []"
      using assms(2) False early by (auto simp: included_def smooth_end_iffs split: if_splits)
    then have "stays (backlog ?i T) (backlog ?i T')"
    proof
      assume "smooth_end E w (record_mined B E rec r) es y"
      from record_mined_smooth [OF assms(1) this assms(3) r] r False show ?thesis
        unfolding stays_def by blast
    next
      assume "es = []"
      with assms(3) kept_end show ?thesis by (auto simp: stays_def)
    qed
    with False early show ?thesis by blast
  next
    case True
    from False True assms(2) obtain res es1 where
      es: "es = Notify (Confirmed (confirmed_msg E rec r)) # Exec (DELETE [ID r]) (Inr res) # es1"
      and run: "smooth_end E w (submit_next B E w) es1 y"
      by (auto simp: included_def smooth_end_iffs Delete_plain [OF assms(1)] split: prod.splits)
    from kept_delete [OF kept_skips(9) [OF assms(3) [unfolded es]] r(1)] obtain T1 where
      T1: "backlog ?i T1 = backlog ?i T - {r}" "kept_run le ?i es1 T1 T'" by blast
    have "\<forall>r' \<in> backlog ?i T1. MinedBlockNumber r' = None" using rest T1(1) by auto
    from submit_next_smooth [OF assms(1) run T1(2) this] T1(1)
    have "(backlog ?i T - {r} = {} \<and> backlog ?i T' = {}) \<or>
      put_in_flight (backlog ?i T - {r}) (backlog ?i T')" by simp
    moreover have "Notify (Confirmed (confirmed_msg E rec r)) \<in> set es"
      "ConfirmedMsg_ID (confirmed_msg E rec r) = ID r" by (simp_all add: es confirmed_msg_def)
    ultimately show ?thesis using False r rest unfolding advances_def by blast
  qed
qed

lemma Tick_smooth:
  assumes "plain B" and "smooth_end E w (Tick B E w) es y"
    and "kept_run le (walletIndex w) es T T'"
  shows "advances es (backlog (walletIndex w) T) (backlog (walletIndex w) T') \<or>
    (stays (backlog (walletIndex w) T) (backlog (walletIndex w) T') \<and> \<not> deep w es)"
proof -
  let ?i = "walletIndex w"
  from smooth_One [OF assms(1) assms(2) [unfolded Tick_def]] obtain rows es1 where
    es: "es = Query (ask_active w) (Inr rows) # es1"
    and nil: "rows = [] \<Longrightarrow> smooth_end E w (submit_next B E w) es1 y"
    and cons: "\<And>r. rows = [r] \<Longrightarrow> smooth_end E w (tick_active B E w r) es1 y"
    by (auto simp: ask_active_def)
  from kept_active [OF assms(3) [unfolded es]] show ?thesis
  proof (elim conjE disjE exE)
    assume kept: "kept_run le ?i es1 T T'" and "rows = []"
      and none: "\<forall>r \<in> backlog ?i T. \<not> active r \<and> MinedBlockNumber r = None"
    with nil submit_next_smooth [OF assms(1) _ kept] show ?thesis by (auto simp: advances_def)
  next
    fix r assume kept: "kept_run le ?i es1 T T'" and r: "rows = [r]" "r \<in> backlog ?i T" "active r"
      and rest: "\<forall>r' \<in> backlog ?i T. r' \<noteq> r \<longrightarrow> \<not> active r' \<and> MinedBlockNumber r' = None"
    from r(3) obtain sub where sub: "SubmittedBlockNumber r = Some sub" by (auto simp: active_def)
    from cons [OF r(1)] sub obtain head g v g2 v2 h rec es2 where
      es1: "es1 = HeaderByNumber (Inr head) # SetGauge g v # SetGauge g2 v2 # TransactionReceipt h (Inr rec) # es2"
      and inc: "smooth_end E w (included B E w (Number head) rec r) es2 y"
      by (auto simp: tick_active_def smooth_end_iffs)
    have "kept_run le ?i es2 T T'"
      using kept unfolding es1 by (metis kept_skips(2,3,10))
    from included_smooth [OF assms(1) inc this r(2,3) rest] show ?thesis
    proof (elim disjE conjE)
      assume adv: "advances es2 (backlog ?i T) (backlog ?i T')"
      have "set es2 \<subseteq> set es" by (auto simp: es es1)
      with adv show ?thesis unfolding advances_def by blast
    next
      assume "stays (backlog ?i T) (backlog ?i T')" and "MinedBlockNumber r \<noteq> None"
        and "\<not> confirmationBlocks w \<le> Number head - BlockNumber rec"
      moreover have "\<not> deep w es"
        unfolding deep_def es es1 r(1) using calculation(2,3) by (metis list.set_intros)
      ultimately show ?thesis by blast
    qed
  qed
qed


section \<open>The work that is left\<close>

text \<open>Ticks a row still needs, and the tick that submits the first of them.\<close>

definition weight :: "MetaTransactionRequest \<Rightarrow> nat" where
  "weight r = (if active r \<and> MinedBlockNumber r \<noteq> None then 1 else 2)"

definition work :: "MetaTransactionRequest set \<Rightarrow> nat" where
  "work S = sum weight S + (if S \<noteq> {} \<and> (\<forall>r \<in> S. \<not> active r) then 1 else 0)"

lemma work_bound: "work S \<le> 2 * card S + 1"
proof -
  have "sum weight S \<le> card S * 2" by (rule sum_bounded_above [of S weight 2, simplified]) (simp add: weight_def)
  then show ?thesis by (simp add: work_def)
qed

lemma sum_weight_replace:
  assumes "finite S" and "inj_on ID S" and "r \<in> S" and "ID r' = ID r"
  shows "sum weight (insert r' (S - {r})) + weight r = sum weight S + weight r'"
proof -
  have "r' \<notin> S - {r}" using assms(2-4) by (auto simp: inj_on_def)
  then have "sum weight (insert r' (S - {r})) = weight r' + sum weight (S - {r})"
    using assms(1) by simp
  with sum.remove [OF assms(1,3), of weight] show ?thesis by simp
qed

lemma put_in_flight_work:
  assumes "finite S" and "inj_on ID S" and "put_in_flight S S'" and "\<forall>r \<in> S. \<not> active r"
  shows "work S' = sum weight S"
proof -
  from assms(3) obtain r r' where r: "r \<in> S" "S' = insert r' (S - {r})" "ID r' = ID r"
    "active r'" "MinedBlockNumber r' = None" unfolding put_in_flight_def by blast
  with assms(4) sum_weight_replace [OF assms(1,2) r(1,3)] show ?thesis
    by (simp add: work_def weight_def)
qed

lemma advances_work:
  assumes "finite S" and "inj_on ID S" and "advances es S S'"
  shows "work S' \<le> work S - 1"
  using assms(3) unfolding advances_def
proof (elim disjE bexE exE conjE)
  assume "\<forall>r \<in> S. \<not> active r" and put: "put_in_flight S S'"
  with put_in_flight_work [OF assms(1,2)] have "work S' = sum weight S" by blast
  moreover have "S \<noteq> {}" using put by (auto simp: put_in_flight_def)
  ultimately show ?thesis using \<open>\<forall>r \<in> S. \<not> active r\<close> by (simp add: work_def)
next
  fix r r'
  assume r: "r \<in> S" "active r" "MinedBlockNumber r = None" "S' = insert r' (S - {r})" "ID r' = ID r"
    "active r'" "MinedBlockNumber r' \<noteq> None"
  from sum_weight_replace [OF assms(1,2) r(1,5)] r show ?thesis
    by (auto simp: work_def weight_def)
next
  fix r m
  assume r: "r \<in> S" "active r" "MinedBlockNumber r \<noteq> None" and "S - {r} = {}" "S' = {}"
  then show ?thesis by (simp add: work_def)
next
  fix r m
  assume r: "r \<in> S" "active r" "MinedBlockNumber r \<noteq> None" and none: "\<forall>r' \<in> S - {r}. \<not> active r'"
    and put: "put_in_flight (S - {r}) S'"
  have "work S' = sum weight (S - {r})"
    by (rule put_in_flight_work [OF _ _ put none]) (use assms in \<open>auto intro: inj_on_subset\<close>)
  moreover have "sum weight S = 1 + sum weight (S - {r})"
    using sum.remove [OF assms(1) r(1), of weight] r by (simp add: weight_def)
  moreover have "work S = sum weight S" using r by (auto simp: work_def)
  ultimately show ?thesis by simp
qed (simp add: work_def)

lemma stays_work:
  assumes "finite S" and "inj_on ID S" and "stays S S'"
  shows "work S' = work S"
  using assms(3) unfolding stays_def
proof (elim disjE exE conjE)
  fix r r'
  assume r: "r \<in> S" "active r" "MinedBlockNumber r \<noteq> None" "S' = insert r' (S - {r})" "ID r' = ID r"
    "active r'" "MinedBlockNumber r' \<noteq> None"
  from sum_weight_replace [OF assms(1,2) r(1,5)] r show ?thesis
    by (auto simp: work_def weight_def)
qed simp

lemma stays_ids: "stays S S' \<Longrightarrow> r \<in> S \<Longrightarrow> \<exists>r' \<in> S'. ID r' = ID r"
  unfolding stays_def by (metis Diff_iff insert_iff singletonD)

lemma work_0: "finite S \<Longrightarrow> work S = 0 \<longleftrightarrow> S = {}"
  by (auto simp: work_def weight_def split: if_splits)

lemma put_in_flight_ids: "put_in_flight S S' \<Longrightarrow> r \<in> S \<Longrightarrow> \<exists>r' \<in> S'. ID r' = ID r"
  unfolding put_in_flight_def by (metis Diff_iff insert_iff singletonD)

lemma advances_ids:
  assumes "advances es S S'" and "r \<in> S"
  shows "(\<exists>r' \<in> S'. ID r' = ID r) \<or> (\<exists>m. Notify (Confirmed m) \<in> set es \<and> ConfirmedMsg_ID m = ID r)"
  using assms(1) unfolding advances_def
proof (elim disjE bexE exE conjE)
  fix r0 r'
  assume "S' = insert r' (S - {r0})" "ID r' = ID r0"
  with assms(2) show ?thesis by (cases "r = r0") auto
next
  fix r0 m
  assume "Notify (Confirmed m) \<in> set es" "ConfirmedMsg_ID m = ID r0" "S - {r0} = {}"
  with assms(2) show ?thesis by (cases "r = r0") auto
next
  fix r0 m
  assume "Notify (Confirmed m) \<in> set es" "ConfirmedMsg_ID m = ID r0" "put_in_flight (S - {r0}) S'"
  with assms(2) put_in_flight_ids [of "S - {r0}" S' r] show ?thesis by (cases "r = r0") auto
qed (use assms(2) put_in_flight_ids in auto)

section \<open>Many ticks\<close>

inductive tick_runs ::
  "boil_env \<Rightarrow> eth_lib \<Rightarrow> Watcher \<Rightarrow> (string \<Rightarrow> string \<Rightarrow> bool) \<Rightarrow> event list list \<Rightarrow> table \<Rightarrow> table \<Rightarrow> bool"
  for B E w le where
  no_tick: "tick_runs B E w le [] T T"
| next_tick: "run_trace (Tick B E w) es = Some (Ret y) \<Longrightarrow> shared_run le (walletIndex w) es T T1 \<Longrightarrow>
    tick_runs B E w le ess T1 T' \<Longrightarrow> tick_runs B E w le (es # ess) T T'"

inductive_simps tick_runs_iffs: "tick_runs B E w le [] T T'" "tick_runs B E w le (es # ess) T T'"

lemma kept_inv: "kept_run le i es T T' \<Longrightarrow> table_inv T'"
  by (induction rule: kept_run.induct)

lemma inj_on_backlog: "table_inv T \<Longrightarrow> inj_on ID (backlog i T)"
  using backlog_ID by (fastforce intro: inj_onI)

lemma tick_runs_drain:
  assumes "plain B" and "table_inv T" and "tick_runs B E w le ess T T'"
    and "\<forall>es \<in> set ess. list_all (smooth E w) es"
  shows "work (backlog (walletIndex w) T') \<le>
      work (backlog (walletIndex w) T) - length (filter (deep w) ess) \<and>
    table_inv T' \<and>
    (\<forall>r \<in> backlog (walletIndex w) T. (\<exists>r' \<in> backlog (walletIndex w) T'. ID r' = ID r) \<or>
      (\<exists>m. Notify (Confirmed m) \<in> set (concat ess) \<and> ConfirmedMsg_ID m = ID r))"
  using assms(2-)
proof (induction ess arbitrary: T)
  case Nil
  then show ?case by (auto simp: tick_runs_iffs)
next
  case (Cons es ess)
  let ?i = "walletIndex w"
  from Cons.prems(2) obtain y T1 where run: "run_trace (Tick B E w) es = Some (Ret y)"
    and db: "shared_run le ?i es T T1" and more: "tick_runs B E w le ess T1 T'"
    by (auto simp: tick_runs_iffs)
  have kept: "kept_run le ?i es T T1"
    by (rule shared_kept [OF Tick_safe [OF assms(1) refl] run db Cons.prems(1) sound_start])
  have "smooth_end E w (Tick B E w) es y"
    using run Cons.prems(3) by (simp add: smooth_end_def)
  note effect = Tick_smooth [OF assms(1) this kept]
  note inj = inj_on_backlog [OF Cons.prems(1)]
  from Cons.IH [OF kept_inv [OF kept] more] Cons.prems(3)
  have ih: "work (backlog ?i T') \<le> work (backlog ?i T1) - length (filter (deep w) ess)" "table_inv T'"
    "\<forall>r \<in> backlog ?i T1. (\<exists>r' \<in> backlog ?i T'. ID r' = ID r) \<or>
      (\<exists>m. Notify (Confirmed m) \<in> set (concat ess) \<and> ConfirmedMsg_ID m = ID r)" by auto
  have "work (backlog ?i T1) \<le> work (backlog ?i T) - (if deep w es then 1 else 0)"
    using effect advances_work [OF finite_backlog inj] stays_work [OF finite_backlog inj] by fastforce
  with ih(1) have "work (backlog ?i T') \<le> work (backlog ?i T) - length (filter (deep w) (es # ess))"
    by (simp split: if_splits)
  moreover have "(\<exists>r' \<in> backlog ?i T'. ID r' = ID r) \<or>
      (\<exists>m. Notify (Confirmed m) \<in> set (concat (es # ess)) \<and> ConfirmedMsg_ID m = ID r)"
    if "r \<in> backlog ?i T" for r
  proof -
    from effect that have "(\<exists>r' \<in> backlog ?i T1. ID r' = ID r) \<or>
        (\<exists>m. Notify (Confirmed m) \<in> set es \<and> ConfirmedMsg_ID m = ID r)"
      using advances_ids stays_ids by blast
    with ih(3) show ?thesis by (metis Un_iff concat.simps(2) set_append)
  qed
  ultimately show ?case using ih(2) by blast
qed

end
