(* ===== verification/Shutdown.thy ===== *)
theory Shutdown
  imports System Tick_Log
begin

text \<open>
  The end of a watcher: what \<open>main\<close> waits for after it has cancelled the context. The loop makes a
  bounded number of calls for every time its ticker fires and returns at the first turn that finds
  the context done.
\<close>

declare One_nat_def [simp del]

text \<open>The turns of the loop before it finds the context done.\<close>

definition turns :: "wakeup list \<Rightarrow> nat" where
  "turns ws = length (takeWhile ((=) Fired) ws)"

text \<open>What follows a tick that has ended.\<close>

definition after_tick :: "boil_env \<Rightarrow> eth_lib \<Rightarrow> Watcher \<Rightarrow> wakeup list \<Rightarrow> tick_result \<Rightarrow> bool outcome prog" where
  "after_tick B E w ws res =
     (case res of
        Panicked p \<Rightarrow> Ret (Panicked p)
      | Returned None \<Rightarrow> watch_loop B E w ws
      | Returned (Some err) \<Rightarrow> CallInc (TickErrorsTotal (Itoa (walletIndex w))) (watch_loop B E w ws))"

lemma watch_loop_Fired:
  "watch_loop B E w (Fired # ws) = CallInc TicksTotal (bind_prog (Tick B E w) (after_tick B E w ws))"
  by (simp add: after_tick_def [abs_def])

lemma run_Inc:
  "run_trace (CallInc c p) es = Some p' \<Longrightarrow>
   (es = [] \<and> p' = CallInc c p) \<or> (\<exists>fs. es = Inc c # fs \<and> run_trace p fs = Some p')"
  by (cases es) (auto split: event.splits if_splits option.splits)

lemma run_Ret: "run_trace (Ret x) es = Some p \<Longrightarrow> es = [] \<and> p = Ret x"
  by (simp split: if_splits)

lemma after_tick_calls:
  assumes "run_trace (after_tick B E w ws res) es = Some p"
    and "\<And>fs. run_trace (watch_loop B E w ws) fs = Some p \<Longrightarrow> length fs \<le> n"
  shows "length es \<le> n + 1"
proof (cases res)
  case (Panicked q)
  with assms(1) run_Ret show ?thesis by (fastforce simp: after_tick_def)
next
  case (Returned err)
  show ?thesis
  proof (cases err)
    case None
    with Returned assms have "length es \<le> n" by (simp add: after_tick_def)
    then show ?thesis by simp
  next
    case (Some e)
    with Returned assms(1) have "run_trace (CallInc (TickErrorsTotal (Itoa (walletIndex w))) (watch_loop B E w ws)) es = Some p"
      by (simp add: after_tick_def)
    from run_Inc [OF this] assms(2) show ?thesis by auto
  qed
qed

lemma watch_loop_calls:
  assumes "plain B" and "run_trace (watch_loop B E w wakeups) es = Some p"
  shows "length es \<le> 21 * turns wakeups"
  using assms(2)
proof (induction wakeups arbitrary: es)
  case Nil
  then show ?case by (simp split: if_splits)
next
  case (Cons x wakeups)
  show ?case
  proof (cases x)
    case Cancelled
    with Cons.prems show ?thesis by (simp split: if_splits)
  next
    case Fired
    from Cons.prems [unfolded Fired watch_loop_Fired] consider "es = []"
      | fs where "es = Inc TicksTotal # fs"
          "run_trace (bind_prog (Tick B E w) (after_tick B E w wakeups)) fs = Some p"
      using run_Inc by blast
    then show ?thesis
    proof cases
      case (2 fs)
      from run_bind_cases [OF 2(2)] consider p1 where "run_trace (Tick B E w) fs = Some p1"
        | es1 es2 r where "fs = es1 @ es2" "run_trace (Tick B E w) es1 = Some (Ret r)"
            "run_trace (after_tick B E w wakeups r) es2 = Some p" by blast
      then have "length fs \<le> 20 + 21 * turns wakeups"
      proof cases
        case 1
        with Tick_calls [OF assms(1)] show ?thesis by fastforce
      next
        case 2
        from Tick_calls [OF assms(1) 2(2)] after_tick_calls [OF 2(3) Cons.IH] 2(1) show ?thesis by simp
      qed
      with 2 Fired show ?thesis by (simp add: turns_def)
    qed simp
  qed
qed

lemma watch_loop_result:
  assumes "run_trace (watch_loop B E w wakeups) es = Some (Ret r)"
  shows "panicked r \<or> r = Returned (Cancelled \<in> set wakeups)"
  using assms
proof (induction wakeups arbitrary: es)
  case Nil
  then show ?case by (simp split: if_splits)
next
  case (Cons x wakeups)
  show ?case
  proof (cases x)
    case Cancelled
    with Cons.prems show ?thesis by (simp split: if_splits)
  next
    case Fired
    from run_Inc [OF Cons.prems [unfolded Fired watch_loop_Fired]] obtain fs where
      "run_trace (bind_prog (Tick B E w) (after_tick B E w wakeups)) fs = Some (Ret r)" by auto
    from complete_bind [OF this] obtain es2 res where
      f: "run_trace (after_tick B E w wakeups res) es2 = Some (Ret r)" by blast
    then consider q where "res = Panicked q" | gs where "run_trace (watch_loop B E w wakeups) gs = Some (Ret r)"
      by (auto simp: after_tick_def dest: run_Inc split: outcome.splits option.splits)
    then show ?thesis
      using Cons.IH f Fired by cases (auto simp: after_tick_def split: if_splits)
  qed
qed

lemma watch_loop_returns:
  assumes "plain B" and "table_inv T" and "run_trace (watch_loop B E w wakeups) es = Some (Ret r)"
    and "db_run le es T T'"
  shows "r = Returned (Cancelled \<in> set wakeups)"
proof -
  have "watch.safe le (walletIndex w) (Ret r) (foldl (watch_next (walletIndex w)) (Unknown, {}) es)"
    using watch_run [OF watch_loop_safe [OF assms(1) refl] assms(3,4,2) sound_start] by simp
  then have "\<not> panicked r" by (simp add: no_panic_def)
  with watch_loop_result [OF assms(3)] show ?thesis by blast
qed

end
