(* ===== verification/Process.thy ===== *)
theory Process
  imports Shutdown
begin

text \<open>
  The process around the service: \<open>main\<close> from the start of its goroutines to its return. In System
  the loop of a watcher is given in advance what its \<open>select\<close> will yield; here the ticker, the
  signal and the cancelled context are steps of their own, \<open>main\<close> waits for the signal and then
  for the watchers, and a process that has ended can be followed by another. The histories of
  processes are histories of the service, so that everything proved about those holds here; and after
  a signal \<open>main\<close> ends once every watcher has finished the tick it is in.
\<close>

declare One_nat_def [simp del]

section \<open>Programs one after another\<close>

lemma bind_prog_assoc: "bind_prog (bind_prog p f) g = bind_prog p (\<lambda>r. bind_prog (f r) g)"
  by (induction p) simp_all

section \<open>The goroutines\<close>

text \<open>One turn of a watcher's loop, when its ticker has fired.\<close>

definition turn :: "boil_env \<Rightarrow> eth_lib \<Rightarrow> Watcher \<Rightarrow> unit outcome prog" where
  "turn B E w = CallInc TicksTotal
     (bind_prog (Tick B E w) (\<lambda>res.
        case res of
          Panicked p \<Rightarrow> Ret (Panicked p)
        | Returned None \<Rightarrow> Ret (Returned ())
        | Returned (Some err) \<Rightarrow>
            CallInc (TickErrorsTotal (Itoa (walletIndex w))) (Ret (Returned ()))))"

text \<open>A watcher has yet to make its ticker, waits in its \<open>select\<close>, is in a turn, or has returned.\<close>

datatype loop_state = Starting | Selecting | Turning "unit outcome prog" | Stopped

text \<open>
  \<open>main\<close> waits for a signal, then for the monitoring server to shut down, which takes as long as that
  server wants, then for the watchers, and returns;
  \<open>Crashed\<close> stands for every other end of the process: a fatal log entry, a panic, a kill.
\<close>

datatype main_state = AwaitSignal | StopMonitoring | AwaitTickers | Exited | Crashed

text \<open>\<open>world\<close> is the table, the claims and the calls of the RPC method; it holds no watchers.\<close>

record process =
  main_at :: main_state
  ctx_done :: bool
  loops :: "loop_state list"
  world :: system

definition running :: "process \<Rightarrow> bool" where
  "running p \<longleftrightarrow> main_at p \<notin> {Exited, Crashed}"

definition launched ::
  "boil_env \<Rightarrow> consumer_lib \<Rightarrow> Watcher list \<Rightarrow> process \<Rightarrow> bool" where
  "launched B C ws p \<longleftrightarrow>
     main_at p = AwaitSignal \<and> \<not> ctx_done p \<and> loops p = replicate (length ws) Starting \<and>
     list_all (\<lambda>q. \<exists>inputs. q = ConsumeClaim B C (int (length ws)) inputs) (receiving (world p)) \<and>
     watching (world p) = [] \<and> cleaning (world p) = [] \<and> removed (world p) = {}"

datatype actor = Fires nat | Works nat | Main | Monitoring | Others | Dies

text \<open>
  The steps, by who makes them. A \<open>select\<close> with both channels ready may choose either, so a ticker
  may still fire when the context is done. \<open>Monitoring\<close> is the return of \<open>Shutdown\<close>, which is up to the
  monitoring server. \<open>Others\<close> are the steps of System that involve no
  watcher.
\<close>

inductive process_step ::
  "boil_env \<Rightarrow> eth_lib \<Rightarrow> consumer_lib \<Rightarrow> Watcher list \<Rightarrow> (string \<Rightarrow> string \<Rightarrow> bool) \<Rightarrow>
   actor \<Rightarrow> process \<Rightarrow> event list \<Rightarrow> process \<Rightarrow> bool"
  for B E C ws le where
  ticker_made:
    "running p \<Longrightarrow> k < length (loops p) \<Longrightarrow> loops p ! k = Starting \<Longrightarrow>
     0 < ticker_interval (block_time (world p)) \<Longrightarrow>
     process_step B E C ws le (Works k) p [] (p\<lparr>loops := (loops p)[k := Selecting]\<rparr>)"
| ticker_panics:
    "running p \<Longrightarrow> k < length (loops p) \<Longrightarrow> loops p ! k = Starting \<Longrightarrow>
     ticker_interval (block_time (world p)) \<le> 0 \<Longrightarrow>
     process_step B E C ws le (Works k) p [] (p\<lparr>main_at := Crashed\<rparr>)"
| tick_fires:
    "running p \<Longrightarrow> k < length (loops p) \<Longrightarrow> loops p ! k = Selecting \<Longrightarrow>
     process_step B E C ws le (Fires k) p [] (p\<lparr>loops := (loops p)[k := Turning (turn B E (ws ! k))]\<rparr>)"
| turn_call:
    "running p \<Longrightarrow> k < length (loops p) \<Longrightarrow> loops p ! k = Turning q \<Longrightarrow> step_prog q ev = Some q' \<Longrightarrow>
     db_event le now ev (tab (world p)) T \<Longrightarrow>
     process_step B E C ws le (Works k) p [ev]
       (p\<lparr>loops := (loops p)[k := Turning q'], world := (world p)\<lparr>tab := T\<rparr>\<rparr>)"
| turn_ends:
    "running p \<Longrightarrow> k < length (loops p) \<Longrightarrow> loops p ! k = Turning (Ret (Returned ())) \<Longrightarrow>
     process_step B E C ws le (Works k) p [] (p\<lparr>loops := (loops p)[k := Selecting]\<rparr>)"
| turn_panics:
    "running p \<Longrightarrow> k < length (loops p) \<Longrightarrow> loops p ! k = Turning (Ret (Panicked msg)) \<Longrightarrow>
     process_step B E C ws le (Works k) p [] (p\<lparr>main_at := Crashed\<rparr>)"
| sees_done:
    "running p \<Longrightarrow> k < length (loops p) \<Longrightarrow> loops p ! k = Selecting \<Longrightarrow> ctx_done p \<Longrightarrow>
     process_step B E C ws le (Works k) p [] (p\<lparr>loops := (loops p)[k := Stopped]\<rparr>)"
| signal:
    "main_at p = AwaitSignal \<Longrightarrow>
     process_step B E C ws le Main p [] (p\<lparr>main_at := StopMonitoring, ctx_done := True\<rparr>)"
| monitoring_stopped:
    "main_at p = StopMonitoring \<Longrightarrow>
     process_step B E C ws le Monitoring p [] (p\<lparr>main_at := AwaitTickers\<rparr>)"
| tickers_done:
    "main_at p = AwaitTickers \<Longrightarrow> list_all ((=) Stopped) (loops p) \<Longrightarrow>
     process_step B E C ws le Main p [] (p\<lparr>main_at := Exited\<rparr>)"
| others:
    "running p \<Longrightarrow> system_step B E C ws le (world p) l s \<Longrightarrow> watching s = [] \<Longrightarrow>
     process_step B E C ws le Others p l (p\<lparr>world := s\<rparr>)"
| dies:
    "running p \<Longrightarrow> process_step B E C ws le Dies p [] (p\<lparr>main_at := Crashed\<rparr>)"

text \<open>Processes one after another on one table, with the history of all calls.\<close>

inductive process_run ::
  "boil_env \<Rightarrow> eth_lib \<Rightarrow> consumer_lib \<Rightarrow> Watcher list \<Rightarrow> (string \<Rightarrow> string \<Rightarrow> bool) \<Rightarrow>
   event list \<Rightarrow> process \<Rightarrow> bool"
  for B E C ws le where
  first_launch:
    "launched B C ws p \<Longrightarrow> \<not> redelivered (world p) \<Longrightarrow> table_inv (tab (world p)) \<Longrightarrow>
     (\<And>r. r \<in> set (tab (world p)) \<Longrightarrow> \<not> active r) \<Longrightarrow> process_run B E C ws le [] p"
| process_goes_on:
    "process_run B E C ws le h p \<Longrightarrow> process_step B E C ws le a p l p' \<Longrightarrow>
     process_run B E C ws le (h @ l) p'"
| next_launch:
    "process_run B E C ws le h p \<Longrightarrow> \<not> running p \<Longrightarrow> launched B C ws p' \<Longrightarrow>
     tab (world p') = tab (world p) \<Longrightarrow> redelivered (world p') = redelivered (world p) \<Longrightarrow> process_run B E C ws le h p'"

section \<open>Every process run is a run of the service\<close>

text \<open>What a watcher has still to do, when its \<open>select\<close> will yield \<open>wk\<close>.\<close>

fun remaining ::
  "boil_env \<Rightarrow> eth_lib \<Rightarrow> int \<Rightarrow> Watcher \<Rightarrow> loop_state \<Rightarrow> wakeup list \<Rightarrow> bool outcome prog" where
  "remaining B E secs w Starting wk = watcher_goroutine B E secs w wk"
| "remaining B E secs w Selecting wk = watch_loop B E w wk"
| "remaining B E secs w (Turning q) wk = bind_prog q (\<lambda>r.
     case r of Panicked msg \<Rightarrow> Ret (Panicked msg) | Returned u \<Rightarrow> watch_loop B E w wk)"
| "remaining B E secs w Stopped wk = Ret (Returned True)"

lemma remaining_turn: "remaining B E secs w (Turning (turn B E w)) wk = watch_loop B E w (Fired # wk)"
  by (auto simp: turn_def bind_prog_assoc fun_eq_iff split: outcome.split option.split
      intro!: arg_cong [where f = "bind_prog (Tick B E w)"])

text \<open>The state of the service that a process is in, for given choices to come.\<close>

definition as_service ::
  "boil_env \<Rightarrow> eth_lib \<Rightarrow> Watcher list \<Rightarrow> (nat \<Rightarrow> wakeup list) \<Rightarrow> process \<Rightarrow> system" where
  "as_service B E ws wk p = (world p)\<lparr>watching :=
     map (\<lambda>k. remaining B E (block_time (world p)) (ws ! k) (loops p ! k) (wk k)) [0 ..< length ws]\<rparr>"

lemma as_service_simps [simp]:
  "tab (as_service B E ws wk p) = tab (world p)"
  "receiving (as_service B E ws wk p) = receiving (world p)"
  "cleaning (as_service B E ws wk p) = cleaning (world p)"
  "removed (as_service B E ws wk p) = removed (world p)"
  "block_time (as_service B E ws wk p) = block_time (world p)"
  "redelivered (as_service B E ws wk p) = redelivered (world p)"
  "length (watching (as_service B E ws wk p)) = length ws"
  by (simp_all add: as_service_def)

lemma launched_started:
  assumes "launched B C ws p"
  shows "started B E C ws (as_service B E ws wk p)"
proof -
  have "\<exists>wakeups. watching (as_service B E ws wk p) ! k =
      watcher_goroutine B E (block_time (world p)) (ws ! k) wakeups"
    if "k < length ws" for k
    using that assms by (auto simp: as_service_def launched_def)
  then have "list_all2 (\<lambda>w q. \<exists>wakeups. q = watcher_goroutine B E (block_time (world p)) w wakeups) ws
      (watching (as_service B E ws wk p))"
    by (simp add: list_all2_conv_all_nth)
  with assms show ?thesis by (simp add: started_def launched_def)
qed


text \<open>A step of the process is a step of the service, or none; the choices made are put first.\<close>

lemma as_service_upd:
  assumes "k < length ws" and "remaining B E (block_time (world p)) (ws ! k) st (wk k) =
      remaining B E (block_time (world p)) (ws ! k) (loops p ! k) (wk' k)"
    and "\<And>j. j \<noteq> k \<Longrightarrow> wk' j = wk j" and "k < length (loops p)"
  shows "as_service B E ws wk (p\<lparr>loops := (loops p)[k := st]\<rparr>) = as_service B E ws wk' p"
  using assms by (auto simp: as_service_def nth_list_update)

text \<open>The steps of the others do not depend on the watchers.\<close>

lemma watching_apart:
  "s\<lparr>tab := T, receiving := rs, redelivered := d, watching := qs\<rparr> =
    s\<lparr>watching := qs, tab := T, receiving := rs, redelivered := d\<rparr>"
  "s\<lparr>cleaning := cs, watching := qs\<rparr> = s\<lparr>watching := qs, cleaning := cs\<rparr>"
  "s\<lparr>tab := T, cleaning := cs, removed := R, watching := qs\<rparr> =
    s\<lparr>watching := qs, tab := T, cleaning := cs, removed := R\<rparr>"
  by (cases s; simp)+

lemma others_service:
  assumes "system_step B E C ws le s l s'" and "watching s' = []" and "watching s = []"
    and "length qs = length ws"
  shows "system_step B E C ws le (s\<lparr>watching := qs\<rparr>) l (s'\<lparr>watching := qs\<rparr>)"
  using assms(1)
proof cases
  case (watcher_call k ev p now T)
  with assms(3) show ?thesis by simp
next
  case (claim_call k ev p now T)
  with system_step.claim_call [of k "s\<lparr>watching := qs\<rparr>" ev p le now T] show ?thesis by (simp add: watching_apart)
next
  case rpc_arrives
  with system_step.rpc_arrives [of B E C ws le "s\<lparr>watching := qs\<rparr>"] show ?thesis
    by (simp add: watching_apart)
next
  case (rpc_call k ev p now T)
  with system_step.rpc_call [of k "s\<lparr>watching := qs\<rparr>" ev p le now T] show ?thesis by (simp add: watching_apart)
next
  case restart
  with assms(2) have "ws = []" by (simp add: started_def)
  with assms(2,4) have "s'\<lparr>watching := qs\<rparr> = s'" by (cases s') simp
  with system_step.restart [OF restart(2), of "s\<lparr>watching := qs\<rparr>"] restart show ?thesis by simp
qed

lemma others_block_time:
  "system_step B E C ws le s l s' \<Longrightarrow> watching s' = [] \<Longrightarrow> block_time s' = block_time s \<or> ws = []"
  by (auto elim!: system_stepE simp: started_def)

lemma process_step_service:
  assumes len: "length (loops p) = length ws" and empty: "watching (world p) = []"
    and st: "process_step B E C ws le a p l p'"
    and run: "\<forall>wk. service_run B E C ws le h (as_service B E ws wk p)"
  shows "service_run B E C ws le (h @ l) (as_service B E ws wk p')"
  using st
proof cases
  case (ticker_made k)
  then have k: "k < length ws" using len by simp
  have "as_service B E ws wk p' = as_service B E ws wk p"
    unfolding ticker_made(3)
    by (rule as_service_upd) (use k len ticker_made(6,7) in \<open>simp_all add: watcher_goroutine_def\<close>)
  with run ticker_made(2) show ?thesis by simp
next
  case (tick_fires k)
  then have k: "k < length ws" using len by simp
  have "as_service B E ws wk p' = as_service B E ws (wk(k := Fired # wk k)) p"
    unfolding tick_fires(3)
    by (rule as_service_upd)
      (use k len tick_fires(6) in \<open>simp_all add: remaining_turn del: remaining.simps(3) watch_loop.simps\<close>)
  with run tick_fires(2) show ?thesis by simp
next
  case (turn_call k q ev q' now T)
  then have k: "k < length ws" using len by simp
  let ?s = "as_service B E ws wk p" and ?f = "\<lambda>r. case r of Panicked msg \<Rightarrow> Ret (Panicked msg) |
    Returned u \<Rightarrow> watch_loop B E (ws ! k) (wk k)"
  have "watching ?s ! k = bind_prog q ?f" using k turn_call(6) by (simp add: as_service_def)
  with step_bind [OF turn_call(7)] have st: "step_prog (watching ?s ! k) ev = Some (bind_prog q' ?f)" by simp
  have "system_step B E C ws le ?s [ev] (?s\<lparr>tab := T, watching := (watching ?s)[k := bind_prog q' ?f]\<rparr>)"
    by (rule watcher_call [OF _ st]) (use k turn_call(8) in simp_all)
  moreover have "(watching ?s)[k := bind_prog q' ?f] = watching (as_service B E ws wk p')"
    using k len by (auto simp: turn_call(3) as_service_def nth_list_update intro!: nth_equalityI)
  then have "?s\<lparr>tab := T, watching := (watching ?s)[k := bind_prog q' ?f]\<rparr> = as_service B E ws wk p'"
    by (simp add: turn_call(3) as_service_def)
  ultimately show ?thesis using run goes_on turn_call(2) by metis
next
  case (turn_ends k)
  then have k: "k < length ws" using len by simp
  have "as_service B E ws wk p' = as_service B E ws wk p"
    unfolding turn_ends(3) by (rule as_service_upd) (use k len turn_ends(6) in simp_all)
  with run turn_ends(2) show ?thesis by simp
next
  case (sees_done k)
  then have k: "k < length ws" using len by simp
  have "as_service B E ws wk p' = as_service B E ws (wk(k := [Cancelled])) p"
    unfolding sees_done(3) by (rule as_service_upd) (use k len sees_done(6) in simp_all)
  with run sees_done(2) show ?thesis by simp
next
  case (others s)
  have "system_step B E C ws le (as_service B E ws wk p) l
      (s\<lparr>watching := watching (as_service B E ws wk p)\<rparr>)"
    using others_service [OF others(4,5) empty, of "watching (as_service B E ws wk p)"]
    by (simp add: as_service_def)
  moreover have "s\<lparr>watching := watching (as_service B E ws wk p)\<rparr> = as_service B E ws wk p'"
    using others_block_time [OF others(4,5)] by (auto simp: others(2) as_service_def)
  ultimately have "system_step B E C ws le (as_service B E ws wk p) l (as_service B E ws wk p')" by simp
  with run show ?thesis using goes_on by metis
qed (use run in \<open>simp_all add: as_service_def\<close>)


lemma process_step_shape:
  "process_step B E C ws le a p l p' \<Longrightarrow> watching (world p) = [] \<Longrightarrow>
   length (loops p') = length (loops p) \<and> watching (world p') = []"
  by (induction rule: process_step.induct) simp_all

lemma process_run_service:
  assumes "process_run B E C ws le h p"
  shows "length (loops p) = length ws \<and> watching (world p) = [] \<and>
    (\<forall>wk. service_run B E C ws le h (as_service B E ws wk p))"
  using assms
proof induction
  case (first_launch p)
  have "service_run B E C ws le [] (as_service B E ws wk p)" for wk
    by (rule begins [OF launched_started [OF first_launch(1)]]) (use first_launch(2-4) in simp_all)
  with first_launch(1) show ?case by (simp add: launched_def)
next
  case (process_goes_on h p a l p')
  with process_step_service [of p ws B E C le a l p' h] process_step_shape [OF process_goes_on(2)]
  show ?case by simp
next
  case (next_launch h p p')
  have "service_run B E C ws le (h @ []) (as_service B E ws wk p')" for wk
  proof (rule goes_on)
    show "service_run B E C ws le h (as_service B E ws wk p)" using next_launch by blast
    show "system_step B E C ws le (as_service B E ws wk p) [] (as_service B E ws wk p')"
      by (rule system_step.restart [OF launched_started [OF next_launch(3)]]) (simp_all add: next_launch(4,5))
  qed
  with next_launch(3) show ?case by (simp add: launched_def)
qed

text \<open>No turn ends in a panic: a watcher that has come to a turn has a ticker.\<close>

lemma process_step_ticker:
  assumes "process_step B E C ws le a p l p'" and "length (loops p) = length ws"
    and "\<And>k. k < length ws \<Longrightarrow> loops p ! k \<noteq> Starting \<Longrightarrow> 0 < ticker_interval (block_time (world p))"
    and "k < length ws" and "loops p' ! k \<noteq> Starting"
  shows "0 < ticker_interval (block_time (world p'))"
  using assms(1)
proof cases
  case (others s)
  with others_block_time [OF others(4,5)] assms(3-5) show ?thesis by auto
qed (use assms(2-5) in \<open>auto simp: nth_list_update split: if_splits\<close>)

lemma process_run_ticker:
  assumes "process_run B E C ws le h p" and "k < length ws" and "loops p ! k \<noteq> Starting"
  shows "0 < ticker_interval (block_time (world p))"
  using assms
proof (induction arbitrary: k)
  case (process_goes_on h p a l p')
  have "length (loops p) = length ws" using process_run_service [OF process_goes_on(1)] by blast
  with process_step_ticker [OF process_goes_on(2)] process_goes_on.IH process_goes_on.prems show ?case
    by blast
qed (auto simp: launched_def)

lemma process_no_panic:
  assumes "plain B" and "distinct (map walletIndex ws)" and "process_run B E C ws le h p"
    and "\<not> redelivered (world p)" and "k < length ws"
  shows "loops p ! k \<noteq> Turning (Ret (Panicked msg))"
proof
  assume k: "loops p ! k = Turning (Ret (Panicked msg))"
  let ?s = "as_service B E ws (\<lambda>k. []) p"
  from process_run_service [OF assms(3)] have "service_run B E C ws le h ?s" by blast
  from service_run_inv [OF assms(1,2) this] assms(4,5) obtain q where
    "watch_ok le (block_time (world p)) (walletIndex (ws ! k)) (watching ?s ! k) q"
    by (auto simp: sys_inv_def)
  moreover have "0 < ticker_interval (block_time (world p))"
    using process_run_ticker [OF assms(3,5)] k by simp
  moreover have "watching ?s ! k = Ret (Panicked msg)" using k assms(5) by (simp add: as_service_def)
  ultimately show False by (simp add: watch_ok_def no_panic_def)
qed

text \<open>What has been delivered again stays so.\<close>

lemma process_step_redelivered:
  "process_step B E C ws le a p l p' \<Longrightarrow> redelivered (world p) \<Longrightarrow> redelivered (world p')"
proof (induction rule: process_step.induct)
  case (others p l s)
  then show ?case using step_redelivered by simp
qed simp_all

section \<open>The work that is left\<close>

text \<open>A program makes at most so many more calls.\<close>

definition budget :: "'r prog \<Rightarrow> nat \<Rightarrow> bool" where
  "budget q n \<longleftrightarrow> (\<forall>es q'. run_trace q es = Some q' \<longrightarrow> length es \<le> n)"

lemma budget_step: "budget q n \<Longrightarrow> step_prog q ev = Some q' \<Longrightarrow> \<exists>m. n = Suc m \<and> budget q' m"
proof -
  assume q: "budget q n" "step_prog q ev = Some q'"
  have *: "Suc (length es) \<le> n" if "run_trace q' es = Some q2" for es q2
  proof -
    have "run_trace q (ev # es) = Some q2" using q(2) that by simp
    with q(1) show ?thesis unfolding budget_def by fastforce
  qed
  from * [of "[]"] obtain m where m: "n = Suc m" by (cases n) auto
  with * show ?thesis by (auto simp: budget_def)
qed

lemma budget_turn:
  assumes "plain B"
  shows "budget (turn B E w) 21"
  unfolding budget_def
proof (intro allI impI)
  fix es q'
  assume run: "run_trace (turn B E w) es = Some q'"
  let ?rest = "\<lambda>res. case res of
      Panicked p \<Rightarrow> Ret (Panicked p)
    | Returned None \<Rightarrow> Ret (Returned ())
    | Returned (Some err) \<Rightarrow> CallInc (TickErrorsTotal (Itoa (walletIndex w))) (Ret (Returned ()))"
  from run_Inc [OF run [unfolded turn_def]] consider "es = []"
    | fs where "es = Inc TicksTotal # fs" "run_trace (bind_prog (Tick B E w) ?rest) fs = Some q'" by blast
  then show "length es \<le> 21"
  proof cases
    case (2 fs)
    from run_bind_cases [OF 2(2)] consider p1 where "run_trace (Tick B E w) fs = Some p1"
      | es1 es2 r where "fs = es1 @ es2" "run_trace (Tick B E w) es1 = Some (Ret r)"
          "run_trace (?rest r) es2 = Some q'" by blast
    then have "length fs \<le> 20"
    proof cases
      case 1
      with Tick_calls [OF assms] show ?thesis by fastforce
    next
      case (2 es1 es2 r)
      have "length es2 \<le> 1"
        using 2(3) by (cases es2) (auto split: outcome.splits option.splits if_splits event.splits)
      with Tick_calls [OF assms 2(2)] 2(1) show ?thesis by simp
    qed
    with 2(1) show ?thesis by simp
  qed simp
qed

text \<open>
  What a watcher has still to do when its ticker does not fire again: making the ticker, the calls of its turn, the end
  of the turn, the turn in which it finds the context done.
\<close>

fun left_at_most :: "loop_state \<Rightarrow> nat \<Rightarrow> bool" where
  "left_at_most Starting n = (2 \<le> n)"
| "left_at_most Selecting n = (1 \<le> n)"
| "left_at_most (Turning q) n = (\<exists>m. budget q m \<and> m + 2 \<le> n)"
| "left_at_most Stopped n = True"

fun main_left :: "main_state \<Rightarrow> nat" where
  "main_left AwaitSignal = 2"
| "main_left StopMonitoring = 1"
| "main_left AwaitTickers = 1"
| "main_left Exited = 0"
| "main_left Crashed = 0"

text \<open>Progress: whatever a program asks for, some answer is possible, if only a failure.\<close>

primrec some_event :: "'r prog \<Rightarrow> event" where
  "some_event (Ret r) = Now 0"
| "some_event (CallNow k) = Now 0"
| "some_event (CallQuery m k) = Query m (Inl ErrNotFound)"
| "some_event (CallCount m k) = Count m (Inl ErrNotFound)"
| "some_event (CallExec s k) = Exec s (Inl ErrNotFound)"
| "some_event (CallHeaderByNumber k) = HeaderByNumber (Inl ErrNotFound)"
| "some_event (CallTransactionReceipt h k) = TransactionReceipt h (Inl ErrNotFound)"
| "some_event (CallSuggestGasPrice k) = SuggestGasPrice (Inl ErrNotFound)"
| "some_event (CallEstimateGas m k) = EstimateGas m (Inl ErrNotFound)"
| "some_event (CallSendTransaction t k) = SendTransaction t (Some ErrNotFound)"
| "some_event (CallPendingNonceAt a k) = PendingNonceAt a (Inl ErrNotFound)"
| "some_event (CallSign h k) = Sign h (Inl ErrNotFound)"
| "some_event (CallProducer m p) = Notify m"
| "some_event (CallSetGauge g v p) = SetGauge g v"
| "some_event (CallInc c p) = Inc c"
| "some_event (CallIntN n k) = IntN n 0"
| "some_event (CallMarkMessage m p) = MarkMessage m"

lemma prog_goes_on:
  assumes "\<And>r. q \<noteq> Ret r"
  shows "\<exists>q'. step_prog q (some_event q) = Some q' \<and> db_event le now (some_event q) T T"
  using assms by (cases q) (auto simp: db_event_def)


section \<open>Paths\<close>

inductive process_path ::
  "boil_env \<Rightarrow> eth_lib \<Rightarrow> consumer_lib \<Rightarrow> Watcher list \<Rightarrow> (string \<Rightarrow> string \<Rightarrow> bool) \<Rightarrow>
   process \<Rightarrow> (actor \<times> event list) list \<Rightarrow> process \<Rightarrow> bool"
  for B E C ws le where
  path_Nil: "process_path B E C ws le p [] p"
| path_Cons:
    "process_step B E C ws le a p l p1 \<Longrightarrow> process_path B E C ws le p1 as p2 \<Longrightarrow>
     process_path B E C ws le p ((a, l) # as) p2"

lemma path_run:
  assumes "process_path B E C ws le p as p'" and "process_run B E C ws le h p"
  shows "process_run B E C ws le (h @ concat (map snd as)) p'"
  using assms
proof (induction arbitrary: h rule: process_path.induct)
  case (path_Nil p)
  then show ?case by simp
next
  case (path_Cons a p l p1 as p2)
  from path_Cons.IH [OF process_run.process_goes_on [OF path_Cons.prems path_Cons.hyps(1)]] show ?case
    by simp
qed

lemma path_append:
  "process_path B E C ws le p as p1 \<Longrightarrow> process_path B E C ws le p1 bs p2 \<Longrightarrow>
   process_path B E C ws le p (as @ bs) p2"
  by (induction rule: process_path.induct) (auto intro: process_path.intros)

text \<open>The calls of one turn, one after another.\<close>

lemma path_turn:
  assumes "run_trace q es = Some q'" and "db_run le es (tab (world p)) T'"
    and "running p" and "k < length (loops p)" and "loops p ! k = Turning q"
  shows "process_path B E C ws le p (map (\<lambda>e. (Works k, [e])) es)
    (p\<lparr>loops := (loops p)[k := Turning q'], world := (world p)\<lparr>tab := T'\<rparr>\<rparr>)"
  using assms
proof (induction es arbitrary: p q)
  case Nil
  then have "p\<lparr>loops := (loops p)[k := Turning q'], world := (world p)\<lparr>tab := T'\<rparr>\<rparr> = p"
    by (cases p; cases "world p") (auto simp: list_update_same_conv)
  with Nil show ?case by (simp add: path_Nil)
next
  case (Cons e es)
  from Cons.prems(2) obtain now T1 where db: "db_event le now e (tab (world p)) T1" "db_run le es T1 T'"
    by (auto elim: db_run_ConsE)
  from Cons.prems(1) obtain q1 where q1: "step_prog q e = Some q1" "run_trace q1 es = Some q'"
    by (auto split: option.splits)
  let ?p = "p\<lparr>loops := (loops p)[k := Turning q1], world := (world p)\<lparr>tab := T1\<rparr>\<rparr>"
  have "running ?p" using Cons.prems(3) by (simp add: running_def)
  from Cons.IH [OF q1(2) _ this] db(2) Cons.prems(4) have
    "process_path B E C ws le ?p (map (\<lambda>e. (Works k, [e])) es)
      (p\<lparr>loops := (loops p)[k := Turning q'], world := (world p)\<lparr>tab := T'\<rparr>\<rparr>)" by simp
  from path_Cons [OF turn_call [OF Cons.prems(3-5) q1(1) db(1)] this] show ?case by simp
qed

text \<open>Steps of \<open>main\<close> and of the watchers, other than a new tick and the return of \<open>Shutdown\<close>.\<close>

fun own_step :: "actor \<Rightarrow> bool" where
  "own_step (Works k) = True"
| "own_step Main = True"
| "own_step a = False"

fun new_tick :: "actor \<Rightarrow> bool" where
  "new_tick (Fires k) = True"
| "new_tick a = False"

text \<open>What a step costs.\<close>

lemma work_at:
  assumes "list_all2 left_at_most sts ns" and "k < length sts" and "left_at_most st n"
  shows "list_all2 left_at_most (sts[k := st]) (ns[k := n])" and "left_at_most (sts ! k) (ns ! k)"
    and "sum_list (ns[k := n]) + ns ! k = sum_list ns + n"
proof -
  show "list_all2 left_at_most (sts[k := st]) (ns[k := n])"
    using assms by (simp add: list_all2_update_cong)
  show "left_at_most (sts ! k) (ns ! k)" using assms by (simp add: list_all2_nthD)
  from assms have k: "k < length ns" by (simp add: list_all2_lengthD)
  then have "ns ! k \<le> sum_list ns" by (intro elem_le_sum_list)
  with k show "sum_list (ns[k := n]) + ns ! k = sum_list ns + n" by (simp add: sum_list_update)
qed

lemma step_cost:
  assumes B: "plain B" and work: "list_all2 left_at_most (loops p) ns"
    and st: "process_step B E C ws le a p l p'"
  shows "\<exists>ns'. list_all2 left_at_most (loops p') ns' \<and>
    (if own_step a then 1 else 0) + sum_list ns' + main_left (main_at p') \<le>
      sum_list ns + main_left (main_at p) + (if new_tick a then 22 else 0)"
  using st
proof cases
  case (ticker_made k)
  from work_at(2) [OF work ticker_made(5), of Stopped 0] ticker_made(6) have n: "2 \<le> ns ! k" by simp
  then have "left_at_most Selecting (ns ! k - 1)" by simp
  from work_at [OF work ticker_made(5) this] n ticker_made show ?thesis
    by (intro exI [of _ "ns[k := ns ! k - 1]"]) simp
next
  case (ticker_panics k)
  have "0 < main_left (main_at p)" using ticker_panics(4) by (cases "main_at p") (simp_all add: running_def)
  with ticker_panics work show ?thesis by (intro exI [of _ ns]) simp
next
  case (tick_fires k)
  have "left_at_most (Turning (turn B E (ws ! k))) (ns ! k + 22)"
    using work_at(2) [OF work tick_fires(5), of Stopped 0] budget_turn [OF B, of E "ws ! k"] tick_fires(6)
    by (auto intro!: exI [of _ 21])
  from work_at [OF work tick_fires(5) this] tick_fires show ?thesis
    by (intro exI [of _ "ns[k := ns ! k + 22]"]) simp
next
  case (turn_call k q ev q' now T)
  from work_at(2) [OF work turn_call(5), of Stopped 0] turn_call(6) obtain m where
    m: "budget q m" "m + 2 \<le> ns ! k" by auto
  from budget_step [OF m(1) turn_call(7)] obtain m' where m': "m = Suc m'" "budget q' m'" by blast
  with m(2) have "left_at_most (Turning q') (ns ! k - 1)" by (auto intro!: exI [of _ m'])
  from work_at [OF work turn_call(5) this] m(2) turn_call show ?thesis
    by (intro exI [of _ "ns[k := ns ! k - 1]"]) simp
next
  case (turn_ends k)
  from work_at(2) [OF work turn_ends(5), of Stopped 0] turn_ends(6) have n: "2 \<le> ns ! k" by auto
  then have "left_at_most Selecting (ns ! k - 1)" by simp
  from work_at [OF work turn_ends(5) this] n turn_ends show ?thesis
    by (intro exI [of _ "ns[k := ns ! k - 1]"]) simp
next
  case (sees_done k)
  from work_at(2) [OF work sees_done(5), of Stopped 0] sees_done(6) have n: "1 \<le> ns ! k" by simp
  have "left_at_most Stopped (ns ! k - 1)" by simp
  from work_at [OF work sees_done(5) this] n sees_done show ?thesis
    by (intro exI [of _ "ns[k := ns ! k - 1]"]) simp
next
  case (turn_panics k msg)
  have "0 < main_left (main_at p)" using turn_panics(4) by (cases "main_at p") (simp_all add: running_def)
  with turn_panics work show ?thesis by (intro exI [of _ ns]) simp
qed (use work in \<open>auto intro!: exI [of _ ns]\<close>)

lemma path_cost:
  assumes B: "plain B" and path: "process_path B E C ws le p as p'"
    and work: "list_all2 left_at_most (loops p) ns"
  shows "length (filter own_step (map fst as)) \<le>
    sum_list ns + main_left (main_at p) + 22 * length (filter new_tick (map fst as))"
  using path work
proof (induction arbitrary: ns rule: process_path.induct)
  case (path_Nil p)
  then show ?case by simp
next
  case (path_Cons a p l p1 as p2)
  from step_cost [OF B path_Cons.prems path_Cons.hyps(1)] obtain ns' where
    "list_all2 left_at_most (loops p1) ns'"
    "(if own_step a then 1 else 0) + sum_list ns' + main_left (main_at p1) \<le>
      sum_list ns + main_left (main_at p) + (if new_tick a then 22 else 0)" by blast
  with path_Cons.IH [of ns'] show ?case by (auto split: if_splits)
qed

section \<open>The end of a process\<close>

text \<open>A turn under way has at most 21 calls left; the context is done from the signal on.\<close>

definition process_inv :: "Watcher list \<Rightarrow> process \<Rightarrow> bool" where
  "process_inv ws p \<longleftrightarrow> length (loops p) = length ws \<and>
     (\<forall>st \<in> set (loops p). left_at_most st 23) \<and> (ctx_done p \<longrightarrow> main_at p \<noteq> AwaitSignal) \<and>
     (main_at p = Exited \<longrightarrow> set (loops p) \<subseteq> {Stopped})"

lemma process_step_inv:
  assumes B: "plain B" and inv: "process_inv ws p" and st: "process_step B E C ws le a p l p'"
  shows "process_inv ws p'"
proof -
  have upd: "\<forall>st \<in> set ((loops p)[k := st']). left_at_most st 23" if "left_at_most st' 23" for k st'
    using inv that set_update_subset_insert [of "loops p" k st'] by (auto simp: process_inv_def)
  from st show ?thesis
  proof cases
    case (ticker_made k)
    from upd [of Selecting] inv ticker_made show ?thesis by (simp add: process_inv_def running_def)
  next
    case (tick_fires k)
    have "left_at_most (Turning (turn B E (ws ! k))) 23"
      using budget_turn [OF B, of E "ws ! k"] by (auto intro!: exI [of _ 21])
    from upd [OF this] inv tick_fires show ?thesis by (simp add: process_inv_def running_def)
  next
    case (turn_call k q ev q' now T)
    from inv turn_call(5,6) have "left_at_most (Turning q) 23"
      unfolding process_inv_def by (metis nth_mem)
    with budget_step [OF _ turn_call(7)] have "left_at_most (Turning q') 23" by fastforce
    from upd [OF this] inv turn_call show ?thesis by (simp add: process_inv_def running_def)
  next
    case (turn_ends k)
    from upd [of Selecting] inv turn_ends show ?thesis by (simp add: process_inv_def running_def)
  next
    case (sees_done k)
    from upd [of Stopped] inv sees_done show ?thesis by (simp add: process_inv_def running_def)
  qed (use inv in \<open>auto simp: process_inv_def list_all_iff\<close>)
qed

lemma process_run_inv:
  assumes "plain B" and "process_run B E C ws le h p"
  shows "process_inv ws p"
  using assms(2)
proof induction
  case (process_goes_on h p a l p')
  then show ?case using process_step_inv [OF assms(1)] by blast
qed (auto simp: launched_def process_inv_def)

text \<open>
  After the signal somebody can always go on until \<open>main\<close> has returned, unless all that is missing is
  the return of \<open>Shutdown\<close>.
\<close>

lemma watcher_goes_on:
  assumes "ctx_done p" and "running p" and k: "k < length (loops p)" "loops p ! k \<noteq> Stopped"
  shows "\<exists>a l p'. own_step a \<and> process_step B E C ws le a p l p'"
proof -
  have own: ?thesis if "process_step B E C ws le (Works k) p l p'" for l p'
    using that by (intro exI [of _ "Works k"] exI conjI) simp_all
  show ?thesis
  proof (cases "loops p ! k")
    case Starting
    show ?thesis
    proof (cases "0 < ticker_interval (block_time (world p))")
      case True
      then show ?thesis by (rule own [OF ticker_made [OF assms(2) k(1) Starting]])
    next
      case False
      then have "ticker_interval (block_time (world p)) \<le> 0" by simp
      then show ?thesis by (rule own [OF ticker_panics [OF assms(2) k(1) Starting]])
    qed
  next
    case Selecting
    show ?thesis by (rule own [OF sees_done [OF assms(2) k(1) Selecting assms(1)]])
  next
    case (Turning q)
    show ?thesis
    proof (cases "\<exists>r. q = Ret r")
      case True
      then obtain r where q: "q = Ret r" by blast
      show ?thesis
      proof (cases r)
        case (Returned u)
        with Turning q have "loops p ! k = Turning (Ret (Returned ()))" by simp
        from own [OF turn_ends [OF assms(2) k(1) this]] show ?thesis .
      next
        case (Panicked m)
        with Turning q have "loops p ! k = Turning (Ret (Panicked m))" by simp
        from own [OF turn_panics [OF assms(2) k(1) this]] show ?thesis .
      qed
    next
      case False
      then obtain q' where "step_prog q (some_event q) = Some q'"
        "db_event le 0 (some_event q) (tab (world p)) (tab (world p))"
        using prog_goes_on [of q le 0 "tab (world p)"] by blast
      from own [OF turn_call [OF assms(2) k(1) Turning this]] show ?thesis .
    qed
  qed (use k in simp)
qed

lemma shutdown_goes_on:
  assumes "process_inv ws p" and "ctx_done p" and "running p"
  shows "(\<exists>a l p'. own_step a \<and> process_step B E C ws le a p l p') \<or>
    (main_at p = StopMonitoring \<and> set (loops p) \<subseteq> {Stopped})"
proof (cases "\<exists>k < length (loops p). loops p ! k \<noteq> Stopped")
  case True
  with watcher_goes_on [OF assms(2,3)] show ?thesis by blast
next
  case False
  then have all: "list_all ((=) Stopped) (loops p)" unfolding list_all_length by metis
  from assms have "main_at p \<in> {StopMonitoring, AwaitTickers}"
    by (cases "main_at p") (auto simp: running_def process_inv_def)
  moreover have "\<exists>a l p'. own_step a \<and> process_step B E C ws le a p l p'" if "main_at p = AwaitTickers"
    using tickers_done [OF that all] by (intro exI [of _ Main] exI conjI) simp_all
  ultimately show ?thesis using all by (auto simp: list_all_iff)
qed

text \<open>A process that has its tickers and is not killed ends only by the return of \<open>main\<close>.\<close>

lemma path_redelivered:
  "process_path B E C ws le p as p' \<Longrightarrow> redelivered (world p) \<Longrightarrow> redelivered (world p')"
  by (induction rule: process_path.induct) (auto dest: process_step_redelivered)

lemma path_alive:
  assumes B: "plain B" and dist: "distinct (map walletIndex ws)"
    and path: "process_path B E C ws le p as p'" and run: "process_run B E C ws le h p"
    and alive: "main_at p \<noteq> Crashed" and kept: "Dies \<notin> fst ` set as"
    and once: "\<not> redelivered (world p')"
    and secs: "set ws = {} \<or> 0 < ticker_interval (block_time (world p))"
  shows "main_at p' \<noteq> Crashed"
  using path run alive kept once secs
proof (induction arbitrary: h rule: process_path.induct)
  case (path_Nil p)
  then show ?case by simp
next
  case (path_Cons a p l p1 as p2)
  have len: "length (loops p) = length ws"
    using process_run_inv [OF B path_Cons.prems(1)] by (simp add: process_inv_def)
  have once: "\<not> redelivered (world p)"
    using path_Cons.hyps path_Cons.prems(4) path_redelivered process_step_redelivered by metis
  from path_Cons.hyps(1) have "main_at p1 \<noteq> Crashed"
  proof cases
    case (ticker_panics k)
    with path_Cons.prems(5) len show ?thesis by auto
  next
    case (turn_panics k msg)
    with process_no_panic [OF B dist path_Cons.prems(1) once, of k msg] len show ?thesis by simp
  qed (use path_Cons.prems in auto)
  moreover from path_Cons.hyps(1) have "set ws = {} \<or> 0 < ticker_interval (block_time (world p1))"
  proof cases
    case (others s)
    with others_block_time [OF others(4,5)] path_Cons.prems(5) show ?thesis by auto
  qed (use path_Cons.prems(5) in auto)
  ultimately show ?case
    using path_Cons.IH [OF process_run.process_goes_on [OF path_Cons.prems(1) path_Cons.hyps(1)]] path_Cons.prems(3,4)
    by simp
qed

text \<open>The context stays done.\<close>

lemma path_done: "process_path B E C ws le p as p' \<Longrightarrow> ctx_done p \<Longrightarrow> ctx_done p'"
proof (induction rule: process_path.induct)
  case (path_Cons a p l p1 as p2)
  have "ctx_done p1" using path_Cons.hyps(1) path_Cons.prems by cases simp_all
  with path_Cons.IH show ?case .
qed

lemma shutdown_path:
  assumes B: "plain B" and dist: "distinct (map walletIndex ws)"
    and run: "process_run B E C ws le h p" and cancelled: "ctx_done p" and alive: "running p"
    and secs: "0 < ticker_interval (block_time (world p))"
    and path: "process_path B E C ws le p as p'" and kept: "Dies \<notin> fst ` set as"
    and once: "\<not> redelivered (world p')"
  shows "length (filter own_step (map fst as)) \<le>
      23 * length ws + 1 + 22 * length (filter new_tick (map fst as)) \<and>
    (if running p'
     then (\<exists>a l p''. own_step a \<and> process_step B E C ws le a p' l p'') \<or>
       (main_at p' = StopMonitoring \<and> set (loops p') \<subseteq> {Stopped})
     else main_at p' = Exited \<and> set (loops p') \<subseteq> {Stopped})"
proof -
  note inv = process_run_inv [OF B run] and inv' = process_run_inv [OF B path_run [OF path run]]
  have "main_left (main_at p) \<le> 1"
    using inv cancelled by (cases "main_at p") (simp_all add: process_inv_def)
  moreover have "list_all2 left_at_most (loops p) (replicate (length ws) 23)"
    using inv by (simp add: process_inv_def list_all2_conv_all_nth)
  from path_cost [OF B path this] have "length (filter own_step (map fst as)) \<le>
      23 * length ws + main_left (main_at p) + 22 * length (filter new_tick (map fst as))"
    by (simp add: sum_list_replicate mult.commute)
  moreover have "main_at p' \<noteq> Crashed"
    using path_alive [OF B dist path run _ kept once] alive secs by (simp add: running_def)
  ultimately show ?thesis
    using shutdown_goes_on [OF inv' path_done [OF path cancelled]] inv'
    by (auto simp: running_def process_inv_def)
qed

end
