(* ===== verification/Demo.thy ===== *)
theory Demo
  imports Tick_Branches Tick_Log System
begin

text \<open>
  Concrete data for the witnesses of the properties: libraries that satisfy the stated laws, a
  watcher, a request in the stages of its life, and executions of a tick against a table.
\<close>

declare One_nat_def [simp del]

section \<open>Libraries\<close>

definition demo_eth :: eth_lib where
  "demo_eth =
     \<lparr>BytesToAddress = (\<lambda>b. word_of_nat (of_big_endian b)),
      BytesToHash = (\<lambda>b. word_of_nat (of_big_endian b)),
      HashBytes = (\<lambda>h. big_endian 32 (unat h)),
      HexutilDecode = (\<lambda>s. if s = ''0x08c379a0'' then Inr [0x08, 0xc3, 0x79, 0xa0] else Inl (ErrMsg ''hex'')),
      SignerHash = (\<lambda>c t. word_of_int (c + LegacyTx_GasPrice t)),
      WithSignature = (\<lambda>c t s. Inr \<lparr>inner = t, signature = s\<rparr>),
      TxHash = (\<lambda>st. word_of_int (LegacyTx_GasPrice (inner st))),
      DecimalUint64 = word_of_int\<rparr>"

lemma length_HashBytes [simp]: "length (HashBytes demo_eth h) = 32"
  by (simp add: demo_eth_def)

lemma demo_hash_back [simp]: "BytesToHash demo_eth (HashBytes demo_eth h) = h"
proof -
  have "unat h < 256 ^ 32" using unsigned_less [of h] by (simp add: power_mult [symmetric, of 2 8, simplified])
  then show ?thesis by (simp add: demo_eth_def of_big_endian_inverse)
qed

lemma demo_with_signature:
  "WithSignature demo_eth c t s = Inr \<lparr>inner = t, signature = s\<rparr>"
  by (simp add: demo_eth_def)

lemma demo_decimal: "DecimalUint64 demo_eth n = word_of_int n"
  by (simp add: demo_eth_def)

lemma eth_laws_demo: "eth_laws demo_eth"
proof -
  have "DecimalUint64 demo_eth (uint n) = n" for n by (simp add: demo_eth_def)
  moreover have "WithSignature demo_eth c t s = Inr st \<longrightarrow> inner st = t" for c t s st
    by (auto simp: demo_eth_def)
  ultimately show ?thesis by (simp add: eth_laws_def)
qed

definition demo_watcher :: Watcher where
  "demo_watcher = New_Watcher 3 5 137 7 0 False"

lemma demo_watcher_simps [simp]:
  "confirmationBlocks demo_watcher = 3" "boostAfterBlocks demo_watcher = 5"
  "chainID demo_watcher = 137" "senderAddress demo_watcher = 7" "walletIndex demo_watcher = 0"
  "disableBoosting demo_watcher = False"
  by (simp_all add: demo_watcher_def New_Watcher_def)

section \<open>A request and its stages\<close>

definition demo_id :: string where
  "demo_id = replicate 27 CHR ''a''"

lemma length_demo_id [simp]: "length demo_id = 27"
  by (simp add: demo_id_def)

definition demo_row :: MetaTransactionRequest where
  "demo_row = zero_request\<lparr>ID := demo_id, To := replicate 20 1, Data := [0xa9],
     CreatedAt := 5000, UpdatedAt := 5000\<rparr>"

definition demo_head :: "int \<Rightarrow> Header" where
  "demo_head n = \<lparr>Number = n, HeaderHash = word_of_int n\<rparr>"

definition demo_receipt :: Receipt where
  "demo_receipt = \<lparr>BlockNumber = 102, BlockHash = 102, ReceiptStatus = 1, Logs = []\<rparr>"

text \<open>The transaction for the request at a price.\<close>

definition demo_tx :: "int \<Rightarrow> SignedTx" where
  "demo_tx price = \<lparr>inner = legacy_tx 7 price (2 * 21000) (call_msg demo_eth demo_watcher demo_row price),
     signature = [1]\<rparr>"

definition demo_sent :: MetaTransactionRequest where
  "demo_sent = stamp_update 10000 (submitted demo_eth (demo_head 100) 7 60 (demo_tx 60) demo_row)"

definition demo_mined :: MetaTransactionRequest where
  "demo_mined = stamp_update 20000 (mined_at demo_eth demo_receipt demo_sent)"

lemma demo_row_simps [simp]:
  "ID demo_row = demo_id" "WalletIndex demo_row = 0" "SubmittedBlockNumber demo_row = None"
  "Nonce demo_row = None" "GasPrice demo_row = None" "Hash demo_row = None"
  "SubmittedBlockHash demo_row = None" "MinedBlockNumber demo_row = None"
  "MinedBlockHash demo_row = None" "BoostedBlockNumber demo_row = None"
  "BoostedBlockHash demo_row = None" "To demo_row = replicate 20 1" "Data demo_row = [0xa9]"
  "CreatedAt demo_row = 5000"
  by (simp_all add: demo_row_def zero_request_def)

lemma demo_sent_simps [simp]:
  "ID demo_sent = demo_id" "WalletIndex demo_sent = 0" "SubmittedBlockNumber demo_sent = Some 100"
  "Nonce demo_sent = Some 7" "GasPrice demo_sent = Some 60" "MinedBlockNumber demo_sent = None"
  "Hash demo_sent = Some (HashBytes demo_eth (TxHash demo_eth (demo_tx 60)))"
  "SubmittedBlockHash demo_sent = Some (HashBytes demo_eth (HeaderHash (demo_head 100)))"
  "MinedBlockHash demo_sent = None" "BoostedBlockNumber demo_sent = None"
  "BoostedBlockHash demo_sent = None" "To demo_sent = replicate 20 1" "Data demo_sent = [0xa9]"
  "CreatedAt demo_sent = 5000" "UpdatedAt demo_sent = 10000"
  by (simp_all add: demo_sent_def submitted_def demo_head_def stamp_update_def)

lemma demo_mined_simps [simp]:
  "ID demo_mined = demo_id" "WalletIndex demo_mined = 0" "SubmittedBlockNumber demo_mined = Some 100"
  "Nonce demo_mined = Some 7" "GasPrice demo_mined = Some 60"
  "Hash demo_mined = Hash demo_sent" "MinedBlockNumber demo_mined = Some 102"
  "MinedBlockHash demo_mined = Some (HashBytes demo_eth 102)"
  "BoostedBlockNumber demo_mined = None" "BoostedBlockHash demo_mined = None"
  "To demo_mined = replicate 20 1" "Data demo_mined = [0xa9]"
  "SubmittedBlockHash demo_mined = SubmittedBlockHash demo_sent"
  by (simp_all add: demo_mined_def mined_at_def demo_receipt_def stamp_update_def)

text \<open>Another request: of the other wallet, later, with a greater id.\<close>

definition demo_other :: MetaTransactionRequest where
  "demo_other = zero_request\<lparr>ID := replicate 27 CHR ''b'', To := replicate 20 2, Data := [0xb0],
     CreatedAt := 9000, UpdatedAt := 9000, WalletIndex := 1\<rparr>"

lemma demo_other_simps [simp]:
  "ID demo_other = replicate 27 CHR ''b''" "WalletIndex demo_other = 1"
  "SubmittedBlockNumber demo_other = None" "Hash demo_other = None" "CreatedAt demo_other = 9000"
  "Nonce demo_other = None" "GasPrice demo_other = None" "To demo_other = replicate 20 2"
  "SubmittedBlockHash demo_other = None" "MinedBlockNumber demo_other = None"
  "MinedBlockHash demo_other = None" "BoostedBlockNumber demo_other = None"
  "BoostedBlockHash demo_other = None"
  by (simp_all add: demo_other_def zero_request_def)

lemma demo_ids [simp]: "replicate 27 CHR ''b'' \<noteq> demo_id" "demo_id \<noteq> replicate 27 CHR ''b''"
  by (simp_all add: demo_id_def)

lemma demo_table_inv: "table_inv [demo_row]" "table_inv [demo_sent]" "table_inv [demo_mined]"
    "table_inv [demo_row, demo_other]" "table_inv [demo_sent, demo_other]"
  by (simp_all add: table_inv_def table_ok_def unique_ids_def unique_hashes_def row_checks_def
      row_wf_def active_def at_most_one_def numeric_ok_def length_ok_def)

section \<open>Executions\<close>

definition demo_submit :: "event list" where
  "demo_submit = Query (ask_active demo_watcher) (Inr []) #
     submit_calls demo_eth demo_watcher demo_row (demo_head 100) 7 30 21000 [1] (demo_tx 60) 10000"

definition demo_mine :: "event list" where
  "demo_mine = active_calls demo_eth demo_watcher demo_sent (demo_head 103) (Inr demo_receipt) @
     mine_calls demo_eth demo_sent demo_receipt 20000"

definition demo_confirm :: "event list" where
  "demo_confirm = active_calls demo_eth demo_watcher demo_mined (demo_head 105) (Inr demo_receipt) @
     confirm_calls demo_eth demo_mined demo_receipt @ idle_calls demo_watcher"

definition demo_boost :: "event list" where
  "demo_boost = active_calls demo_eth demo_watcher demo_sent (demo_head 110) (Inl ErrNotFound) @
     boost_calls demo_eth demo_watcher demo_sent 110 40 21000 [1] (demo_tx 80) 30000 None"

definition demo_drop :: "event list" where
  "demo_drop = Query (ask_active demo_watcher) (Inr []) #
     next_calls demo_eth demo_watcher demo_row (demo_head 100) 7 30 @
     drop_calls demo_eth demo_row (call_msg demo_eth demo_watcher demo_row 60)
       ''execution reverted'' 3 (DataString ''0x08c379a0'')"

lemma Tick_no_active:
  assumes "plain B"
  shows "run_trace (Tick B E w) (Query (ask_active w) (Inr []) # es) = run_trace (submit_next B E w) es"
  by (simp add: Tick_def ask_active_def One_plain [OF assms])

lemma demo_submit_run: "run_trace (Tick demo_env demo_eth demo_watcher) demo_submit = Some ok"
proof -
  have "WithSignature demo_eth (chainID demo_watcher)
      (legacy_tx 7 (2 * 30) (2 * 21000) (call_msg demo_eth demo_watcher demo_row (2 * 30))) [1] = Inr (demo_tx 60)"
    by (simp add: demo_with_signature demo_tx_def)
  from submit_run [OF plain_demo this] show ?thesis
    unfolding demo_submit_def Tick_no_active [OF plain_demo] .
qed

lemma demo_mine_run: "run_trace (Tick demo_env demo_eth demo_watcher) demo_mine = Some ok"
  unfolding demo_mine_def active_run(1) [OF plain_demo demo_sent_simps(3)]
  by (rule mine_run [OF plain_demo demo_sent_simps(6)])

lemma demo_confirm_run: "run_trace (Tick demo_env demo_eth demo_watcher) demo_confirm = Some ok"
proof -
  have "MinedBlockNumber demo_mined \<noteq> None" by simp
  moreover have "confirmationBlocks demo_watcher \<le> Number (demo_head 105) - BlockNumber demo_receipt"
    by (simp add: demo_head_def demo_receipt_def)
  ultimately show ?thesis
    unfolding demo_confirm_def active_run(1) [OF plain_demo demo_mined_simps(3)]
    using confirm_run [OF plain_demo] idle_run [OF plain_demo] by metis
qed

lemma demo_boost_run: "run_trace (Tick demo_env demo_eth demo_watcher) demo_boost = Some ok"
proof -
  have call: "call_msg demo_eth demo_watcher demo_sent p = call_msg demo_eth demo_watcher demo_row p" for p
    by (simp add: call_msg_def)
  have "run_trace (not_included demo_env demo_eth demo_watcher 110 demo_sent)
      (boost_calls demo_eth demo_watcher demo_sent 110 40 21000 [1] (demo_tx 80) 30000 None) =
    run_trace (boost demo_env demo_eth demo_watcher 110 demo_sent)
      (boost_calls demo_eth demo_watcher demo_sent 110 40 21000 [1] (demo_tx 80) 30000 None)"
    by (simp add: not_included_def maybe_boost_def last_send_def)
  moreover have "\<dots> = Some ok"
    by (rule boost_run [OF plain_demo demo_sent_simps(5,4)])
      (simp add: demo_with_signature demo_tx_def boost_price_def call demo_decimal)
  ultimately show ?thesis
    unfolding demo_boost_def active_run(2) [OF plain_demo demo_sent_simps(3)]
    by (simp add: demo_head_def)
qed

lemma demo_drop_run: "run_trace (Tick demo_env demo_eth demo_watcher) demo_drop = Some ok"
  using drop_run [OF plain_demo, of demo_eth demo_watcher demo_row "demo_head 100" 7 30]
  unfolding demo_drop_def Tick_no_active [OF plain_demo] by simp

section \<open>The executions against a table\<close>

lemma run_UPDATE_one:
  assumes "changed_row vs r = Some r'" and "length (ID r) = 27" and "ID r' = ID r"
  shows "run_UPDATE vs [ID r] [r] = Some ((1, []), [r'])"
  using assms
  by (simp add: run_UPDATE_def change_where_def id_in_def unique_ids_def unique_hashes_def One_nat_def)

lemma run_DELETE_one: "length (ID r) = 27 \<Longrightarrow> run_DELETE [ID r] [r] = Some ((1, []), [])"
  by (simp add: run_DELETE_def id_in_def One_nat_def)

lemma demo_checks: "row_checks demo_sent" "row_checks demo_mined"
  by (simp_all add: row_checks_def numeric_ok_def length_ok_def)

lemma demo_sent_row: "changed_row (bound_values submit_columns demo_sent) demo_row = Some demo_sent"
proof -
  have "store_cols (bound_values submit_columns demo_sent) demo_row = Some demo_sent"
    by (simp add: submit_columns_def bound_values_def demo_sent_def submitted_def stamp_update_def
        demo_head_def demo_row_def)
  with demo_checks show ?thesis by (simp add: changed_row_Some)
qed

lemma demo_mined_row: "changed_row (bound_values mined_columns demo_mined) demo_sent = Some demo_mined"
proof -
  have "store_cols (bound_values mined_columns demo_mined) demo_sent = Some demo_mined"
    by (simp add: mined_columns_def bound_values_def demo_mined_def mined_at_def stamp_update_def
        demo_receipt_def)
  with demo_checks show ?thesis by (simp add: changed_row_Some)
qed

text \<open>The collation of the examples: by the codes of the characters.\<close>

fun demo_le :: "string \<Rightarrow> string \<Rightarrow> bool" where
  "demo_le [] ys = True"
| "demo_le (x # xs) [] = False"
| "demo_le (x # xs) (y # ys) = ((of_char x :: nat) < of_char y \<or> (x = y \<and> demo_le xs ys))"

lemma demo_le_refl [simp]: "demo_le xs xs"
  by (induction xs) auto

lemma demo_submit_db: "db_run demo_le demo_submit [demo_row] [demo_sent]"
proof -
  have up: "update_of submit_columns 10000 (submitted demo_eth (demo_head 100) 7 60 (demo_tx 60) demo_row) =
      UPDATE (bound_values submit_columns demo_sent) [ID demo_row]"
    by (simp add: update_of_def demo_sent_def submitted_def)
  have "run_UPDATE (bound_values submit_columns demo_sent) [ID demo_row] [demo_row] =
      Some ((1, []), [demo_sent])"
    by (rule run_UPDATE_one [OF demo_sent_row]) simp_all
  then show ?thesis
    unfolding demo_submit_def submit_calls_def next_calls_def Let_def
    by (auto simp: db_run_Cons_iff db_event_def answers_def Let_def query_simps up active_def
        row_le_def One_nat_def)
qed

lemma demo_mine_db: "db_run demo_le demo_mine [demo_sent] [demo_mined]"
proof -
  have up: "update_of mined_columns 20000 (mined_at demo_eth demo_receipt demo_sent) =
      UPDATE (bound_values mined_columns demo_mined) [ID demo_sent]"
    by (simp add: update_of_def demo_mined_def mined_at_def)
  have "run_UPDATE (bound_values mined_columns demo_mined) [ID demo_sent] [demo_sent] =
      Some ((1, []), [demo_mined])"
    by (rule run_UPDATE_one [OF demo_mined_row]) simp_all
  then show ?thesis
    unfolding demo_mine_def active_calls_def mine_calls_def
    by (auto simp: db_run_Cons_iff db_event_def answers_def Let_def query_simps up active_def
        One_nat_def)
qed

lemma demo_confirm_db: "db_run demo_le demo_confirm [demo_mined] []"
  using run_DELETE_one [of demo_mined]
  unfolding demo_confirm_def active_calls_def confirm_calls_def idle_calls_def
  by (auto simp: db_run_Cons_iff db_event_def answers_def Let_def query_simps active_def One_nat_def)

end
