(* ===== verification/Intake_Properties.thy ===== *)
theory Intake_Properties
  imports Demo
begin

text \<open>
  The properties of the consumer: a message is marked only when its request is stored or will
  never be usable, nothing stored is changed, and a new row is exactly the request, for one of
  the wallets.
\<close>

declare One_nat_def [simp del]

section \<open>Concrete data\<close>

definition demo_request :: TransactionEventData where
  "demo_request = \<lparr>EventData_ID = demo_id, EventData_To = 1, EventData_Data = [0xa9]\<rparr>"

definition demo_consumer :: consumer_lib where
  "demo_consumer =
     \<lparr>Unmarshal = (\<lambda>b. if b = [] then Inl (ErrMsg ''unexpected end of JSON input'') else Inr demo_request),
      AddressBytes = (\<lambda>a. big_endian 20 (unat a))\<rparr>"

lemma consumer_laws_demo: "consumer_laws demo_consumer"
  by (simp add: consumer_laws_def demo_consumer_def)

definition demo_msg :: Message where
  "demo_msg = \<lparr>Partition = 0, Offset = 1, Value = [1]\<rparr>"

definition demo_arrival :: MetaTransactionRequest where
  "demo_arrival = stamp_upsert 5000 (new_row demo_consumer demo_request 1)"

definition arrival_cols :: "col list" where
  "arrival_cols = [Col_id, Col_to, Col_data, Col_wallet_index, Col_created_at, Col_updated_at]"

definition demo_intake :: "event list" where
  "demo_intake =
     [Inc RequestsTotal, IntN 2 1, Now 5000,
      Exec (INSERT (bound_values arrival_cols demo_arrival) (DoNothing [Col_id])
        metaTransactionRequestAllColumns) (Inr (1, [demo_arrival])),
      MarkMessage demo_msg]"

lemma demo_arrival_simps [simp]:
  "ID demo_arrival = demo_id" "WalletIndex demo_arrival = 1" "CreatedAt demo_arrival = 5000"
  "UpdatedAt demo_arrival = 5000" "To demo_arrival = big_endian 20 1" "Data demo_arrival = [0xa9]"
  by (simp_all add: demo_arrival_def new_row_def demo_request_def zero_request_def stamp_upsert_def
      demo_consumer_def)

lemma demo_arrival_new: "is_new demo_arrival"
  by (simp add: is_new_def demo_arrival_def new_row_def zero_request_def)

lemma demo_nonzero: "NonZeroDefaultSet demo_lib cs r = filter (nonzero_field r) cs"
  by (simp add: demo_lib_def)

lemma demo_insert_set:
  "InsertColumnSet demo_lib (Infer demo_lib) al wd wo nz =
     (filter (\<lambda>x. x \<in> set wo \<or> x \<in> set nz) (remdups (al @ wo @ nz)), filter (\<lambda>x. x \<notin> set nz) wd)"
  by (simp add: demo_lib_def)

lemma demo_unmarshal [simp]: "Unmarshal demo_consumer (Value demo_msg) = Inr demo_request"
  by (simp add: demo_consumer_def demo_msg_def)

lemma demo_request_id [simp]: "EventData_ID demo_request = demo_id"
  by (simp add: demo_request_def)

lemma demo_entry:
  "upsert_entry demo_env False [Col_id] (NoColumns demo_lib) (Infer demo_lib) []
     (NonZeroDefaultSet demo_lib metaTransactionRequestColumnsWithDefault demo_arrival) =
   Inr \<lparr>ic_columns = arrival_cols, ic_action = DoNothing [Col_id],
     ic_retMapping = metaTransactionRequestAllColumns\<rparr>"
proof -
  have nz: "NonZeroDefaultSet demo_lib metaTransactionRequestColumnsWithDefault demo_arrival =
      [Col_created_at, Col_updated_at]"
    using demo_arrival_new
    by (simp add: demo_nonzero metaTransactionRequestColumnsWithDefault_def nonzero_field_def
        is_new_def) (simp add: zero_request_def)
  have up: "UpdateColumnSet demo_lib (NoColumns demo_lib) al pk = []" for al pk
    by (simp add: demo_lib_def)
  have ops: "SetComplement demo_lib xs ys = filter (\<lambda>c. c \<notin> set ys) xs"
    "SetIntersect demo_lib xs [] = []" for xs ys
    by (simp_all add: demo_lib_def)
  have lib: "lib demo_env = demo_lib" by (simp add: demo_env_def)
  show ?thesis
    unfolding nz upsert_entry_def lib demo_insert_set up Let_def
    by (simp add: ops conflict_clause_def apply_options_def arrival_cols_def
        metaTransactionRequestAllColumns_def metaTransactionRequestColumnsWithDefault_def
        metaTransactionRequestColumnsWithoutDefault_def)
qed

lemma demo_intake_run:
  "run_trace (ConsumeClaim demo_env demo_consumer 2 [Received demo_msg]) demo_intake =
    Some (Ret (Returned Waiting))"
proof -
  have lib: "lib demo_env = demo_lib" by (simp add: demo_env_def)
  have "run_trace (save_request demo_env demo_consumer demo_msg demo_request 1 (Ret (Returned Waiting)))
      (drop 2 demo_intake) = Some (Ret (Returned Waiting))"
    by (simp add: save_request_def Upsert_def with_time_plain demo_intake_def lib demo_entry
        flip: demo_arrival_def)
      (simp add: send_insert_def entry_stmt_def metaTransactionRequestAllColumns_def)
  then show ?thesis
    by (simp add: demo_intake_def handle_message_def)
qed

lemma demo_inserted: "inserted_row 5000 (bound_values arrival_cols demo_arrival) = Some demo_arrival"
proof -
  have ch: "store_cols (bound_values arrival_cols demo_arrival)
      (zero_request\<lparr>CreatedAt := 5000, UpdatedAt := 5000\<rparr>) = Some demo_arrival"
    by (simp add: arrival_cols_def bound_values_def)
      (simp add: demo_arrival_def new_row_def zero_request_def stamp_upsert_def demo_request_def demo_consumer_def)
  have "row_checks demo_arrival"
    by (simp add: row_checks_def demo_arrival_def new_row_def zero_request_def stamp_upsert_def
        numeric_ok_def length_ok_def demo_consumer_def)
  with ch show ?thesis
    by (simp add: inserted_row_def changed_row_Some arrival_cols_def
        metaTransactionRequestColumnsWithoutDefault_def)
qed

lemma demo_intake_db: "db_run demo_le demo_intake [] [demo_arrival]"
proof -
  have "run_INSERT 5000 (bound_values arrival_cols demo_arrival) (DoNothing [Col_id]) [] =
      Some ((1, [demo_arrival]), [demo_arrival])"
    by (simp add: run_INSERT_def clash_on_def append_row_def id_clash_def hash_clash_def demo_inserted)
  then have "db_event demo_le 5000 (Exec (INSERT (bound_values arrival_cols demo_arrival) (DoNothing [Col_id])
      metaTransactionRequestAllColumns) (Inr (1, [demo_arrival]))) [] [demo_arrival]"
    by simp
  then show ?thesis
    unfolding demo_intake_def
    by (auto simp: db_run_Cons_iff db_event_def)
qed

section \<open>The properties\<close>

lemma marked_stored:
  assumes "plain B" and "table_inv T"
    and "run_trace (ConsumeClaim B C n inputs) es = Some p" and "db_run le es T T'"
    and "list_all in_range es" and "MarkMessage msg \<in> set es"
    and "Unmarshal C (Value msg) = Inr data" and "length (EventData_ID data) = 27"
  shows "rows_by_id T' (EventData_ID data) \<noteq> None"
proof -
  from assms(6) obtain us vs where es: "es = us @ MarkMessage msg # vs"
    by (auto simp: in_set_conv_decomp)
  note run = intake_run [OF assms(1,3,4,5)]
  from run have "intake_guar C n inputs us (MarkMessage msg)"
    by (simp add: es intake.guars_append)
  then obtain s re where s: "arrival_stmt C n msg s" "Exec s (Inr re) \<in> set us"
    using assms(7,8) by (auto simp: unusable_def)
  have "list_all (intake_event C n inputs) es" using run intake_guars_events by blast
  moreover have "Exec s (Inr re) \<in> set es" using s(2) by (simp add: es)
  ultimately show ?thesis by (rule intake_insert_stored [OF assms(4,2) _ _ s(1) assms(7)])
qed

text \<open> C29
  On a table it shares with nobody the consumer keeps the invariant and neither changes nor removes
  a stored row, even when a message is delivered again or reported to have failed: a request that is
  under way is not reset by its own repetition. And it marks a usable message only when there is a
  row with the id of its request; with the repetition of an unmarked message this is delivery at
  least once.
\<close>

theorem Consumer_keeps_and_stores:
  assumes "plain B" and "table_inv T"
    and "run_trace (ConsumeClaim B C n inputs) es = Some p" and "db_run le es T T'"
    and "list_all in_range es"
  shows "table_inv T' \<and> set T \<subseteq> set T' \<and>
    (\<forall>msg data. MarkMessage msg \<in> set es \<and> Unmarshal C (Value msg) = Inr data \<and>
       length (EventData_ID data) = 27 \<longrightarrow> (\<exists>r \<in> set T'. ID r = EventData_ID data))"
proof -
  have "list_all (intake_event C n inputs) es"
    using intake_run [OF assms(1,3,4,5)] intake_guars_events by blast
  from intake_events_run [OF assms(4,2) this] have inv: "table_inv T'"
    and le: "rows_by_id T \<subseteq>\<^sub>m rows_by_id T'" by auto
  have "r \<in> set T'" if "r \<in> set T" for r
  proof -
    have "rows_by_id T (ID r) = Some r" using table_inv_rows_of [OF assms(2) that] by simp
    with le have "rows_by_id T' (ID r) = Some r" by (auto simp: map_le_def dom_def)
    then show ?thesis by (auto dest: rows_by_id_ID)
  qed
  moreover have "\<exists>r \<in> set T'. ID r = EventData_ID data"
    if "MarkMessage msg \<in> set es" "Unmarshal C (Value msg) = Inr data" "length (EventData_ID data) = 27"
    for msg data
    using marked_stored [OF assms that] rows_by_id_ID by fastforce
  ultimately show ?thesis using inv by blast
qed

text \<open>The same message once more, when the row has been submitted.\<close>

definition demo_again :: "event list" where
  "demo_again =
     [Inc RequestsTotal, IntN 2 1, Now 5000,
      Exec (INSERT (bound_values arrival_cols demo_arrival) (DoNothing [Col_id])
        metaTransactionRequestAllColumns) (Inr (0, [])),
      MarkMessage demo_msg]"

lemma demo_again_run:
  "run_trace (ConsumeClaim demo_env demo_consumer 2 [Received demo_msg]) demo_again =
    Some (Ret (Returned Waiting))"
proof -
  have lib: "lib demo_env = demo_lib" by (simp add: demo_env_def)
  have "run_trace (save_request demo_env demo_consumer demo_msg demo_request 1 (Ret (Returned Waiting)))
      (drop 2 demo_again) = Some (Ret (Returned Waiting))"
    by (simp add: save_request_def Upsert_def with_time_plain demo_again_def lib demo_entry
        flip: demo_arrival_def)
      (simp add: send_insert_def entry_stmt_def metaTransactionRequestAllColumns_def)
  then show ?thesis by (simp add: demo_again_def handle_message_def)
qed

lemma demo_again_db: "db_run demo_le demo_again [demo_sent] [demo_sent]"
proof -
  have "run_INSERT 5000 (bound_values arrival_cols demo_arrival) (DoNothing [Col_id]) [demo_sent] =
      Some ((0, []), [demo_sent])"
    by (simp add: run_INSERT_def clash_on_def demo_inserted)
  then have "db_event demo_le 5000 (Exec (INSERT (bound_values arrival_cols demo_arrival) (DoNothing [Col_id])
      metaTransactionRequestAllColumns) (Inr (0, []))) [demo_sent] [demo_sent]"
    by simp
  then show ?thesis
    unfolding demo_again_def by (auto simp: db_run_Cons_iff db_event_def)
qed

theorem Consumer_keeps_and_stores_witness:
  "table_inv [demo_sent] \<and> {demo_sent} \<subseteq> set [demo_sent] \<and>
   (\<exists>r \<in> set [demo_sent]. ID r = EventData_ID demo_request)"
proof -
  have "list_all in_range demo_again" "MarkMessage demo_msg \<in> set demo_again"
    by (simp_all add: demo_again_def in_range_def)
  with Consumer_keeps_and_stores [OF plain_demo demo_table_inv(2) demo_again_run demo_again_db] demo_unmarshal
  show ?thesis by fastforce
qed

text \<open> C30
  A row the consumer adds is a request it has received, with its id, target and call data, without
  any history, assigned to one of the wallets.
\<close>

theorem Consumer_adds_requests:
  assumes "plain B" and "table_inv T"
    and "run_trace (ConsumeClaim B C n inputs) es = Some p" and "db_run le es T T'"
    and "list_all in_range es" and "r \<in> set T'" and "r \<notin> set T"
  shows "SubmittedBlockNumber r = None \<and> Hash r = None \<and> Nonce r = None \<and>
    MinedBlockNumber r = None \<and> BoostedBlockNumber r = None \<and>
    0 \<le> WalletIndex r \<and> WalletIndex r < n \<and>
    (\<exists>msg data. Received msg \<in> set inputs \<and> Unmarshal C (Value msg) = Inr data \<and>
       ID r = EventData_ID data \<and> To r = AddressBytes C (EventData_To data) \<and>
       Data r = EventData_Data data)"
proof -
  have ev: "list_all (intake_event C n inputs) es"
    using intake_run [OF assms(1,3,4,5)] intake_guars_events by blast
  have "table_inv T'" using intake_events_run [OF assms(4,2) ev] by simp
  then have r: "rows_by_id T' (ID r) = Some r" using table_inv_rows_of assms(6) by blast
  have "rows_by_id T (ID r) \<noteq> Some r" using assms(7) by (auto dest: rows_by_id_ID)
  with intake_events_origin [OF assms(4,2) ev r] have "from_message C n inputs r" by blast
  then show ?thesis by (simp add: from_message_def is_new_def)
qed

theorem Consumer_adds_requests_witness:
  "0 \<le> WalletIndex demo_arrival \<and> WalletIndex demo_arrival < 2 \<and> ID demo_arrival = EventData_ID demo_request"
proof -
  have "list_all in_range demo_intake" by (simp add: demo_intake_def in_range_def)
  from Consumer_adds_requests [OF plain_demo table_inv_Nil demo_intake_run demo_intake_db this, of demo_arrival]
  show ?thesis by simp
qed

text \<open> C31
  The error paths of the consumer: a message that cannot be parsed, or whose request id does not
  have 27 bytes, is counted, marked and skipped, and the loop goes on with the next one; when a
  request cannot be stored, its message is not marked and the claim ends with the wrapped error, so
  that the message comes again; and the loop does not check whether the channel of messages is
  closed: the nil message a closed channel yields is counted as a request and then dereferenced,
  which panics.
\<close>

theorem Consumer_errors:
  assumes "plain B"
  shows "((case Unmarshal C (Value msg) of
        Inl err \<Rightarrow> True | Inr data \<Rightarrow> length (EventData_ID data) \<noteq> 27) \<longrightarrow>
      run_trace (ConsumeClaim B C n (Received msg # inputs)) ([Inc RequestsTotal, MarkMessage msg] @ es) =
      run_trace (ConsumeClaim B C n inputs) es) \<and>
    (\<forall>data i t err. Unmarshal C (Value msg) = Inr data \<and> length (EventData_ID data) = 27 \<and> 0 < n \<and>
        \<not> errors_Is err ErrNoRows \<longrightarrow>
      (\<exists>s. run_trace (ConsumeClaim B C n (Received msg # inputs))
         [Inc RequestsTotal, IntN n i, Now t, Exec s (Inl err)] =
       Some (Ret (Returned (Finished (Some
         (wrap ''models: unable to upsert meta_transaction_requests'' err))))))) \<and>
    (\<exists>m. run_trace (ConsumeClaim B C n (ChannelClosed # inputs)) [Inc RequestsTotal] = Some (Ret (Panicked m)))"
proof (intro conjI allI impI)
  fix data i t err
  assume m: "Unmarshal C (Value msg) = Inr data \<and> length (EventData_ID data) = 27 \<and> 0 < n \<and>
    \<not> errors_Is err ErrNoRows"
  obtain vs where vs: "save_request B C msg data i (ConsumeClaim B C n inputs) = CallNow (\<lambda>t.
      CallExec (INSERT (vs t) (DoNothing [Col_id]) metaTransactionRequestAllColumns) (\<lambda>res.
        case res of
          Inl e \<Rightarrow> if errors_Is e ErrNoRows then CallMarkMessage msg (ConsumeClaim B C n inputs)
            else Ret (Returned (Finished (Some
              (wrap ''models: unable to upsert meta_transaction_requests'' e))))
        | Inr re \<Rightarrow> CallMarkMessage msg (ConsumeClaim B C n inputs)))"
    using save_request_plain [OF assms] by blast
  show "\<exists>s. run_trace (ConsumeClaim B C n (Received msg # inputs))
      [Inc RequestsTotal, IntN n i, Now t, Exec s (Inl err)] =
    Some (Ret (Returned (Finished (Some (wrap ''models: unable to upsert meta_transaction_requests'' err)))))"
    using m
    by (intro exI [of _ "INSERT (vs t) (DoNothing [Col_id]) metaTransactionRequestAllColumns"])
      (simp add: handle_message_def vs)
qed (auto simp: handle_message_def split: sum.splits)

theorem Consumer_errors_witness:
  "run_trace (ConsumeClaim demo_env demo_consumer 2 [Received (demo_msg\<lparr>Value := []\<rparr>), Received demo_msg])
    ([Inc RequestsTotal, MarkMessage (demo_msg\<lparr>Value := []\<rparr>)] @ []) =
   run_trace (ConsumeClaim demo_env demo_consumer 2 [Received demo_msg]) [] \<and>
   (\<exists>s e. run_trace (ConsumeClaim demo_env demo_consumer 2 [Received demo_msg])
     [Inc RequestsTotal, IntN 2 1, Now 5000, Exec s (Inl (ErrMsg ''bad connection''))] =
     Some (Ret (Returned (Finished (Some e)))))"
proof
  show "run_trace (ConsumeClaim demo_env demo_consumer 2 [Received (demo_msg\<lparr>Value := []\<rparr>), Received demo_msg])
    ([Inc RequestsTotal, MarkMessage (demo_msg\<lparr>Value := []\<rparr>)] @ []) =
   run_trace (ConsumeClaim demo_env demo_consumer 2 [Received demo_msg]) []"
    by (rule Consumer_errors [OF plain_demo, THEN conjunct1, rule_format]) (simp add: demo_consumer_def)
  show "\<exists>s e. run_trace (ConsumeClaim demo_env demo_consumer 2 [Received demo_msg])
     [Inc RequestsTotal, IntN 2 1, Now 5000, Exec s (Inl (ErrMsg ''bad connection''))] =
     Some (Ret (Returned (Finished (Some e))))"
    using Consumer_errors [OF plain_demo, of demo_consumer demo_msg 2 "[]" "[]",
        THEN conjunct2, THEN conjunct1, rule_format, of demo_request "ErrMsg ''bad connection''" 1 5000]
    by (auto simp del: ConsumeClaim.simps)
qed

end
