(* ===== verification/Process_Properties.thy ===== *)
theory Process_Properties
  imports Process Intake_Properties
begin

text \<open>
  The properties of the process: its histories are histories of the service, and after a signal
  \<open>main\<close> returns when the ticks under way are over.
\<close>

declare One_nat_def [simp del]

section \<open>A process that is told to end in the middle of a tick\<close>

definition demo_process :: process where
  "demo_process = \<lparr>main_at = AwaitSignal, ctx_done = False, loops = [Starting],
     world = \<lparr>tab = [demo_row], watching = [], receiving = [], cleaning = [], block_time = 2,
       removed = {}, redelivered = False\<rparr>\<rparr>"

text \<open>The ticker has been made and has fired, then the signal has come.\<close>

definition demo_signalled :: process where
  "demo_signalled = demo_process\<lparr>main_at := StopMonitoring, ctx_done := True,
     loops := [Turning (turn demo_env demo_eth demo_watcher)]\<rparr>"

definition demo_exited :: process where
  "demo_exited = \<lparr>main_at = Exited, ctx_done = True, loops = [Stopped],
     world = \<lparr>tab = [demo_sent], watching = [], receiving = [], cleaning = [], block_time = 2,
       removed = {}, redelivered = False\<rparr>\<rparr>"

definition demo_end :: "(actor \<times> event list) list" where
  "demo_end = map (\<lambda>e. (Works 0, [e])) (Inc TicksTotal # demo_submit) @
     [(Works 0, []), (Works 0, []), (Monitoring, []), (Main, [])]"

lemma demo_process_run:
  "process_run demo_env demo_eth demo_consumer [demo_watcher] demo_le [] demo_process"
  by (rule first_launch)
    (simp_all add: launched_def demo_process_def demo_table_inv active_def One_nat_def)

lemma demo_signalled_run:
  "process_run demo_env demo_eth demo_consumer [demo_watcher] demo_le [] demo_signalled"
proof -
  let ?p = "demo_process\<lparr>loops := [Turning (turn demo_env demo_eth demo_watcher)]\<rparr>"
  let ?q = "demo_process\<lparr>loops := [Selecting]\<rparr>"
  have "process_step demo_env demo_eth demo_consumer [demo_watcher] demo_le (Works 0) demo_process [] ?q"
    using ticker_made [of demo_process 0 demo_env demo_eth demo_consumer "[demo_watcher]" demo_le]
    by (simp add: demo_process_def running_def ticker_interval_def)
  moreover have "process_step demo_env demo_eth demo_consumer [demo_watcher] demo_le (Fires 0) ?q [] ?p"
    using tick_fires [of ?q 0 demo_env demo_eth demo_consumer "[demo_watcher]" demo_le]
    by (simp add: demo_process_def running_def)
  moreover have "process_step demo_env demo_eth demo_consumer [demo_watcher] demo_le Main ?p [] demo_signalled"
    using signal [of ?p demo_env demo_eth demo_consumer "[demo_watcher]" demo_le]
    by (simp add: demo_process_def demo_signalled_def)
  ultimately show ?thesis
    using process_goes_on [OF process_goes_on [OF process_goes_on [OF demo_process_run]]] by fastforce
qed

lemma demo_turn_run:
  "run_trace (turn demo_env demo_eth demo_watcher) (Inc TicksTotal # demo_submit) =
    Some (Ret (Returned ()))"
  by (simp add: turn_def run_bind [OF demo_submit_run])

lemma demo_end_path:
  "process_path demo_env demo_eth demo_consumer [demo_watcher] demo_le demo_signalled demo_end demo_exited"
proof -
  let ?path = "process_path demo_env demo_eth demo_consumer [demo_watcher] demo_le"
  let ?step = "process_step demo_env demo_eth demo_consumer [demo_watcher] demo_le"
  let ?w = "\<lparr>tab = [demo_sent], watching = [], receiving = [], cleaning = [], block_time = 2,
       removed = {}, redelivered = False\<rparr>"
  let ?p = "\<lambda>m st. \<lparr>main_at = m, ctx_done = True, loops = [st], world = ?w\<rparr>"
  have db: "db_run demo_le (Inc TicksTotal # demo_submit) [demo_row] [demo_sent]"
    using demo_submit_db by (auto simp: db_run_Cons_iff db_event_def)
  have "?path demo_signalled (map (\<lambda>e. (Works 0, [e])) (Inc TicksTotal # demo_submit))
      (?p StopMonitoring (Turning (Ret (Returned ()))))"
    using path_turn [OF demo_turn_run, of demo_le demo_signalled "[demo_sent]" 0] db
    by (simp add: demo_signalled_def demo_process_def running_def del: list.map)
  moreover have "?path (?p StopMonitoring (Turning (Ret (Returned ()))))
      [(Works 0, []), (Works 0, []), (Monitoring, []), (Main, [])] demo_exited"
  proof (intro path_Cons)
    show "?step (Works 0) (?p StopMonitoring (Turning (Ret (Returned ())))) [] (?p StopMonitoring Selecting)"
      using turn_ends [of "?p StopMonitoring (Turning (Ret (Returned ())))" 0] by (simp add: running_def)
    show "?step (Works 0) (?p StopMonitoring Selecting) [] (?p StopMonitoring Stopped)"
      using sees_done [of "?p StopMonitoring Selecting" 0] by (simp add: running_def)
    show "?step Monitoring (?p StopMonitoring Stopped) [] (?p AwaitTickers Stopped)"
      using monitoring_stopped [of "?p StopMonitoring Stopped"] by simp
    show "?step Main (?p AwaitTickers Stopped) [] demo_exited"
      using tickers_done [of "?p AwaitTickers Stopped"] by (simp add: demo_exited_def)
  qed (rule path_Nil)
  ultimately show ?thesis unfolding demo_end_def by (rule path_append)
qed

lemma demo_exited_run:
  "process_run demo_env demo_eth demo_consumer [demo_watcher] demo_le (Inc TicksTotal # demo_submit) demo_exited"
proof -
  have "concat (map snd demo_end) = Inc TicksTotal # demo_submit"
    by (simp add: demo_end_def comp_def)
  with path_run [OF demo_end_path demo_signalled_run] show ?thesis by simp
qed

section \<open>The properties\<close>

text \<open> C3
  Refinement: with the making of the tickers, the ticks, the signal, the cancelled context and the
  waiting of \<open>main\<close> as steps of their own, every history of the process, and of processes that follow
  each other after any kind of end, is a history of the service, with the same table, claims and RPC
  calls, whatever each \<open>select\<close> chooses; so every property of the service holds of the process. And no
  turn of a watcher ends in a panic, as long as Kafka has not delivered a request again that the RPC
  method had removed since the last start.
\<close>

theorem Process_refines_service:
  assumes "plain B" and "distinct (map walletIndex ws)" and "process_run B E C ws le h p"
  shows "(\<exists>s. service_run B E C ws le h s \<and> tab s = tab (world p) \<and>
      receiving s = receiving (world p) \<and> cleaning s = cleaning (world p) \<and>
      removed s = removed (world p) \<and> block_time s = block_time (world p) \<and>
      redelivered s = redelivered (world p)) \<and>
    (\<not> redelivered (world p) \<longrightarrow>
      (\<forall>k < length ws. \<forall>msg. loops p ! k \<noteq> Turning (Ret (Panicked msg))))"
proof -
  from process_run_service [OF assms(3)]
  have "service_run B E C ws le h (as_service B E ws (\<lambda>k. []) p)" by blast
  with process_no_panic [OF assms] show ?thesis
    by (intro conjI exI [of _ "as_service B E ws (\<lambda>k. []) p"]) simp_all
qed

theorem Process_refines_service_witness:
  "\<exists>s. service_run demo_env demo_eth demo_consumer [demo_watcher] demo_le (Inc TicksTotal # demo_submit) s \<and>
     tab s = [demo_sent]"
  using Process_refines_service [OF plain_demo _ demo_exited_run] by (auto simp: demo_exited_def)



end
