(* ===== verification/Watcher_Properties.thy ===== *)
theory Watcher_Properties
  imports Demo Shutdown
begin

text \<open>
  The properties of one watcher: what a tick does to the table, what it announces and sends and
  why, its branches, the price of a replacement. Each has a witness on the data of Demo.
\<close>

declare One_nat_def [simp del]

section \<open>A tick and the table\<close>

definition demo_watcher1 :: Watcher where
  "demo_watcher1 = New_Watcher 3 5 137 8 1 False"

text \<open>The submission of the first request while another wallet has one.\<close>

lemma demo_submit_other_db: "db_run demo_le demo_submit [demo_row, demo_other] [demo_sent, demo_other]"
proof -
  have up: "update_of submit_columns 10000 (submitted demo_eth (demo_head 100) 7 60 (demo_tx 60) demo_row) =
      UPDATE (bound_values submit_columns demo_sent) [ID demo_row]"
    by (simp add: update_of_def demo_sent_def submitted_def)
  have "run_UPDATE (bound_values submit_columns demo_sent) [ID demo_row] [demo_row, demo_other] =
      Some ((1, []), [demo_sent, demo_other])"
    by (simp add: run_UPDATE_def change_where_def id_in_def unique_ids_def unique_hashes_def
        demo_sent_row One_nat_def)
  then show ?thesis
    unfolding demo_submit_def submit_calls_def next_calls_def Let_def
    by (auto simp: db_run_Cons_iff db_event_def answers_def Let_def query_simps up active_def
        row_le_def One_nat_def)
qed

text \<open> C14
  A tick that has the rows of its wallet to itself keeps the invariant of the table: keys, checks
  and hashes, complete data on every submitted row, and at most one submitted row per wallet,
  whatever the node, the signer and the database answer, and wherever it is cut off; it leaves
  the rows of every other wallet as they are and creates none for them; and it never dereferences a
  NULL column: a tick that comes to an end returns, with or without an error.
\<close>

theorem Tick_keeps_invariant:
  assumes "plain B" and "table_inv T"
    and "run_trace (Tick B E w) es = Some p" and "db_run le es T T'"
  shows "table_inv T' \<and> (\<forall>j. j \<noteq> walletIndex w \<longrightarrow>
    {r \<in> set T'. WalletIndex r = j} = {r \<in> set T. WalletIndex r = j}) \<and>
    (\<forall>res. p = Ret res \<longrightarrow> (\<exists>err. res = Returned err))"
proof -
  note run = Tick_safe [OF assms(1) refl] assms(3,4,2) sound_start
  have inv: "table_inv T'" using watch_run [OF run] by simp
  have "no_panic (foldl (watch_next (walletIndex w)) (Unknown, {}) es) res" if "p = Ret res" for res
    using watch_run [OF run] that by simp
  then have "\<exists>err. res = Returned err" if "p = Ret res" for res
    using that by (cases res) (auto simp: no_panic_def)
  with inv touches_only_set [OF watch_run_touches [OF run] assms(2)] show ?thesis by blast
qed

theorem Tick_keeps_invariant_witness:
  "table_inv [demo_sent, demo_other] \<and>
   {r \<in> set [demo_sent, demo_other]. WalletIndex r = 1} = {r \<in> set [demo_row, demo_other]. WalletIndex r = 1} \<and>
   demo_other \<in> {r \<in> set [demo_sent, demo_other]. WalletIndex r = 1}"
  using Tick_keeps_invariant [OF plain_demo demo_table_inv(4) demo_submit_run demo_submit_other_db]
  by simp

section \<open>What a tick announces and sends\<close>

text \<open>
  An UPDATE of a tick that was answered, on a table only this tick changes, has written its columns
  into the row.
\<close>

lemma Tick_update_row:
  assumes "plain B" and "run_trace (Tick B E w) ((es @ [Exec (UPDATE vs [x]) (Inr re)]) @ fs) = Some p"
    and "table_inv T" and "db_run le (es @ [Exec (UPDATE vs [x]) (Inr re)]) T T'"
  shows "\<exists>r. rows_by_id T' x = Some r \<and>
    (\<forall>c v. c \<noteq> Col_id \<and> map_of vs c = Some v \<longrightarrow> field_value c r = as_stored v)"
proof -
  let ?e = "Exec (UPDATE vs [x]) (Inr re)" and ?i = "walletIndex w"
  let ?q = "foldl (watch_next ?i) (Unknown, {}) es"
  from db_run_append [OF assms(4)] obtain T1 where db: "db_run le es T T1" "db_run le [?e] T1 T'"
    by blast
  from assms(2) obtain p1 where p1: "run_trace (Tick B E w) es = Some p1"
    and "run_trace p1 (?e # fs) = Some p"
    by (auto simp: run_trace_append split: option.splits)
  then obtain p2 where p2: "step_prog p1 ?e = Some p2" by (auto split: option.splits)
  note run = watch_run [OF Tick_safe [OF assms(1) refl] p1 db(1) assms(3) sound_start]
  then have inv: "table_inv T1" and snd: "sound {} ?i ?q T1"
    and safe: "watch.safe le ?i p1 ?q" by blast+
  from watch.safe_step [OF safe p2] have ok: "update_allowed ?q vs x" by simp
  from db(2) have "run_UPDATE vs [x] T1 = Some (re, T')" by (auto simp: db_run_Cons_iff)
  from update_step_present [OF inv snd _ ok this] obtain r r' where
    r: "changed_row vs r = Some r'" "rows_by_id T' = (rows_by_id T1)(x \<mapsto> r')" by auto
  from ok have "distinct (map fst vs)" by (simp add: update_allowed_def)
  from changed_row_field [OF r(1) this] have "\<forall>c v. c \<noteq> Col_id \<and> map_of vs c = Some v \<longrightarrow>
    field_value c r' = as_stored v" by simp
  with r(2) show ?thesis by simp
qed

lemma of_bytes_VBytes [simp]: "of_bytes x = VBytes b \<longleftrightarrow> x = Some b"
  by (cases x) (simp_all add: of_bytes_def)

lemma of_num_VNum [simp]: "of_num x = VNum n \<longleftrightarrow> x = Some n"
  by (cases x) (simp_all add: of_num_def)

text \<open> C15
  \<open>Submitted\<close> is announced only for a request that was read in this tick, after the node has
  accepted a transaction with the announced hash, and right after the UPDATE that writes this hash
  into the request's row has been answered without an error. When nobody else has changed the table
  during the tick, the row is there and has the announced hash; the tick does not look at the number
  of rows the UPDATE changed.
\<close>

theorem Submitted_after_send_and_store:
  assumes "plain B" and "run_trace (Tick B E w) (es @ Notify (Submitted m) # fs) = Some p"
  shows "(\<exists>r ms rs st vs re es'. Query ms (Inr (r # rs)) \<in> set es \<and> ID r = SubmittedMsg_ID m \<and>
    SendTransaction st None \<in> set es \<and> TxHash E st = SubmittedMsg_Hash m \<and>
    es = es' @ [Exec (UPDATE vs [ID r]) (Inr re)] \<and>
    map_of vs Col_hash = Some (VBytes (HashBytes E (SubmittedMsg_Hash m)))) \<and>
    (\<forall>le T T'. table_inv T \<and> db_run le es T T' \<longrightarrow>
      (\<exists>r. rows_by_id T' (SubmittedMsg_ID m) = Some r \<and>
         Hash r = Some (HashBytes E (SubmittedMsg_Hash m))))"
proof -
  from Tick_event [OF assms] obtain r ms rs st vs re es' where
    r: "Query ms (Inr (r # rs)) \<in> set es" "ID r = SubmittedMsg_ID m"
      "SendTransaction st None \<in> set es" "TxHash E st = SubmittedMsg_Hash m"
    and es: "es = es' @ [Exec (UPDATE vs [ID r]) (Inr re)]"
    and hash: "map_of vs Col_hash = Some (VBytes (HashBytes E (SubmittedMsg_Hash m)))"
    unfolding tick_guar.simps was_read_def by blast
  have "\<exists>r'. rows_by_id T' (SubmittedMsg_ID m) = Some r' \<and>
      Hash r' = Some (HashBytes E (SubmittedMsg_Hash m))"
    if "table_inv T" "db_run le es T T'" for le T T'
  proof -
    from Tick_update_row [OF assms(1) assms(2) [unfolded es] that(1) that(2) [unfolded es]] obtain r'
      where "rows_by_id T' (ID r) = Some r'" and "\<forall>c v. c \<noteq> Col_id \<and> map_of vs c = Some v \<longrightarrow>
        field_value c r' = as_stored v" by blast
    with hash have "rows_by_id T' (ID r) = Some r'"
      "field_value Col_hash r' = as_stored (VBytes (HashBytes E (SubmittedMsg_Hash m)))" by blast+
    with r(2) show ?thesis by simp
  qed
  with r es hash show ?thesis by blast
qed

theorem Submitted_after_send_and_store_witness:
  "(\<exists>r ms rs st vs re es'. Query ms (Inr (r # rs)) \<in> set (butlast demo_submit) \<and>
    ID r = demo_id \<and> SendTransaction st None \<in> set (butlast demo_submit) \<and>
    TxHash demo_eth st = TxHash demo_eth (demo_tx 60) \<and>
    butlast demo_submit = es' @ [Exec (UPDATE vs [ID r]) (Inr re)] \<and>
    map_of vs Col_hash = Some (VBytes (HashBytes demo_eth (TxHash demo_eth (demo_tx 60))))) \<and>
    (\<exists>r. rows_by_id [demo_sent, demo_other] demo_id = Some r \<and>
       Hash r = Some (HashBytes demo_eth (TxHash demo_eth (demo_tx 60))))"
proof -
  let ?m = "\<lparr>SubmittedMsg_ID = demo_id, SubmittedMsg_Hash = TxHash demo_eth (demo_tx 60)\<rparr>"
  have sub: "demo_submit = butlast demo_submit @ Notify (Submitted ?m) # []"
    by (simp add: demo_submit_def submit_calls_def next_calls_def Let_def)
  with demo_submit_run have "run_trace (Tick demo_env demo_eth demo_watcher)
      (butlast demo_submit @ Notify (Submitted ?m) # []) = Some ok" by simp
  note tick = Submitted_after_send_and_store [OF plain_demo this]
  from demo_submit_other_db sub have
    "db_run demo_le (butlast demo_submit @ [Notify (Submitted ?m)]) [demo_row, demo_other] [demo_sent, demo_other]"
    by simp
  from db_run_append [OF this]
  have "db_run demo_le (butlast demo_submit) [demo_row, demo_other] [demo_sent, demo_other]"
    by (auto simp: db_run_Cons_iff db_event_def)
  with demo_table_inv(4) have "table_inv [demo_row, demo_other] \<and>
    db_run demo_le (butlast demo_submit) [demo_row, demo_other] [demo_sent, demo_other]" by blast
  with tick have "\<exists>r. rows_by_id [demo_sent, demo_other] (SubmittedMsg_ID ?m) = Some r \<and>
       Hash r = Some (HashBytes demo_eth (SubmittedMsg_Hash ?m))" by blast
  with tick show ?thesis by simp
qed

lemma confirmed_deep:
  assumes "plain B" and "run_trace (Tick B E w) (es @ Notify (Confirmed m) # fs) = Some p"
  shows "\<exists>r ms rs rec head. Query ms (Inr (r # rs)) \<in> set es \<and> MinedBlockNumber r \<noteq> None \<and>
    TransactionReceipt (ConfirmedMsg_Hash m) (Inr rec) \<in> set es \<and>
    HeaderByNumber (Inr head) \<in> set es \<and>
    BlockNumber rec + confirmationBlocks w \<le> Number head \<and>
    ConfirmedMsg_ID m = ID r \<and> ConfirmedMsg_Hash m = BytesToHash E (null_bytes (Hash r)) \<and>
    ConfirmedMsg_Logs m = Logs rec \<and> (ConfirmedMsg_Successful m \<longleftrightarrow> ReceiptStatus rec = 1)"
proof -
  from Tick_event [OF assms] obtain r ms rs rec head where
    r: "Query ms (Inr (r # rs)) \<in> set es" "MinedBlockNumber r \<noteq> None"
      "HeaderByNumber (Inr head) \<in> set es" "receipt_for E es r rec"
    and deep: "Number head - BlockNumber rec \<ge> confirmationBlocks w" and m: "m = confirmed_msg E rec r"
    unfolding tick_guar.simps was_read_def by blast
  have "map (\<lambda>l. \<lparr>Address = Address l, Topics = Topics l, LogData = LogData l\<rparr>) ls = ls" for ls
    by (induction ls) simp_all
  with r deep m show ?thesis
    by (intro exI [of _ r] exI [of _ ms] exI [of _ rs] exI [of _ rec] exI [of _ head])
      (simp add: receipt_for_def confirmed_msg_def)
qed

lemma mined_receipt:
  assumes "plain B" and "run_trace (Tick B E w) (es @ Notify (Mined m) # fs) = Some p"
  shows "\<exists>r ms rs rec. Query ms (Inr (r # rs)) \<in> set es \<and> ID r = MinedMsg_ID m \<and>
    MinedBlockNumber r = None \<and> MinedMsg_Hash m = BytesToHash E (null_bytes (Hash r)) \<and>
    TransactionReceipt (MinedMsg_Hash m) (Inr rec) \<in> set es"
  using Tick_event [OF assms] unfolding tick_guar.simps was_read_def receipt_for_def by metis

text \<open> C16
  \<open>Mined\<close> is announced only for a request whose row has no mined block yet, when the node has
  returned a receipt for the stored hash, which is the hash announced. \<open>Confirmed\<close> is announced only for a request whose mined block was recorded by an earlier tick,
  on a receipt for the stored hash that is at least \<open>confirmationBlocks\<close> below the head read in
  this tick; the message carries the stored hash, the receipt's logs in order and its status.
\<close>

theorem Announced_on_receipts:
  assumes "plain B" and "run_trace (Tick B E w) (es @ Notify msg # fs) = Some p"
  shows "(\<forall>m. msg = Mined m \<longrightarrow>
      (\<exists>r ms rs rec. Query ms (Inr (r # rs)) \<in> set es \<and> ID r = MinedMsg_ID m \<and>
        MinedBlockNumber r = None \<and> MinedMsg_Hash m = BytesToHash E (null_bytes (Hash r)) \<and>
        TransactionReceipt (MinedMsg_Hash m) (Inr rec) \<in> set es)) \<and>
    (\<forall>m. msg = Confirmed m \<longrightarrow>
      (\<exists>r ms rs rec head. Query ms (Inr (r # rs)) \<in> set es \<and> MinedBlockNumber r \<noteq> None \<and>
        TransactionReceipt (ConfirmedMsg_Hash m) (Inr rec) \<in> set es \<and>
        HeaderByNumber (Inr head) \<in> set es \<and>
        BlockNumber rec + confirmationBlocks w \<le> Number head \<and>
        ConfirmedMsg_ID m = ID r \<and> ConfirmedMsg_Hash m = BytesToHash E (null_bytes (Hash r)) \<and>
        ConfirmedMsg_Logs m = Logs rec \<and> (ConfirmedMsg_Successful m \<longleftrightarrow> ReceiptStatus rec = 1)))"
proof (intro conjI allI impI)
  fix m
  assume "msg = Mined m"
  with assms(2) show "\<exists>r ms rs rec. Query ms (Inr (r # rs)) \<in> set es \<and> ID r = MinedMsg_ID m \<and>
        MinedBlockNumber r = None \<and> MinedMsg_Hash m = BytesToHash E (null_bytes (Hash r)) \<and>
        TransactionReceipt (MinedMsg_Hash m) (Inr rec) \<in> set es"
    using mined_receipt [OF assms(1)] by blast
next
  fix m
  assume "msg = Confirmed m"
  with assms(2) have "run_trace (Tick B E w) (es @ Notify (Confirmed m) # fs) = Some p" by simp
  from confirmed_deep [OF assms(1) this]
  show "\<exists>r ms rs rec head. Query ms (Inr (r # rs)) \<in> set es \<and> MinedBlockNumber r \<noteq> None \<and>
        TransactionReceipt (ConfirmedMsg_Hash m) (Inr rec) \<in> set es \<and>
        HeaderByNumber (Inr head) \<in> set es \<and>
        BlockNumber rec + confirmationBlocks w \<le> Number head \<and>
        ConfirmedMsg_ID m = ID r \<and> ConfirmedMsg_Hash m = BytesToHash E (null_bytes (Hash r)) \<and>
        ConfirmedMsg_Logs m = Logs rec \<and> (ConfirmedMsg_Successful m \<longleftrightarrow> ReceiptStatus rec = 1)" .
qed

theorem Announced_on_receipts_witness:
  "(\<exists>r ms rs rec. Query ms (Inr (r # rs)) \<in> set (take 5 demo_mine) \<and> ID r = demo_id \<and>
      MinedBlockNumber r = None \<and>
      TransactionReceipt (TxHash demo_eth (demo_tx 60)) (Inr rec) \<in> set (take 5 demo_mine)) \<and>
    (\<exists>r ms rs rec head. Query ms (Inr (r # rs)) \<in> set (take 5 demo_confirm) \<and> MinedBlockNumber r \<noteq> None \<and>
      TransactionReceipt (TxHash demo_eth (demo_tx 60)) (Inr rec) \<in> set (take 5 demo_confirm) \<and>
      HeaderByNumber (Inr head) \<in> set (take 5 demo_confirm) \<and> BlockNumber rec + 3 \<le> Number head)"
proof -
  let ?m = "\<lparr>MinedMsg_ID = demo_id, MinedMsg_Hash = TxHash demo_eth (demo_tx 60)\<rparr>"
  let ?c = "confirmed_msg demo_eth demo_receipt demo_mined"
  have mine: "demo_mine = take 5 demo_mine @ Notify (Mined ?m) # drop 6 demo_mine"
    by (simp add: demo_mine_def active_calls_def mine_calls_def null_bytes_def)
  have confirm: "demo_confirm = take 5 demo_confirm @ Notify (Confirmed ?c) # drop 6 demo_confirm"
    by (simp add: demo_confirm_def active_calls_def confirm_calls_def)
  from demo_mine_run mine have "run_trace (Tick demo_env demo_eth demo_watcher)
      (take 5 demo_mine @ Notify (Mined ?m) # drop 6 demo_mine) = Some ok" by simp
  note mined = Announced_on_receipts [OF plain_demo this]
  from demo_confirm_run confirm have "run_trace (Tick demo_env demo_eth demo_watcher)
      (take 5 demo_confirm @ Notify (Confirmed ?c) # drop 6 demo_confirm) = Some ok" by simp
  note confirmed = Announced_on_receipts [OF plain_demo this]
  show ?thesis
    using mined confirmed by (auto simp: confirmed_msg_def null_bytes_def)
qed

text \<open> C17
  \<open>Failed\<close> is announced only when the node refused to estimate the very call of the request with
  a JSON-RPC error, and the message carries that error's revert data.
\<close>

theorem Failed_only_on_revert:
  assumes "plain B" and "run_trace (Tick B E w) (es @ Notify (Failed m) # fs) = Some p"
  shows "\<exists>r ms rs price msg code d. Query ms (Inr (r # rs)) \<in> set es \<and> ID r = FailedMsg_ID m \<and>
    EstimateGas (call_msg E w r price) (Inl (ErrJSONRPC msg code d)) \<in> set es \<and>
    FailedMsg_Data m = revert_data E d"
  using Tick_event [OF assms] unfolding tick_guar.simps was_read_def by metis

theorem Failed_only_on_revert_witness:
  "\<exists>r ms rs price msg code d. Query ms (Inr (r # rs)) \<in> set (take 8 demo_drop) \<and> ID r = demo_id \<and>
    EstimateGas (call_msg demo_eth demo_watcher r price) (Inl (ErrJSONRPC msg code d)) \<in> set (take 8 demo_drop) \<and>
    [0x08, 0xc3, 0x79, 0xa0] = revert_data demo_eth d"
proof -
  have rd: "revert_data demo_eth (DataString ''0x08c379a0'') = [0x08, 0xc3, 0x79, 0xa0]"
    by (simp add: revert_data_def demo_eth_def)
  let ?m = "\<lparr>FailedMsg_ID = demo_id, FailedMsg_Data = [0x08, 0xc3, 0x79, 0xa0]\<rparr>"
  have "demo_drop = take 8 demo_drop @ Notify (Failed ?m) # drop 9 demo_drop"
    by (simp add: demo_drop_def next_calls_def drop_calls_def rd)
  with demo_drop_run have "run_trace (Tick demo_env demo_eth demo_watcher)
      (take 8 demo_drop @ Notify (Failed ?m) # drop 9 demo_drop) = Some ok" by simp
  from Failed_only_on_revert [OF plain_demo this] show ?thesis by simp
qed

text \<open> C18
  A tick sends at most one transaction, also when it confirms one request and goes on to the next,
  and only for a request that was read in this tick, after its gas was estimated for exactly the
  call it makes (its gas limit is twice the estimate) and with the signature obtained for it. Its
  nonce is the pending nonce just read, or it replaces the transaction in the row: then it has the
  stored nonce, and is sent right after the UPDATE that writes its hash, price and nonce into the row
  has been answered without an error. When nobody else has changed the table during the tick, the row
  is there and has them.
\<close>

theorem Send_is_prepared:
  assumes "plain B" and "run_trace (Tick B E w) (es @ SendTransaction st res # fs) = Some p"
  shows "\<not> list_ex is_send es \<and> \<not> list_ex is_send fs \<and>
    (\<exists>r ms rs price gas nonce sig. Query ms (Inr (r # rs)) \<in> set es \<and>
    EstimateGas (call_msg E w r price) (Inr gas) \<in> set es \<and>
    Sign (SignerHash E (chainID w) (legacy_tx nonce price (2 * gas) (call_msg E w r price)))
      (Inr sig) \<in> set es \<and>
    WithSignature E (chainID w) (legacy_tx nonce price (2 * gas) (call_msg E w r price)) sig = Inr st \<and>
    (PendingNonceAt (senderAddress w) (Inr nonce) \<in> set es \<or>
     (\<exists>n vs re es'. Nonce r = Some n \<and> nonce = DecimalUint64 E n \<and>
        es = es' @ [Exec (UPDATE vs [ID r]) (Inr re)] \<and>
        map_of vs Col_hash = Some (VBytes (HashBytes E (TxHash E st))) \<and>
        map_of vs Col_gas_price = Some (VNum price) \<and>
        map_of vs Col_nonce = Some (VNum (uint nonce)) \<and>
        (\<forall>le T T'. table_inv T \<and> db_run le es T T' \<longrightarrow>
          (\<exists>r'. rows_by_id T' (ID r) = Some r' \<and> Hash r' = Some (HashBytes E (TxHash E st)) \<and>
             GasPrice r' = Some price \<and> Nonce r' = Some (uint nonce))))))"
proof -
  have "length (filter is_send (es @ SendTransaction st res # fs)) \<le> 1" by (rule Tick_one_send [OF assms])
  then have fs: "\<not> list_ex is_send fs" by (auto simp: list_ex_iff filter_empty_conv One_nat_def)
  have row: "\<exists>r'. rows_by_id T' x = Some r' \<and> Hash r' = Some h \<and> GasPrice r' = Some price \<and>
      Nonce r' = Some n"
    if "es = es' @ [Exec (UPDATE vs [x]) (Inr re)]" "map_of vs Col_hash = Some (VBytes h)"
      "map_of vs Col_gas_price = Some (VNum price)" "map_of vs Col_nonce = Some (VNum n)"
      "table_inv T" "db_run le es T T'" for es' vs x re h price n le T T'
  proof -
    from Tick_update_row [OF assms(1) assms(2) [unfolded that(1)] that(5) that(6) [unfolded that(1)]]
    obtain r' where "rows_by_id T' x = Some r'" and "\<forall>c v. c \<noteq> Col_id \<and> map_of vs c = Some v \<longrightarrow>
        field_value c r' = as_stored v" by blast
    with that(2-4) have "rows_by_id T' x = Some r'" "field_value Col_hash r' = as_stored (VBytes h)"
      "field_value Col_gas_price r' = as_stored (VNum price)"
      "field_value Col_nonce r' = as_stored (VNum n)" by blast+
    then show ?thesis by simp
  qed
  from Tick_event [OF assms] obtain r ms rs where r: "Query ms (Inr (r # rs)) \<in> set es"
    and "prepared E w es r st"
    unfolding tick_guar.simps was_read_def by blast
  then obtain price gas nonce sig where none: "\<not> list_ex is_send es"
    and pre: "EstimateGas (call_msg E w r price) (Inr gas) \<in> set es"
      "Sign (SignerHash E (chainID w) (legacy_tx nonce price (2 * gas) (call_msg E w r price)))
        (Inr sig) \<in> set es"
      "WithSignature E (chainID w) (legacy_tx nonce price (2 * gas) (call_msg E w r price)) sig = Inr st"
    and src: "PendingNonceAt (senderAddress w) (Inr nonce) \<in> set es \<or>
      (\<exists>n vs re. Nonce r = Some n \<and> nonce = DecimalUint64 E n \<and>
        (\<exists>es'. es = es' @ [Exec (UPDATE vs [ID r]) (Inr re)]) \<and>
        map_of vs Col_hash = Some (VBytes (HashBytes E (TxHash E st))) \<and>
        map_of vs Col_gas_price = Some (VNum price) \<and>
        map_of vs Col_nonce = Some (VNum (uint nonce)))"
    unfolding prepared_def by blast
  have stored: "\<forall>le T T'. table_inv T \<and> db_run le es T T' \<longrightarrow>
      (\<exists>r'. rows_by_id T' (ID r) = Some r' \<and> Hash r' = Some (HashBytes E (TxHash E st)) \<and>
         GasPrice r' = Some price \<and> Nonce r' = Some (uint nonce))"
    if "es = es' @ [Exec (UPDATE vs [ID r]) (Inr re)]"
      "map_of vs Col_hash = Some (VBytes (HashBytes E (TxHash E st)))"
      "map_of vs Col_gas_price = Some (VNum price)"
      "map_of vs Col_nonce = Some (VNum (uint nonce))" for es' vs re
    using row [OF that] by blast
  from src have "PendingNonceAt (senderAddress w) (Inr nonce) \<in> set es \<or>
     (\<exists>n vs re es'. Nonce r = Some n \<and> nonce = DecimalUint64 E n \<and>
        es = es' @ [Exec (UPDATE vs [ID r]) (Inr re)] \<and>
        map_of vs Col_hash = Some (VBytes (HashBytes E (TxHash E st))) \<and>
        map_of vs Col_gas_price = Some (VNum price) \<and>
        map_of vs Col_nonce = Some (VNum (uint nonce)) \<and>
        (\<forall>le T T'. table_inv T \<and> db_run le es T T' \<longrightarrow>
          (\<exists>r'. rows_by_id T' (ID r) = Some r' \<and> Hash r' = Some (HashBytes E (TxHash E st)) \<and>
             GasPrice r' = Some price \<and> Nonce r' = Some (uint nonce))))"
    by (elim disjE exE conjE) (rule disjI1, assumption, rule disjI2, intro exI conjI,
      assumption+, rule stored, assumption+)
  with r none fs pre show ?thesis by blast
qed

theorem Send_is_prepared_witness:
  "\<exists>r ms rs price gas nonce sig. Query ms (Inr (r # rs)) \<in> set (butlast demo_boost) \<and>
    EstimateGas (call_msg demo_eth demo_watcher r price) (Inr gas) \<in> set (butlast demo_boost) \<and>
    WithSignature demo_eth 137 (legacy_tx nonce price (2 * gas) (call_msg demo_eth demo_watcher r price))
      sig = Inr (demo_tx 80)"
proof -
  have "demo_boost = butlast demo_boost @ SendTransaction (demo_tx 80) None # []"
    by (simp add: demo_boost_def active_calls_def boost_calls_def Let_def)
  with demo_boost_run have "run_trace (Tick demo_env demo_eth demo_watcher)
      (butlast demo_boost @ SendTransaction (demo_tx 80) None # []) = Some ok" by simp
  from Send_is_prepared [OF plain_demo this] show ?thesis by (metis demo_watcher_simps(3))
qed

text \<open> C19
  A tick removes a row only after it has announced the end of this very request in the same tick,
  as confirmed or as failed: no request disappears without a final status.
\<close>

theorem Delete_only_after_final_status:
  assumes "plain B" and "run_trace (Tick B E w) (es @ Exec (DELETE ids) res # fs) = Some p"
  shows "(\<exists>m. ids = [ConfirmedMsg_ID m] \<and> Notify (Confirmed m) \<in> set es) \<or>
    (\<exists>m. ids = [FailedMsg_ID m] \<and> Notify (Failed m) \<in> set es)"
proof -
  from Tick_event [OF assms] obtain m where m: "ids = [request_id m]" "terminal m" "Notify m \<in> set es"
    unfolding tick_guar.simps by blast
  then show ?thesis by (cases m) (auto simp: terminal_def)
qed

theorem Delete_only_after_final_status_witness:
  "(\<exists>m. [demo_id] = [ConfirmedMsg_ID m] \<and> Notify (Confirmed m) \<in> set (take 6 demo_confirm)) \<or>
   (\<exists>m. [demo_id] = [FailedMsg_ID m] \<and> Notify (Failed m) \<in> set (take 6 demo_confirm))"
proof -
  have "demo_confirm = take 6 demo_confirm @ Exec (DELETE [demo_id]) (Inr (1, [])) # drop 7 demo_confirm"
    by (simp add: demo_confirm_def active_calls_def confirm_calls_def)
  with demo_confirm_run have "run_trace (Tick demo_env demo_eth demo_watcher)
      (take 6 demo_confirm @ Exec (DELETE [demo_id]) (Inr (1, [])) # drop 7 demo_confirm) = Some ok"
    by simp
  from Delete_only_after_final_status [OF plain_demo this] show ?thesis .
qed

text \<open> C20
  A tick makes at most 19 calls, whatever is answered: it has no loop and no retry. So the loop of a
  watcher makes at most 21 calls for every time its ticker has fired, and at the first turn that
  finds the context done it returns: what \<open>main\<close> waits for after a signal ends.
\<close>

theorem Watcher_shuts_down:
  assumes "plain B" and "table_inv T" and "run_trace (watch_loop B E w wakeups) es = Some p"
    and "db_run le es T T'"
  shows "(\<forall>fs p'. run_trace (Tick B E w) fs = Some p' \<longrightarrow> length fs \<le> 19) \<and>
    length es \<le> 21 * length (takeWhile ((=) Fired) wakeups) \<and>
    (\<forall>r. p = Ret r \<longrightarrow> r = Returned (Cancelled \<in> set wakeups))"
  using Tick_calls [OF assms(1)] watch_loop_calls [OF assms(1,3)] watch_loop_returns [OF assms(1,2) _ assms(4)]
    assms(3)
  unfolding turns_def by blast

text \<open>One tick, then the signal.\<close>

lemma demo_loop_run:
  "run_trace (watch_loop demo_env demo_eth demo_watcher [Fired, Cancelled]) (Inc TicksTotal # demo_confirm) =
    Some (Ret (Returned True))"
  using watch_loop_tick [OF demo_confirm_run, of "[Cancelled]" "[]"] by simp

lemma demo_loop_db: "db_run demo_le (Inc TicksTotal # demo_confirm) [demo_mined] []"
  using demo_confirm_db by (auto simp: db_run_Cons_iff db_event_def)

theorem Watcher_shuts_down_witness:
  "length (Inc TicksTotal # demo_confirm) \<le> 21 \<and> Returned True = (Returned (Cancelled \<in> set [Fired, Cancelled]))"
  using Watcher_shuts_down [OF plain_demo demo_table_inv(3) demo_loop_run demo_loop_db] by simp

section \<open>The branches\<close>

lemma next_is_least:
  assumes "\<And>x. le x x"
    and "answers le (MetaTransactionRequests (next_request w) @ [Limit 1]) T (r # rs)"
  shows "rs = [] \<and> r \<in> set T \<and> WalletIndex r = walletIndex w \<and>
    (\<forall>r' \<in> set T. WalletIndex r' = walletIndex w \<longrightarrow> le (ID r) (ID r'))"
proof -
  note ans = assms(2) [folded ask_next_def]
  have r: "r \<in> set T" "WalletIndex r = walletIndex w"
    using answers_mem [OF ans] query_simps(6) by auto
  have one: "rs = []" using answers_one [OF ans query_simps(2)] by (cases rs) auto
  have "le (ID r) (ID r')" if "r' \<in> set T" "WalletIndex r' = walletIndex w" for r'
    using ans that assms(1) one
    by (auto simp: answers_def query_simps Let_def row_le_def list_all_iff)
  with r one show ?thesis by blast
qed

text \<open> C21
  Submission: with no submitted row a tick takes the queued request the database answers with, which
  is the one of its wallet with the least id in the database's order (first in, first out by id). It
  reads the head, the nonce and the price, estimates at twice the suggested price, signs, sends,
  stores the submission (block, nonce, price, hash) and announces it, in this order and with no other
  call.
\<close>

theorem Tick_submits:
  assumes "plain B" and "\<And>x. le x x"
    and "answers le (MetaTransactionRequests (next_request w) @ [Limit 1]) T (r # rs)"
    and "WithSignature E (chainID w)
      (legacy_tx nonce (2 * suggested) (2 * gas) (call_msg E w r (2 * suggested))) sig = Inr st"
  shows "(r \<in> set T \<and> WalletIndex r = walletIndex w \<and>
      (\<forall>r' \<in> set T. WalletIndex r' = walletIndex w \<longrightarrow> le (ID r) (ID r'))) \<and>
    run_trace (Tick B E w)
      (Query (ask_active w) (Inr []) # submit_calls E w r head nonce suggested gas sig st t) = Some ok"
  using next_is_least [OF assms(2,3)] submit_run [OF assms(1,4)]
  unfolding Tick_no_active [OF assms(1)] by blast

text \<open>The wallet's other request has a greater id.\<close>

lemma demo_next:
  "answers demo_le (MetaTransactionRequests (next_request demo_watcher) @ [Limit 1])
    [demo_other\<lparr>WalletIndex := 0\<rparr>, demo_row] [demo_row]"
proof -
  have "demo_le demo_id (replicate 27 CHR ''b'')"
  proof -
    have n: "(27 :: nat) = Suc 26" by simp
    show ?thesis unfolding demo_id_def n replicate_Suc demo_le.simps by simp
  qed
  then show ?thesis
    unfolding ask_next_def [symmetric]
    by (simp add: answers_def query_simps Let_def row_le_def One_nat_def)
qed

theorem Tick_submits_witness:
  "demo_le (ID demo_row) (ID (demo_other\<lparr>WalletIndex := 0\<rparr>)) \<and>
   run_trace (Tick demo_env demo_eth demo_watcher)
    (Query (ask_active demo_watcher) (Inr []) #
     submit_calls demo_eth demo_watcher demo_row (demo_head 100) 7 30 21000 [1] (demo_tx 60) 10000) = Some ok"
proof -
  have "WithSignature demo_eth (chainID demo_watcher) (legacy_tx 7 (2 * 30) (2 * 21000)
      (call_msg demo_eth demo_watcher demo_row (2 * 30))) [1] = Inr (demo_tx 60)"
    by (simp add: demo_with_signature demo_tx_def)
  from Tick_submits [OF plain_demo demo_le_refl demo_next this, of "demo_head 100" 10000] show ?thesis by simp
qed

text \<open> C22
  Without a receipt a tick first forgets the block recorded for the request, if there is one. Then,
  once \<open>boostAfterBlocks\<close> have passed since the last sending, and unless boosting is disabled, it
  prices the replacement, estimates, signs with the stored nonce, stores the new hash, price and boost
  block and then sends, and its result is what sending returned; otherwise it changes nothing more and
  returns without an error.
\<close>

theorem Tick_boosts:
  assumes "plain B" and "SubmittedBlockNumber r = Some sub"
    and "last_send r = Some n" and "GasPrice r = Some p" and "Nonce r = Some nonce"
    and "WithSignature E (chainID w)
      (legacy_tx (DecimalUint64 E nonce) (boost_price suggested p) (2 * gas)
        (call_msg E w r (boost_price suggested p))) sig = Inr st"
  shows "if boostAfterBlocks w \<le> Number head - n \<and> \<not> disableBoosting w
    then run_trace (Tick B E w) (active_calls E w r head (Inl ErrNotFound) @ unmine_calls r t0 @
      boost_calls E w (unmined r t0) (Number head) suggested gas sig st t sent) =
        Some (Ret (Returned sent))
    else run_trace (Tick B E w) (active_calls E w r head (Inl ErrNotFound) @ unmine_calls r t0) =
      Some ok"
proof (cases "boostAfterBlocks w \<le> Number head - n \<and> \<not> disableBoosting w")
  case True
  have "run_trace (boost B E w (Number head) (unmined r t0))
      (boost_calls E w (unmined r t0) (Number head) suggested gas sig st t sent) =
    Some (Ret (Returned sent))"
    by (rule boost_run [OF assms(1), of _ p nonce]) (simp_all add: assms)
  moreover from True have "n + boostAfterBlocks w \<le> Number head \<and> \<not> disableBoosting w" by auto
  ultimately show ?thesis
    unfolding Tick_no_receipt [OF assms(1-3)] if_P [OF True] by simp
next
  case False
  then have "\<not> (n + boostAfterBlocks w \<le> Number head \<and> \<not> disableBoosting w)" by auto
  with Tick_no_receipt [OF assms(1-3), of E w head t0 "[]"] show ?thesis
    unfolding if_not_P [OF False] by simp
qed

text \<open>One request whose block is forgotten, one that has none.\<close>

theorem Tick_boosts_witness:
  "run_trace (Tick demo_env demo_eth demo_watcher)
    (active_calls demo_eth demo_watcher demo_mined (demo_head 110) (Inl ErrNotFound) @
     unmine_calls demo_mined 29000 @
     boost_calls demo_eth demo_watcher (unmined demo_mined 29000) (Number (demo_head 110)) 40 21000 [1]
       (demo_tx 80) 30000 (Some (ErrMsg ''underpriced''))) =
     Some (Ret (Returned (Some (ErrMsg ''underpriced'')))) \<and>
   run_trace (Tick demo_env demo_eth demo_watcher)
    (active_calls demo_eth demo_watcher demo_sent (demo_head 104) (Inl ErrNotFound)) = Some ok"
proof -
  have call: "call_msg demo_eth demo_watcher demo_mined p = call_msg demo_eth demo_watcher demo_row p"
    "call_msg demo_eth demo_watcher demo_sent p = call_msg demo_eth demo_watcher demo_row p" for p
    by (simp_all add: call_msg_def)
  have send: "last_send demo_sent = Some 100" "last_send demo_mined = Some 100"
    by (simp_all add: last_send_def)
  have sig: "WithSignature demo_eth (chainID demo_watcher)
      (legacy_tx (DecimalUint64 demo_eth 7) (boost_price 40 60) (2 * 21000)
        (call_msg demo_eth demo_watcher r (boost_price 40 60))) [1] = Inr (demo_tx 80)"
    if "r \<in> {demo_sent, demo_mined}" for r
    using that
    by (auto simp: demo_with_signature demo_decimal demo_tx_def boost_price_def Let_def call)
  have "if boostAfterBlocks demo_watcher \<le> Number (demo_head 110) - 100 \<and> \<not> disableBoosting demo_watcher
    then run_trace (Tick demo_env demo_eth demo_watcher)
      (active_calls demo_eth demo_watcher demo_mined (demo_head 110) (Inl ErrNotFound) @
       unmine_calls demo_mined 29000 @
       boost_calls demo_eth demo_watcher (unmined demo_mined 29000) (Number (demo_head 110)) 40 21000 [1]
         (demo_tx 80) 30000 sent) =
      Some (Ret (Returned sent))
    else run_trace (Tick demo_env demo_eth demo_watcher)
      (active_calls demo_eth demo_watcher demo_mined (demo_head 110) (Inl ErrNotFound) @
       unmine_calls demo_mined 29000) = Some ok" for sent
    by (rule Tick_boosts [OF plain_demo _ send(2) _ _ sig]) simp_all
  moreover have "if boostAfterBlocks demo_watcher \<le> Number (demo_head 104) - 100 \<and> \<not> disableBoosting demo_watcher
    then run_trace (Tick demo_env demo_eth demo_watcher)
      (active_calls demo_eth demo_watcher demo_sent (demo_head 104) (Inl ErrNotFound) @
       unmine_calls demo_sent 29000 @
       boost_calls demo_eth demo_watcher (unmined demo_sent 29000) (Number (demo_head 104)) 40 21000 [1]
         (demo_tx 80) 30000 None) =
      Some (Ret (Returned None))
    else run_trace (Tick demo_env demo_eth demo_watcher)
      (active_calls demo_eth demo_watcher demo_sent (demo_head 104) (Inl ErrNotFound) @
       unmine_calls demo_sent 29000) = Some ok"
    by (rule Tick_boosts [OF plain_demo demo_sent_simps(3) send(1) demo_sent_simps(5,4) sig]) simp
  moreover have "unmine_calls demo_sent 29000 = []" by (simp add: unmine_calls_def)
  ultimately show ?thesis by (simp add: demo_head_def)
qed

text \<open> C23
  Confirmation: when the receipt of a request whose block has been recorded is at the required depth,
  the request is announced as confirmed and removed, and the same tick goes on with the next queued
  request as if none had been submitted.
\<close>

theorem Tick_confirms_and_goes_on:
  assumes "plain B" and "SubmittedBlockNumber r = Some sub" and "MinedBlockNumber r \<noteq> None"
    and "BlockNumber rec + confirmationBlocks w \<le> Number head"
  shows "run_trace (Tick B E w) (active_calls E w r head (Inr rec) @ confirm_calls E r rec @ es) =
    run_trace (Tick B E w) (Query (ask_active w) (Inr []) # es)"
proof -
  have "confirmationBlocks w \<le> Number head - BlockNumber rec" using assms(4) by simp
  from confirm_run [OF assms(1,3) this] show ?thesis
    unfolding active_run(1) [OF assms(1,2)] Tick_no_active [OF assms(1)] .
qed

theorem Tick_confirms_and_goes_on_witness:
  "run_trace (Tick demo_env demo_eth demo_watcher)
    (active_calls demo_eth demo_watcher demo_mined (demo_head 105) (Inr demo_receipt) @
     confirm_calls demo_eth demo_mined demo_receipt @ idle_calls demo_watcher) =
   run_trace (Tick demo_env demo_eth demo_watcher)
    (Query (ask_active demo_watcher) (Inr []) # idle_calls demo_watcher)"
  by (rule Tick_confirms_and_goes_on [OF plain_demo]) (simp_all add: demo_head_def demo_receipt_def)

text \<open> C24
  Following the chain: the first receipt is announced and its block recorded, however deep it is; a
  receipt that is not yet deep enough, from another block than the recorded one, is recorded anew
  without an announcement; and when a receipt has gone the tick forgets the recorded block before it
  considers boosting.
\<close>

theorem Tick_follows_receipts:
  assumes "plain B" and "SubmittedBlockNumber r = Some sub"
  shows "(MinedBlockNumber r = None \<longrightarrow>
      run_trace (Tick B E w) (active_calls E w r head (Inr rec) @ mine_calls E r rec t) = Some ok) \<and>
    (MinedBlockNumber r \<noteq> None \<longrightarrow>
      (Number head < BlockNumber rec + confirmationBlocks w \<and>
        BlockHash rec \<noteq> BytesToHash E (null_bytes (MinedBlockHash r)) \<longrightarrow>
        run_trace (Tick B E w) (active_calls E w r head (Inr rec) @ move_calls E r rec t) = Some ok) \<and>
      run_trace (Tick B E w) (active_calls E w r head (Inl ErrNotFound) @
        [Now t, Exec (UPDATE [(Col_mined_block_number, VNull), (Col_mined_block_hash, VNull),
           (Col_updated_at, VTime t)] [ID r]) (Inr (1, []))]) =
        Some (maybe_boost B E w (Number head) (unmined r t)))"
proof -
  have "unmine_calls r t = [Now t, Exec (UPDATE [(Col_mined_block_number, VNull),
      (Col_mined_block_hash, VNull), (Col_updated_at, VTime t)] [ID r]) (Inr (1, []))]"
    if "MinedBlockNumber r \<noteq> None"
    using that by (simp add: unmine_calls_def update_of_def mined_columns_def bound_values_def)
  then have "run_trace (not_included B E w (Number head) r) [Now t, Exec (UPDATE
      [(Col_mined_block_number, VNull), (Col_mined_block_hash, VNull), (Col_updated_at, VTime t)] [ID r])
      (Inr (1, []))] = Some (maybe_boost B E w (Number head) (unmined r t))"
    if "MinedBlockNumber r \<noteq> None"
    using that unmine_run [OF assms(1), of E w "Number head" r t "[]"] by (simp del: run_trace.simps(2))
  moreover have "run_trace (included B E w (Number head) rec r) (move_calls E r rec t) = Some ok"
    if "Number head < BlockNumber rec + confirmationBlocks w" "MinedBlockNumber r \<noteq> None"
      "BlockHash rec \<noteq> BytesToHash E (null_bytes (MinedBlockHash r))"
    using that by (intro move_run [OF assms(1)]) simp_all
  moreover have "run_trace (included B E w (Number head) rec r) (mine_calls E r rec t) = Some ok"
    if "MinedBlockNumber r = None" by (rule mine_run [OF assms(1) that])
  ultimately show ?thesis
    unfolding active_run(1,2) [OF assms(1,2)] by blast
qed

theorem Tick_follows_receipts_witness:
  "run_trace (Tick demo_env demo_eth demo_watcher)
    (active_calls demo_eth demo_watcher demo_sent (demo_head 103) (Inr demo_receipt) @
     mine_calls demo_eth demo_sent demo_receipt 20000) = Some ok \<and>
   run_trace (Tick demo_env demo_eth demo_watcher)
    (active_calls demo_eth demo_watcher demo_mined (demo_head 104)
       (Inr (demo_receipt\<lparr>BlockHash := 999\<rparr>)) @
     move_calls demo_eth demo_mined (demo_receipt\<lparr>BlockHash := 999\<rparr>) 21000) = Some ok"
proof -
  have "SubmittedBlockNumber demo_mined = Some 100" and "MinedBlockNumber demo_mined \<noteq> None"
    and "Number (demo_head 104) < BlockNumber (demo_receipt\<lparr>BlockHash := 999\<rparr>) + confirmationBlocks demo_watcher"
    and "BlockHash (demo_receipt\<lparr>BlockHash := 999\<rparr>) \<noteq>
      BytesToHash demo_eth (null_bytes (MinedBlockHash demo_mined))"
    by (simp_all add: demo_head_def demo_receipt_def null_bytes_def)
  with Tick_follows_receipts [OF plain_demo this(1), of demo_eth demo_watcher "demo_head 104"
      "demo_receipt\<lparr>BlockHash := 999\<rparr>" 21000]
    Tick_follows_receipts [OF plain_demo demo_sent_simps(3), of demo_eth demo_watcher "demo_head 103"
      demo_receipt 20000]
  show ?thesis by (metis demo_sent_simps(6))
qed

text \<open> C25
  A queued request, or one whose boost is due, that the node refuses to estimate with a JSON-RPC error
  is dropped: announced as failed with the revert data of the error and removed, with nothing sent.
  On any other error of the estimate the tick returns this error and makes no further call, so the
  request stays.
\<close>

theorem Tick_drops_reverting:
  assumes "plain B" and "SubmittedBlockNumber a = Some sub" and "last_send a = Some n"
    and "GasPrice a = Some old"
    and "boostAfterBlocks w \<le> Number head - n" and "\<not> disableBoosting w"
  shows "run_trace (Tick B E w) (Query (ask_active w) (Inr []) #
      next_calls E w r head nonce suggested @
      drop_calls E r (call_msg E w r (2 * suggested)) msg code d) = Some ok \<and>
    run_trace (Tick B E w) (active_calls E w a head (Inl ErrNotFound) @ unmine_calls a t @
      SuggestGasPrice (Inr suggested) #
      drop_calls E a (call_msg E w a (boost_price suggested old)) msg code d) = Some ok \<and>
    ((\<forall>msg code d. err \<noteq> ErrJSONRPC msg code d) \<longrightarrow>
      run_trace (Tick B E w) (Query (ask_active w) (Inr []) #
        next_calls E w r head nonce suggested @
        [EstimateGas (call_msg E w r (2 * suggested)) (Inl err)]) =
        Some (fail (ErrWrap ''error estimating gas'' err)) \<and>
      run_trace (Tick B E w) (active_calls E w a head (Inl ErrNotFound) @ unmine_calls a t @
        [SuggestGasPrice (Inr suggested),
         EstimateGas (call_msg E w a (boost_price suggested old)) (Inl err)]) =
        Some (fail (ErrWrap ''error estimating gas'' err)))"
proof -
  have due: "n + boostAfterBlocks w \<le> Number head \<and> \<not> disableBoosting w" using assms(5,6) by auto
  have boosted: "run_trace (Tick B E w) (active_calls E w a head (Inl ErrNotFound) @ unmine_calls a t @
      SuggestGasPrice (Inr suggested) #
      EstimateGas (call_msg E w a (boost_price suggested old)) (Inl e) # es) =
    run_trace (estimate_failed B E (unmined a t) e) es" for e es
    unfolding Tick_no_receipt [OF assms(1-3)] if_P [OF due]
    using boost_refused_run [of "unmined a t" old] assms(4) by simp
  have calls: "drop_calls E a' call msg code d =
      EstimateGas call (Inl (ErrJSONRPC msg code d)) # tl (drop_calls E a' call msg code d)" for a' call
    by (simp add: drop_calls_def)
  have same: "drop_calls E a call msg code d = drop_calls E (unmined a t) call msg code d" for call
    by (simp add: drop_calls_def)
  have "run_trace (Tick B E w) (active_calls E w a head (Inl ErrNotFound) @ unmine_calls a t @
      SuggestGasPrice (Inr suggested) #
      drop_calls E a (call_msg E w a (boost_price suggested old)) msg code d) = Some ok"
    by (subst calls, subst boosted, subst same, rule estimate_failed_run [OF assms(1)])
  with drop_run [OF assms(1)] boosted [of err "[]"] send_refused_run [OF assms(1), of E w r head nonce
      suggested err "[]"] show ?thesis
    unfolding Tick_no_active [OF assms(1)] by (simp add: estimate_failed_other)
qed

theorem Tick_drops_reverting_witness:
  "run_trace (Tick demo_env demo_eth demo_watcher)
    (Query (ask_active demo_watcher) (Inr []) #
      next_calls demo_eth demo_watcher demo_row (demo_head 110) 7 30 @
      drop_calls demo_eth demo_row (call_msg demo_eth demo_watcher demo_row (2 * 30))
        ''execution reverted'' 3 DataOther) = Some ok \<and>
   run_trace (Tick demo_env demo_eth demo_watcher)
    (active_calls demo_eth demo_watcher demo_mined (demo_head 110) (Inl ErrNotFound) @
      unmine_calls demo_mined 29000 @ SuggestGasPrice (Inr 30) #
      drop_calls demo_eth demo_mined (call_msg demo_eth demo_watcher demo_mined (boost_price 30 60))
        ''execution reverted'' 3 DataOther) = Some ok \<and>
   run_trace (Tick demo_env demo_eth demo_watcher)
    (Query (ask_active demo_watcher) (Inr []) #
      next_calls demo_eth demo_watcher demo_row (demo_head 110) 7 30 @
      [EstimateGas (call_msg demo_eth demo_watcher demo_row (2 * 30)) (Inl (ErrMsg ''timeout''))]) =
     Some (fail (ErrWrap ''error estimating gas'' (ErrMsg ''timeout'')))"
proof -
  have due: "boostAfterBlocks demo_watcher \<le> Number (demo_head 110) - 100" by (simp add: demo_head_def)
  have sub: "SubmittedBlockNumber demo_mined = Some 100" "GasPrice demo_mined = Some 60" by simp_all
  have "last_send demo_mined = Some 100" by (simp add: last_send_def)
  note drops = Tick_drops_reverting [OF plain_demo sub(1) this sub(2) due, of demo_eth demo_row 7 30
      "''execution reverted''" 3 DataOther 29000 "ErrMsg ''timeout''"]
  have "\<not> disableBoosting demo_watcher" and "\<forall>msg code d. ErrMsg ''timeout'' \<noteq> ErrJSONRPC msg code d"
    by simp_all
  with drops show ?thesis by blast
qed

section \<open>Price and gas of a transaction\<close>

lemma boost_price_bounds:
  assumes "0 \<le> old"
  shows "boost_price suggested old \<ge> 2 * suggested \<and> boost_price suggested old \<ge> old \<and>
    boost_price suggested old \<in> {2 * suggested, old * 120 div 100} \<and>
    (old = 0 \<or> 5 \<le> old \<longrightarrow> 10 * boost_price suggested old \<ge> 11 * old) \<and>
    (old < 5 \<and> 2 * suggested \<le> old \<longrightarrow> boost_price suggested old = old)"
proof -
  have *: "10 * (old * 120 div 100) \<ge> 11 * old" if "5 \<le> old"
  proof (cases "9 \<le> old")
    case True
    then show ?thesis by linarith
  next
    case False
    with that have "old \<in> {5, 6, 7, 8}" by auto
    then show ?thesis by auto
  qed
  have "old * 120 div 100 \<ge> old" using assms by linarith
  moreover have "boost_price suggested old = old" if "old < 5" "2 * suggested \<le> old"
  proof -
    have "old \<in> {0, 1, 2, 3, 4}" using assms that(1) by auto
    with that(2) show ?thesis by (auto simp: boost_price_def Let_def)
  qed
  ultimately show ?thesis using * by (auto simp: boost_price_def Let_def)
qed

lemma doubled_gas:
  "(unat gas < 2 ^ 63 \<longrightarrow> unat (2 * gas :: uint64) = 2 * unat gas) \<and>
   (2 ^ 63 \<le> unat gas \<longrightarrow> unat (2 * gas) < unat gas)"
proof -
  have lt: "unat gas < 2 ^ 64" using unsigned_less [of gas] by simp
  have eq: "unat (2 * gas) = (2 * unat gas) mod 2 ^ 64"
    by (simp add: unat_word_ariths)
  show ?thesis
  proof (cases "unat gas < 2 ^ 63")
    case True
    with eq show ?thesis by simp
  next
    case False
    then have "(2 * unat gas) mod 2 ^ 64 = 2 * unat gas - 2 ^ 64"
      using lt by (simp add: mod_if)
    with False eq lt show ?thesis by simp
  qed
qed

lemma inner_legacy:
  "eth_laws E \<Longrightarrow> WithSignature E c (legacy_tx nonce price gas call) sig = Inr st \<Longrightarrow>
   LegacyTx_GasPrice (inner st) = price \<and> LegacyTx_Gas (inner st) = gas"
  unfolding eth_laws_def by (auto simp: legacy_tx_def)

text \<open> C26
  The transaction a tick sends has twice the gas the node estimated for its call in this tick: exactly
  twice below \<open>2 ^ 63\<close>, and less than the estimate from there on, where the doubling wraps around on
  64 bits. Its price is never below twice the suggestion read in this tick. With the pending nonce it
  is twice the suggestion; a replacement is at least as dear as the transaction it replaces, costs
  twice the suggestion or 120 percent of the old price (rounded down), and beats the old price by the 10
  percent that nodes ask for, unless the old price is between 1 and 4 wei: then the division gives the
  old price back, and with a suggestion that is no higher the replacement has the very price it
  replaces.
\<close>

theorem Price_and_gas:
  assumes "plain B" and "eth_laws E"
    and "run_trace (Tick B E w) (es @ SendTransaction st res # fs) = Some p"
  shows "\<exists>r ms rs s msg gas. Query ms (Inr (r # rs)) \<in> set es \<and>
    SuggestGasPrice (Inr s) \<in> set es \<and> EstimateGas msg (Inr gas) \<in> set es \<and>
    LegacyTx_Gas (inner st) = 2 * gas \<and>
    (unat gas < 2 ^ 63 \<longrightarrow> unat (LegacyTx_Gas (inner st)) = 2 * unat gas) \<and>
    (2 ^ 63 \<le> unat gas \<longrightarrow> unat (LegacyTx_Gas (inner st)) < unat gas) \<and>
    LegacyTx_GasPrice (inner st) = CallMsg_GasPrice msg \<and> 2 * s \<le> LegacyTx_GasPrice (inner st) \<and>
    (LegacyTx_GasPrice (inner st) = 2 * s \<and>
       (\<exists>nonce. PendingNonceAt (senderAddress w) (Inr nonce) \<in> set es) \<or>
     (\<exists>old. GasPrice r = Some old \<and>
        LegacyTx_GasPrice (inner st) \<in> {2 * s, old * 120 div 100} \<and>
        (0 \<le> old \<longrightarrow> old \<le> LegacyTx_GasPrice (inner st)) \<and>
        (old = 0 \<or> 5 \<le> old \<longrightarrow> 11 * old \<le> 10 * LegacyTx_GasPrice (inner st)) \<and>
        (0 \<le> old \<and> old < 5 \<and> 2 * s \<le> old \<longrightarrow> LegacyTx_GasPrice (inner st) = old)))"
proof -
  from Tick_event [OF assms(1,3)] obtain r ms rs where r: "Query ms (Inr (r # rs)) \<in> set es"
    and "prepared E w es r st"
    unfolding tick_guar.simps was_read_def by blast
  then obtain s price gas nonce sig where calls: "SuggestGasPrice (Inr s) \<in> set es"
      "EstimateGas (call_msg E w r price) (Inr gas) \<in> set es"
    and st: "WithSignature E (chainID w) (legacy_tx nonce price (2 * gas) (call_msg E w r price)) sig = Inr st"
    and src: "PendingNonceAt (senderAddress w) (Inr nonce) \<in> set es \<and> price = 2 * s \<or>
      (\<exists>old. GasPrice r = Some old \<and> price = boost_price s old)"
    unfolding prepared_def by blast
  from inner_legacy [OF assms(2) st] have inner: "LegacyTx_GasPrice (inner st) = price"
    "LegacyTx_Gas (inner st) = 2 * gas" by blast+
  have least: "2 * s \<le> boost_price s old" "boost_price s old \<in> {2 * s, old * 120 div 100}" for old
    by (auto simp: boost_price_def Let_def)
  have bounds: "(0 \<le> old \<longrightarrow> old \<le> boost_price s old) \<and>
      (old = 0 \<or> 5 \<le> old \<longrightarrow> 11 * old \<le> 10 * boost_price s old) \<and>
      (0 \<le> old \<and> old < 5 \<and> 2 * s \<le> old \<longrightarrow> boost_price s old = old)" for old
    using boost_price_bounds [of old s] by auto
  have "CallMsg_GasPrice (call_msg E w r price) = price" by (simp add: call_msg_def)
  moreover from src have "2 * s \<le> price" using least(1) by auto
  moreover from src have "price = 2 * s \<and> (\<exists>nonce. PendingNonceAt (senderAddress w) (Inr nonce) \<in> set es) \<or>
     (\<exists>old. GasPrice r = Some old \<and> price \<in> {2 * s, old * 120 div 100} \<and>
        (0 \<le> old \<longrightarrow> old \<le> price) \<and> (old = 0 \<or> 5 \<le> old \<longrightarrow> 11 * old \<le> 10 * price) \<and>
        (0 \<le> old \<and> old < 5 \<and> 2 * s \<le> old \<longrightarrow> price = old))"
    using least(2) bounds by metis
  ultimately show ?thesis
    using r calls doubled_gas [of gas] unfolding inner by metis
qed

theorem Price_and_gas_witness:
  "\<exists>s msg gas. SuggestGasPrice (Inr s) \<in> set (butlast demo_boost) \<and>
     EstimateGas msg (Inr gas) \<in> set (butlast demo_boost) \<and>
     LegacyTx_Gas (inner (demo_tx 80)) = 2 * gas \<and> 2 * s \<le> LegacyTx_GasPrice (inner (demo_tx 80))"
proof -
  have "demo_boost = butlast demo_boost @ SendTransaction (demo_tx 80) None # []"
    by (simp add: demo_boost_def active_calls_def boost_calls_def Let_def)
  with demo_boost_run have "run_trace (Tick demo_env demo_eth demo_watcher)
      (butlast demo_boost @ SendTransaction (demo_tx 80) None # []) = Some ok" by simp
  from Price_and_gas [OF plain_demo eth_laws_demo this] show ?thesis by blast
qed

end
