(* ===== verification/Races.thy ===== *)
theory Races
  imports Intake_Properties
begin

text \<open>
  The RPC method beside a watcher and the consumer: interleavings in which it removes the row of a
  request that a watcher has in hand.
\<close>

declare One_nat_def [simp del]

section \<open>A submission cut in two\<close>

text \<open>Between the calls a tick makes up to the price and the rest, others may change the table.\<close>

definition race_tx :: "uint64 \<Rightarrow> MetaTransactionRequest \<Rightarrow> SignedTx" where
  "race_tx k r =
     \<lparr>inner = legacy_tx k 60 (2 * 21000) (call_msg demo_eth demo_watcher r 60), signature = [1]\<rparr>"

definition race_ask :: "int \<Rightarrow> uint64 \<Rightarrow> MetaTransactionRequest \<Rightarrow> event list" where
  "race_ask b k r = next_calls demo_eth demo_watcher r (demo_head b) k 30"

definition race_read :: "MetaTransactionRequest \<Rightarrow> event list" where
  "race_read r = Query (ask_active demo_watcher) (Inr []) # race_ask 100 7 r"

definition race_message :: "uint64 \<Rightarrow> MetaTransactionRequest \<Rightarrow> Producer" where
  "race_message k r = Submitted \<lparr>SubmittedMsg_ID = ID r, SubmittedMsg_Hash = TxHash demo_eth (race_tx k r)\<rparr>"

definition race_update :: "int \<Rightarrow> uint64 \<Rightarrow> MetaTransactionRequest \<Rightarrow> stmt" where
  "race_update b k r =
     update_of submit_columns 10000 (submitted demo_eth (demo_head b) k 60 (race_tx k r) r)"

definition race_send :: "uint64 \<Rightarrow> MetaTransactionRequest \<Rightarrow> event list" where
  "race_send k r =
     (let call = call_msg demo_eth demo_watcher r 60; txd = legacy_tx k 60 (2 * 21000) call
      in [EstimateGas call (Inr 21000), Sign (SignerHash demo_eth 137 txd) (Inr [1]),
          SendTransaction (race_tx k r) None, Now 10000])"

definition race_rest :: "int \<Rightarrow> uint64 \<Rightarrow> MetaTransactionRequest \<Rightarrow> int \<Rightarrow> event list" where
  "race_rest b k r n = race_send k r @ [Exec (race_update b k r) (Inr (n, [])), Notify (race_message k r)]"

lemma race_submit_run:
  "run_trace (submit_next demo_env demo_eth demo_watcher) (race_ask b k r @ race_rest b k r n) = Some ok"
proof -
  have ne: "submit_columns \<noteq> []" by (simp add: submit_columns_def)
  have id: "ID (submitted E h n p s r) = ID r" for E h n p s r by (simp add: submitted_def)
  show ?thesis
    unfolding submit_next_def send_request_def race_ask_def next_calls_def ask_next_def Let_def race_rest_def
      race_send_def race_message_def race_update_def
    by (simp add: One_plain [OF plain_demo] sign_tx_def demo_with_signature race_tx_def
        Update_plain [OF plain_demo ne] update_of_def id)
qed

lemma race_run:
  "run_trace (Tick demo_env demo_eth demo_watcher) (race_read r @ race_rest 100 7 r n) = Some ok"
  unfolding race_read_def append_Cons Tick_no_active [OF plain_demo] by (rule race_submit_run)

lemma race_rest_announces:
  "SendTransaction (race_tx k r) None \<in> set (race_rest b k r n)"
  "Notify (race_message k r) \<in> set (race_rest b k r n)"
  by (simp_all add: race_rest_def race_send_def Let_def)

text \<open>The RPC method removes the request.\<close>

definition race_clean :: "MetaTransactionRequest \<Rightarrow> event list" where
  "race_clean r =
     [Query (MetaTransactionRequests oldest_request @ [Limit 1]) (Inr [r]),
      Exec (DELETE [ID r]) (Inr (1, []))]"

lemma race_clean_run:
  "run_trace (CleanStuckMetaTransactions demo_env) (race_clean r) = Some (Ret (Returned (Inr (ID r))))"
  unfolding Clean_plain [OF plain_demo] race_clean_def by simp

section \<open>Two submitted rows\<close>

text \<open>A request as the consumer stores it for wallet 0, and a submitted one of wallet 1.\<close>

definition race_first :: MetaTransactionRequest where
  "race_first = stamp_upsert 5000 (new_row demo_consumer demo_request 0)"

definition race_busy :: MetaTransactionRequest where
  "race_busy = demo_other\<lparr>SubmittedBlockNumber := Some 90,
     SubmittedBlockHash := Some (HashBytes demo_eth 90), Nonce := Some 3, GasPrice := Some 50,
     Hash := Some (HashBytes demo_eth 1)\<rparr>"

text \<open>The row of the second delivery, when the watcher of wallet 0 has submitted the first one.\<close>

definition race_twice :: MetaTransactionRequest where
  "race_twice = stamp_update 10000 (submitted demo_eth (demo_head 100) 7 60 (race_tx 7 race_first) demo_arrival)"

lemma race_first_simps [simp]:
  "ID race_first = demo_id" "WalletIndex race_first = 0" "CreatedAt race_first = 5000"
  "SubmittedBlockNumber race_first = None" "Hash race_first = None" "Nonce race_first = None"
  "GasPrice race_first = None" "MinedBlockNumber race_first = None" "MinedBlockHash race_first = None"
  "BoostedBlockNumber race_first = None" "BoostedBlockHash race_first = None"
  "SubmittedBlockHash race_first = None" "To race_first = big_endian 20 1"
  by (simp_all add: race_first_def new_row_def demo_request_def zero_request_def stamp_upsert_def
      demo_consumer_def)

lemma race_busy_simps [simp]:
  "ID race_busy = replicate 27 CHR ''b''" "WalletIndex race_busy = 1" "CreatedAt race_busy = 9000"
  "SubmittedBlockNumber race_busy = Some 90" "Hash race_busy = Some (HashBytes demo_eth 1)"
  by (simp_all add: race_busy_def)

lemma race_twice_simps [simp]:
  "ID race_twice = demo_id" "WalletIndex race_twice = 1" "SubmittedBlockNumber race_twice = Some 100"
  "Hash race_twice = Some (HashBytes demo_eth 60)"
  by (simp_all add: race_twice_def submitted_def demo_head_def stamp_update_def)
    (simp add: demo_eth_def race_tx_def legacy_tx_def call_msg_def)

lemma race_inv: "table_inv [race_first, race_busy]"
  by (simp add: table_inv_def table_ok_def unique_ids_def unique_hashes_def row_checks_def
      row_wf_def active_def at_most_one_def numeric_ok_def length_ok_def race_busy_def)

section \<open>Against the table\<close>

lemma race_read_first: "db_run demo_le (race_read race_first) [race_first, race_busy] [race_first, race_busy]"
  by (auto simp: race_read_def race_ask_def next_calls_def db_run_Cons_iff db_event_def answers_def Let_def
      query_simps active_def row_le_def One_nat_def)

lemma race_clean_first: "db_run demo_le (race_clean race_first) [race_first, race_busy] [race_busy]"
proof -
  have "run_DELETE [demo_id] [race_first, race_busy] = Some ((1, []), [race_busy])"
    by (simp add: run_DELETE_def id_in_def One_nat_def)
  then show ?thesis
    by (auto simp: race_clean_def db_run_Cons_iff answers_def Let_def MetaTransactionRequests_eq
        where_helper_defs oldest_request_def matches_def row_le_def One_nat_def)
qed

lemma race_intake_db: "db_run demo_le demo_intake [race_busy] [race_busy, demo_arrival]"
proof -
  have h: "Hash demo_arrival = None" using demo_arrival_new by (simp add: is_new_def)
  have "run_INSERT 5000 (bound_values arrival_cols demo_arrival) (DoNothing [Col_id]) [race_busy] =
      Some ((1, [demo_arrival]), [race_busy, demo_arrival])"
    by (simp add: run_INSERT_def clash_on_def append_row_def id_clash_def hash_clash_def demo_inserted h)
  then have "db_event demo_le 5000 (Exec (INSERT (bound_values arrival_cols demo_arrival) (DoNothing [Col_id])
      metaTransactionRequestAllColumns) (Inr (1, [demo_arrival]))) [race_busy] [race_busy, demo_arrival]"
    by simp
  then show ?thesis
    unfolding demo_intake_def by (auto simp: db_run_Cons_iff db_event_def)
qed

lemma race_rest_first: "db_run demo_le (race_rest 100 7 race_first 1) [race_busy, demo_arrival] [race_busy, race_twice]"
proof -
  let ?s = "stamp_update 10000 (submitted demo_eth (demo_head 100) 7 60 (race_tx 7 race_first) race_first)"
  have up: "race_update 100 7 race_first = UPDATE (bound_values submit_columns ?s) [demo_id]"
    by (simp add: race_update_def update_of_def submitted_def)
  have "store_cols (bound_values submit_columns ?s) demo_arrival = Some race_twice"
    by (simp add: submit_columns_def bound_values_def race_twice_def submitted_def stamp_update_def
        demo_head_def)
  moreover have "row_checks race_twice"
    using demo_arrival_new
    by (simp add: row_checks_def race_twice_def is_new_def submitted_def stamp_update_def demo_head_def
      numeric_ok_def length_ok_def)
  ultimately have "changed_row (bound_values submit_columns ?s) demo_arrival = Some race_twice"
    by (simp add: changed_row_Some)
  moreover have "HashBytes demo_eth 60 \<noteq> HashBytes demo_eth 1"
  proof
    assume "HashBytes demo_eth 60 = HashBytes demo_eth 1"
    then have "(60 :: hash) = 1" by (metis demo_hash_back)
    then show False by simp
  qed
  ultimately have "run_UPDATE (bound_values submit_columns ?s) [demo_id] [race_busy, demo_arrival] =
      Some ((1, []), [race_busy, race_twice])"
    by (simp add: run_UPDATE_def change_where_def id_in_def unique_ids_def unique_hashes_def One_nat_def)
  then show ?thesis
    by (auto simp: race_rest_def race_send_def Let_def db_run_Cons_iff db_event_def up)
qed

section \<open>The properties\<close>

text \<open> C10
  The RPC method is not safe beside a watcher: there is an interleaving in which the watcher reads a
  queued request, \<open>CleanStuckMetaTransactions\<close> removes the row and reports its id, and the watcher
  then sends the transaction, updates no row, ignores that, and announces the request as submitted;
  the table is left without any trace of the transaction that is under way.
\<close>

theorem Clean_races_with_watcher:
  "\<exists>es cs fs st m.
     run_trace (Tick demo_env demo_eth demo_watcher) (es @ fs) = Some ok \<and>
     run_trace (CleanStuckMetaTransactions demo_env) cs = Some (Ret (Returned (Inr demo_id))) \<and>
     db_run demo_le es [demo_row] [demo_row] \<and> db_run demo_le cs [demo_row] [] \<and>
     db_run demo_le fs [] [] \<and>
     SendTransaction st None \<in> set fs \<and> Notify (Submitted m) \<in> set fs \<and> SubmittedMsg_ID m = demo_id"
proof -
  have read: "db_run demo_le (race_read demo_row) [demo_row] [demo_row]"
    by (auto simp: race_read_def race_ask_def next_calls_def db_run_Cons_iff db_event_def answers_def Let_def
        query_simps active_def row_le_def One_nat_def)
  have clean: "db_run demo_le (race_clean demo_row) [demo_row] []"
    using run_DELETE_one [of demo_row]
    by (auto simp: race_clean_def db_run_Cons_iff answers_def Let_def MetaTransactionRequests_eq
        where_helper_defs oldest_request_def matches_def row_le_def One_nat_def)
  have rest: "db_run demo_le (race_rest 100 7 demo_row 0) [] []"
    by (auto simp: race_rest_def race_send_def race_update_def Let_def db_run_Cons_iff db_event_def update_of_def
        run_UPDATE_def change_where_def unique_ids_def unique_hashes_def)
  show ?thesis
    using race_run [of demo_row 0] race_clean_run [of demo_row] read clean rest
      race_rest_announces [of 7 demo_row 100 0]
    unfolding race_message_def demo_row_simps(1) by (metis SubmittedMsg.select_convs(1))
qed

text \<open> C11
  What can follow. There is an execution from a table with the invariant, in which a wallet has a
  submitted row, where the RPC method removes the queued request of another wallet while the watcher
  of that wallet is at work on it, the consumer is given the request again and stores it for the
  wallet with the submitted row, and the watcher's update, by id only, marks the new row as submitted:
  one wallet then has two submitted rows. (Which is why the properties of the whole service above ask
  that no such delivery has been made since its start.)
\<close>

theorem Redelivery_breaks_invariant:
  "\<exists>es cs ds fs T T1 T2 T3 r r'.
     run_trace (Tick demo_env demo_eth demo_watcher) (es @ fs) = Some ok \<and>
     run_trace (CleanStuckMetaTransactions demo_env) cs = Some (Ret (Returned (Inr demo_id))) \<and>
     run_trace (ConsumeClaim demo_env demo_consumer 2 [Received demo_msg]) ds =
       Some (Ret (Returned Waiting)) \<and>
     table_inv T \<and> db_run demo_le es T T \<and> db_run demo_le cs T T1 \<and> db_run demo_le ds T1 T2 \<and>
     db_run demo_le fs T2 T3 \<and>
     r \<in> set T3 \<and> r' \<in> set T3 \<and> ID r \<noteq> ID r' \<and> active r \<and> active r' \<and> WalletIndex r = WalletIndex r'"
proof -
  have two: "race_busy \<in> set [race_busy, race_twice]" "race_twice \<in> set [race_busy, race_twice]"
    "ID race_busy \<noteq> ID race_twice" "active race_busy" "active race_twice"
    "WalletIndex race_busy = WalletIndex race_twice" by (simp_all add: active_def)
  show ?thesis
    by (intro exI conjI, rule race_run, rule race_clean_run [of race_first, unfolded race_first_simps(1)],
        rule demo_intake_run, rule race_inv, rule race_read_first, rule race_clean_first,
        rule race_intake_db, rule race_rest_first, (rule two)+)
qed

end
