(* ===== verification/Lag.thy ===== *)
theory Lag
  imports Races
begin

text \<open>
  The code reads through \<open>DBS().Reader\<close> and writes through \<open>DBS().Writer\<close>. When the reader is a
  replica, a read may see an earlier state than the last write. Here a query is answered by any
  state the table has had; the service as modelled in System is the case without a lag.
\<close>

declare One_nat_def [simp del]

section \<open>Executions with a lagging reader\<close>

text \<open>The states of the table, the latest first.\<close>

fun lag_event :: "(string \<Rightarrow> string \<Rightarrow> bool) \<Rightarrow> event \<Rightarrow> table list \<Rightarrow> table list \<Rightarrow> bool" where
  "lag_event le (Query ms res) H H' \<longleftrightarrow>
     H' = H \<and> (\<exists>T \<in> set H. \<exists>now. db_event le now (Query ms res) T T)"
| "lag_event le (Count ms res) H H' \<longleftrightarrow>
     H' = H \<and> (\<exists>T \<in> set H. \<exists>now. db_event le now (Count ms res) T T)"
| "lag_event le (Exec s res) H H' \<longleftrightarrow> (\<exists>T now. db_event le now (Exec s res) (hd H) T \<and> H' = T # H)"
| "lag_event le ev H H' \<longleftrightarrow> H' = H"

inductive lag_run :: "(string \<Rightarrow> string \<Rightarrow> bool) \<Rightarrow> event list \<Rightarrow> table list \<Rightarrow> table list \<Rightarrow> bool"
  for le where
  lag_Nil: "lag_run le [] H H"
| lag_Cons: "lag_event le ev H H1 \<Longrightarrow> lag_run le es H1 H' \<Longrightarrow> lag_run le (ev # es) H H'"

inductive_simps lag_run_Nil_iff [simp]: "lag_run le [] H H'"
inductive_simps lag_run_Cons_iff: "lag_run le (ev # es) H H'"

lemma lag_run_append: "lag_run le es H H1 \<Longrightarrow> lag_run le fs H1 H' \<Longrightarrow> lag_run le (es @ fs) H H'"
  by (induction rule: lag_run.induct) (auto intro: lag_Cons)

text \<open>Without a lag these are the executions of before.\<close>

lemma lag_event_current:
  assumes "db_event le now ev (hd H) T" and "H \<noteq> []"
  shows "\<exists>H'. lag_event le ev H H' \<and> H' \<noteq> [] \<and> hd H' = T"
proof (cases "\<exists>s res. ev = Exec s res")
  case True
  then obtain s res where ev: "ev = Exec s res" by blast
  have "lag_event le ev H (T # H)" using assms(1) by (auto simp only: ev lag_event.simps)
  then show ?thesis by (intro exI [of _ "T # H"]) simp
next
  case False
  with assms(1) have "T = hd H" using db_event_no_exec by metis
  with assms(1) have same: "db_event le now ev (hd H) (hd H)" by simp
  have mem: "hd H \<in> set H" using assms(2) by simp
  have "lag_event le ev H H"
  proof (cases ev)
    case (Query ms res)
    show ?thesis unfolding Query lag_event.simps using same [unfolded Query] mem by blast
  next
    case (Count ms res)
    show ?thesis unfolding Count lag_event.simps using same [unfolded Count] mem by blast
  qed (use False in simp_all)
  with assms(2) \<open>T = hd H\<close> show ?thesis by blast
qed

lemma lag_run_current:
  assumes "db_run le es T T'" and "H \<noteq> []" and "hd H = T"
  shows "\<exists>H'. lag_run le es H H' \<and> H' \<noteq> [] \<and> hd H' = T'"
  using assms
proof (induction arbitrary: H rule: db_run.induct)
  case (db_run_Cons now e T T1 es T2)
  from lag_event_current [of le now e H T1] db_run_Cons obtain H1 where
    e: "lag_event le e H H1" "H1 \<noteq> []" "hd H1 = T1" by auto
  from db_run_Cons.IH [OF e(2,3)] obtain H2 where "lag_run le es H1 H2" "H2 \<noteq> []" "hd H2 = T2" by blast
  with lag_Cons [OF e(1)] show ?case by blast
qed (auto intro: lag_Nil)

section \<open>A confirmed request once more\<close>

text \<open>
  The tick that confirms a request and removes it asks the reader for the next one, and gets the
  removed one.
\<close>

definition again_before :: "event list" where
  "again_before = active_calls demo_eth demo_watcher demo_mined (demo_head 105) (Inr demo_receipt)"

definition again_after :: "event list" where
  "again_after = Exec (DELETE [demo_id]) (Inr (1, [])) # race_ask 105 8 demo_mined @
     race_rest 105 8 demo_mined 0"

lemma again_run:
  "run_trace (Tick demo_env demo_eth demo_watcher)
     (again_before @ Notify (Confirmed (confirmed_msg demo_eth demo_receipt demo_mined)) # again_after) =
   Some ok"
proof -
  have "MinedBlockNumber demo_mined \<noteq> None" by simp
  moreover have "confirmationBlocks demo_watcher \<le> Number (demo_head 105) - BlockNumber demo_receipt"
    by (simp add: demo_head_def demo_receipt_def)
  ultimately show ?thesis
    unfolding again_before_def active_run(1) [OF plain_demo demo_mined_simps(3)] again_after_def
    using confirm_run [OF plain_demo, of demo_mined demo_watcher] race_submit_run [of 105 8 demo_mined 0]
    by (simp add: confirm_calls_def)
qed

lemma again_lag:
  "lag_run demo_le
     (again_before @ Notify (Confirmed (confirmed_msg demo_eth demo_receipt demo_mined)) # again_after)
     [[demo_mined]] [[], [], [demo_mined]]"
proof -
  have before: "lag_run demo_le again_before [[demo_mined]] [[demo_mined]]"
    by (auto simp: again_before_def active_calls_def lag_run_Cons_iff answers_def Let_def query_simps
        active_def One_nat_def)
  have after: "lag_run demo_le again_after [[demo_mined]] [[], [], [demo_mined]]"
    using run_DELETE_one [of demo_mined]
    by (auto simp: again_after_def race_ask_def next_calls_def race_rest_def race_send_def race_update_def Let_def
        lag_run_Cons_iff answers_def query_simps update_of_def run_UPDATE_def change_where_def
        unique_ids_def unique_hashes_def row_le_def One_nat_def)
  show ?thesis by (rule lag_run_append [OF before lag_Cons [OF _ after]]) simp
qed

text \<open> C13
  When the reader of the database lags behind its writer, a confirmed request can be sent once more:
  there is a tick that announces a request as confirmed, removes its row through the writer, is given
  the removed row when it asks the reader for the next request, and sends a transaction with the
  same call again; its update then finds no row.
\<close>

theorem Lagging_reader_sends_confirmed_again:
  "\<exists>es c fs H st.
     run_trace (Tick demo_env demo_eth demo_watcher) (es @ Notify (Confirmed c) # fs) = Some ok \<and>
     lag_run demo_le (es @ Notify (Confirmed c) # fs) [[demo_mined]] H \<and> hd H = [] \<and>
     table_inv [demo_mined] \<and> ConfirmedMsg_ID c = ID demo_mined \<and> SendTransaction st None \<in> set fs \<and>
     LegacyTx_To (inner st) = BytesToAddress demo_eth (To demo_mined) \<and>
     LegacyTx_Data (inner st) = Data demo_mined"
proof -
  let ?c = "confirmed_msg demo_eth demo_receipt demo_mined"
  have "ConfirmedMsg_ID ?c = ID demo_mined" by (simp add: confirmed_msg_def)
  moreover have "SendTransaction (race_tx 8 demo_mined) None \<in> set again_after"
    by (simp add: again_after_def race_rest_announces)
  moreover have "LegacyTx_To (inner (race_tx 8 demo_mined)) = BytesToAddress demo_eth (To demo_mined)"
    "LegacyTx_Data (inner (race_tx 8 demo_mined)) = Data demo_mined"
    by (simp_all add: race_tx_def legacy_tx_def call_msg_def)
  moreover have "hd [[], [], [demo_mined]] = ([] :: table)" by simp
  ultimately show ?thesis using again_run again_lag demo_table_inv(3) by blast
qed

end
