(* ===== verification/Failures.thy ===== *)
theory Failures
  imports Races
begin

text \<open>
  What a failure in the middle of a tick can do: the two places in which the node and the table are
  changed one after the other. And what two processes can do that tick for the same wallet.
\<close>

declare One_nat_def [simp del]

section \<open>A submission that is not stored\<close>

definition lost_store :: "event list" where
  "lost_store = race_read demo_row @ race_send 7 demo_row @
     [Exec (race_update 100 7 demo_row) (Inl (ErrMsg ''bad connection''))]"

definition second_send :: "event list" where
  "second_send = Query (ask_active demo_watcher) (Inr []) # race_ask 101 8 demo_row @ race_rest 101 8 demo_row 1"

definition sent_twice :: MetaTransactionRequest where
  "sent_twice = stamp_update 10000 (submitted demo_eth (demo_head 101) 8 60 (race_tx 8 demo_row) demo_row)"

lemma lost_store_run:
  "run_trace (Tick demo_env demo_eth demo_watcher) lost_store =
    Some (fail (wrap ''models: unable to update meta_transaction_requests row'' (ErrMsg ''bad connection'')))"
proof -
  have ne: "submit_columns \<noteq> []" by (simp add: submit_columns_def)
  have id: "ID (submitted E h n p s r) = ID r" for E h n p s r by (simp add: submitted_def)
  show ?thesis
    unfolding lost_store_def race_read_def append_Cons Tick_no_active [OF plain_demo]
    unfolding submit_next_def send_request_def race_ask_def next_calls_def ask_next_def Let_def race_send_def
      race_update_def
    by (simp add: One_plain [OF plain_demo] sign_tx_def demo_with_signature race_tx_def
        Update_plain [OF plain_demo ne] update_of_def id)
qed

lemma second_send_run: "run_trace (Tick demo_env demo_eth demo_watcher) second_send = Some ok"
  unfolding second_send_def Tick_no_active [OF plain_demo] by (rule race_submit_run)

lemma lost_store_db: "db_run demo_le lost_store [demo_row] [demo_row]"
  by (auto simp: lost_store_def race_read_def race_ask_def race_send_def next_calls_def db_run_Cons_iff
      db_event_def answers_def Let_def query_simps active_def row_le_def One_nat_def)

lemma second_send_db: "db_run demo_le second_send [demo_row] [sent_twice]"
proof -
  have "store_cols (bound_values submit_columns sent_twice) demo_row = Some sent_twice"
    by (simp add: submit_columns_def bound_values_def sent_twice_def submitted_def stamp_update_def
        demo_head_def demo_row_def)
  moreover have "row_checks sent_twice"
    by (simp add: row_checks_def numeric_ok_def length_ok_def sent_twice_def submitted_def stamp_update_def
        demo_head_def)
  ultimately have "run_UPDATE (bound_values submit_columns sent_twice) [ID demo_row] [demo_row] =
      Some ((1, []), [sent_twice])"
    by (intro run_UPDATE_one) (simp_all add: changed_row_Some sent_twice_def submitted_def stamp_update_def)
  moreover have "race_update 101 8 demo_row = UPDATE (bound_values submit_columns sent_twice) [ID demo_row]"
    by (simp add: race_update_def update_of_def sent_twice_def submitted_def)
  ultimately show ?thesis
    by (auto simp: second_send_def race_ask_def race_rest_def race_send_def next_calls_def db_run_Cons_iff
        db_event_def answers_def Let_def query_simps active_def row_le_def One_nat_def)
qed

text \<open> C27
  A submission sends before it stores. So there is an execution in which the Update after the send
  fails without having been applied, the row is still queued, and the next tick sends the same call
  again with the next nonce: one request is sent, and accepted by the node, twice.
\<close>

theorem Failed_store_sends_again:
  "\<exists>es fs err st st' r'.
     run_trace (Tick demo_env demo_eth demo_watcher) es = Some (fail err) \<and>
     run_trace (Tick demo_env demo_eth demo_watcher) fs = Some ok \<and>
     db_run demo_le es [demo_row] [demo_row] \<and> db_run demo_le fs [demo_row] [r'] \<and>
     SendTransaction st None \<in> set es \<and> SendTransaction st' None \<in> set fs \<and>
     LegacyTx_To (inner st') = LegacyTx_To (inner st) \<and>
     LegacyTx_Data (inner st') = LegacyTx_Data (inner st) \<and>
     LegacyTx_Nonce (inner st) = 7 \<and> LegacyTx_Nonce (inner st') = 8"
proof -
  have "SendTransaction (race_tx 7 demo_row) None \<in> set lost_store"
    "SendTransaction (race_tx 8 demo_row) None \<in> set second_send"
    by (simp_all add: lost_store_def race_send_def second_send_def race_rest_announces Let_def)
  moreover have "LegacyTx_To (inner (race_tx 8 demo_row)) = LegacyTx_To (inner (race_tx 7 demo_row))"
    "LegacyTx_Data (inner (race_tx 8 demo_row)) = LegacyTx_Data (inner (race_tx 7 demo_row))"
    "LegacyTx_Nonce (inner (race_tx 7 demo_row)) = 7" "LegacyTx_Nonce (inner (race_tx 8 demo_row)) = 8"
    by (simp_all add: race_tx_def legacy_tx_def)
  ultimately show ?thesis
    using lost_store_run second_send_run lost_store_db second_send_db by blast
qed

section \<open>Two processes on one wallet\<close>

text \<open>
  Nothing but the habit of running one process keeps two watchers from the same wallet: when a
  process is replaced by the next one, both run for a while.
\<close>

lemma overlap_read_db: "db_run demo_le (race_read demo_row @ race_send 7 demo_row) [demo_row] [demo_row]"
  by (auto simp: race_read_def race_ask_def race_send_def next_calls_def db_run_Cons_iff
      db_event_def answers_def Let_def query_simps active_def row_le_def One_nat_def)

definition overlap_store :: "event list" where
  "overlap_store = [Exec (race_update 100 7 demo_row) (Inr (1, [])), Notify (race_message 7 demo_row)]"

lemma overlap_run:
  "run_trace (Tick demo_env demo_eth demo_watcher)
    ((race_read demo_row @ race_send 7 demo_row) @ overlap_store) = Some ok"
  using race_run [of demo_row 1] by (simp add: race_rest_def overlap_store_def)

lemma race_tx_demo: "race_tx 7 demo_row = demo_tx 60"
  by (simp add: race_tx_def demo_tx_def)

lemma overlap_store_db: "db_run demo_le overlap_store [sent_twice] [demo_sent]"
proof -
  have "store_cols (bound_values submit_columns demo_sent) sent_twice = Some demo_sent"
    by (simp add: submit_columns_def bound_values_def demo_sent_def sent_twice_def submitted_def
        stamp_update_def demo_head_def demo_row_def)
  then have "run_UPDATE (bound_values submit_columns demo_sent) [ID sent_twice] [sent_twice] =
      Some ((1, []), [demo_sent])"
    using demo_checks
    by (intro run_UPDATE_one) (simp_all add: changed_row_Some sent_twice_def submitted_def stamp_update_def)
  moreover have "race_update 100 7 demo_row = UPDATE (bound_values submit_columns demo_sent) [ID sent_twice]"
    by (simp add: race_update_def update_of_def demo_sent_def sent_twice_def submitted_def stamp_update_def
        race_tx_demo)
  ultimately show ?thesis
    by (auto simp: overlap_store_def db_run_Cons_iff db_event_def)
qed

text \<open> C12
  A wallet must have one watcher. Two processes that run side by side, as when one replaces the
  other, can both find no submitted row and take the same request: the first sends it, the second
  sends it again with the next nonce, both store and announce it, and the row ends up with the hash
  of one of the two transactions, both of which are carried out.
\<close>

theorem Overlapping_processes_send_twice:
  "\<exists>es fs gs st st'.
     run_trace (Tick demo_env demo_eth demo_watcher) (es @ fs) = Some ok \<and>
     run_trace (Tick demo_env demo_eth demo_watcher) gs = Some ok \<and>
     db_run demo_le es [demo_row] [demo_row] \<and> db_run demo_le gs [demo_row] [sent_twice] \<and>
     db_run demo_le fs [sent_twice] [demo_sent] \<and>
     SendTransaction st None \<in> set es \<and> SendTransaction st' None \<in> set gs \<and>
     LegacyTx_To (inner st') = LegacyTx_To (inner st) \<and>
     LegacyTx_Data (inner st') = LegacyTx_Data (inner st) \<and>
     LegacyTx_Nonce (inner st) = 7 \<and> LegacyTx_Nonce (inner st') = 8 \<and>
     Notify (Submitted \<lparr>SubmittedMsg_ID = demo_id, SubmittedMsg_Hash = TxHash demo_eth st\<rparr>) \<in> set fs \<and>
     Notify (Submitted \<lparr>SubmittedMsg_ID = demo_id, SubmittedMsg_Hash = TxHash demo_eth st'\<rparr>) \<in> set gs"
proof -
  have "SendTransaction (race_tx 7 demo_row) None \<in> set (race_read demo_row @ race_send 7 demo_row)"
    "SendTransaction (race_tx 8 demo_row) None \<in> set second_send"
    by (simp_all add: race_send_def second_send_def race_rest_announces Let_def)
  moreover have "Notify (race_message 7 demo_row) \<in> set overlap_store"
    "Notify (race_message 8 demo_row) \<in> set second_send"
    by (simp_all add: overlap_store_def second_send_def race_rest_announces)
  moreover have "LegacyTx_To (inner (race_tx 8 demo_row)) = LegacyTx_To (inner (race_tx 7 demo_row))"
    "LegacyTx_Data (inner (race_tx 8 demo_row)) = LegacyTx_Data (inner (race_tx 7 demo_row))"
    "LegacyTx_Nonce (inner (race_tx 7 demo_row)) = 7" "LegacyTx_Nonce (inner (race_tx 8 demo_row)) = 8"
    by (simp_all add: race_tx_def legacy_tx_def)
  ultimately show ?thesis
    using overlap_run second_send_run overlap_read_db second_send_db overlap_store_db
    unfolding race_message_def demo_row_simps(1) by blast
qed

section \<open>A boost that is not sent\<close>

definition demo_boosted :: MetaTransactionRequest where
  "demo_boosted = stamp_update 30000 (boosted demo_eth 110 7 80 (demo_tx 80) demo_sent)"

lemma demo_boosted_simps [simp]:
  "SubmittedBlockNumber demo_boosted = Some 100" "WalletIndex demo_boosted = 0" "ID demo_boosted = demo_id"
  "Hash demo_boosted = Some (HashBytes demo_eth (TxHash demo_eth (demo_tx 80)))"
  "BoostedBlockNumber demo_boosted = Some 110" "MinedBlockNumber demo_boosted = None"
  by (simp_all add: demo_boosted_def boosted_def stamp_update_def)

definition underpriced :: goerror where
  "underpriced = ErrMsg ''replacement transaction underpriced''"

definition lost_boost :: "event list" where
  "lost_boost = active_calls demo_eth demo_watcher demo_sent (demo_head 110) (Inl ErrNotFound) @
     boost_calls demo_eth demo_watcher demo_sent 110 40 21000 [1] (demo_tx 80) 30000 (Some underpriced)"

definition wrong_receipt :: "event list" where
  "wrong_receipt = active_calls demo_eth demo_watcher demo_boosted (demo_head 111) (Inl ErrNotFound)"

lemma lost_boost_run: "run_trace (Tick demo_env demo_eth demo_watcher) lost_boost = Some (fail underpriced)"
proof -
  have call: "call_msg demo_eth demo_watcher demo_sent p = call_msg demo_eth demo_watcher demo_row p" for p
    by (simp add: call_msg_def)
  have "run_trace (boost demo_env demo_eth demo_watcher 110 demo_sent)
      (boost_calls demo_eth demo_watcher demo_sent 110 40 21000 [1] (demo_tx 80) 30000 (Some underpriced)) =
    Some (fail underpriced)"
    by (rule boost_run [OF plain_demo demo_sent_simps(5,4)])
      (simp add: demo_with_signature demo_tx_def boost_price_def call demo_decimal)
  then show ?thesis
    unfolding lost_boost_def active_run(2) [OF plain_demo demo_sent_simps(3)]
    by (simp add: demo_head_def not_included_def maybe_boost_def last_send_def)
qed

lemma wrong_receipt_run: "run_trace (Tick demo_env demo_eth demo_watcher) wrong_receipt = Some ok"
  using active_run(2) [OF plain_demo demo_boosted_simps(1), of demo_eth demo_watcher "demo_head 111" "[]"]
  by (simp add: wrong_receipt_def not_included_def maybe_boost_def last_send_def demo_head_def)

lemma lost_boost_db: "db_run demo_le lost_boost [demo_sent] [demo_boosted]"
proof -
  have "store_cols (bound_values boost_columns demo_boosted) demo_sent = Some demo_boosted"
    by (simp add: boost_columns_def bound_values_def demo_boosted_def boosted_def stamp_update_def)
  moreover have "row_checks demo_boosted"
    by (simp add: row_checks_def numeric_ok_def length_ok_def demo_boosted_def boosted_def stamp_update_def)
  ultimately have "run_UPDATE (bound_values boost_columns demo_boosted) [ID demo_sent] [demo_sent] =
      Some ((1, []), [demo_boosted])"
    by (intro run_UPDATE_one) (simp_all add: changed_row_Some)
  moreover have "update_of boost_columns 30000 (boosted demo_eth 110 7 80 (demo_tx 80) demo_sent) =
      UPDATE (bound_values boost_columns demo_boosted) [ID demo_sent]"
    by (simp add: update_of_def demo_boosted_def boosted_def)
  ultimately show ?thesis
    unfolding lost_boost_def active_calls_def boost_calls_def Let_def
    by (auto simp: db_run_Cons_iff db_event_def answers_def Let_def query_simps active_def One_nat_def
        boost_price_def demo_decimal)
qed

lemma wrong_receipt_db: "db_run demo_le wrong_receipt [demo_boosted] [demo_boosted]"
  unfolding wrong_receipt_def active_calls_def
  by (auto simp: db_run_Cons_iff db_event_def answers_def Let_def query_simps active_def One_nat_def)

definition is_receipt :: "event \<Rightarrow> bool" where
  "is_receipt ev \<longleftrightarrow> (case ev of TransactionReceipt h rc \<Rightarrow> True | _ \<Rightarrow> False)"

text \<open> C28
  A boost stores before it sends. So there is an execution in which the node refuses the replacement
  after its hash has been stored, and the next tick asks for the receipt of the refused transaction
  and for no other: the first transaction, whose hash was in the row before and which is still under
  way, is forgotten.
\<close>

theorem Boost_forgets_first_hash:
  "\<exists>es fs err.
     run_trace (Tick demo_env demo_eth demo_watcher) es = Some (fail err) \<and>
     run_trace (Tick demo_env demo_eth demo_watcher) fs = Some ok \<and>
     db_run demo_le es [demo_sent] [demo_boosted] \<and> db_run demo_le fs [demo_boosted] [demo_boosted] \<and>
     SendTransaction (demo_tx 80) (Some err) \<in> set es \<and>
     filter is_receipt fs = [TransactionReceipt (TxHash demo_eth (demo_tx 80)) (Inl ErrNotFound)] \<and>
     Hash demo_sent = Some (HashBytes demo_eth (TxHash demo_eth (demo_tx 60))) \<and>
     TxHash demo_eth (demo_tx 80) \<noteq> TxHash demo_eth (demo_tx 60)"
proof -
  have "SendTransaction (demo_tx 80) (Some underpriced) \<in> set lost_boost"
    "filter is_receipt wrong_receipt =
      [TransactionReceipt (TxHash demo_eth (demo_tx 80)) (Inl ErrNotFound)]"
    by (simp_all add: lost_boost_def wrong_receipt_def boost_calls_def active_calls_def Let_def
        null_bytes_def is_receipt_def)
  moreover have "TxHash demo_eth (demo_tx 80) \<noteq> TxHash demo_eth (demo_tx 60)"
    by (simp add: demo_eth_def demo_tx_def legacy_tx_def)
  ultimately show ?thesis
    using lost_boost_run wrong_receipt_run lost_boost_db wrong_receipt_db demo_sent_simps(7) by blast
qed

end
