(* ===== verification/Rows.thy ===== *)
theory Rows
  imports Intake
begin

text \<open>
  Writing rows through internal/models and reading them back: a row is what its columns are, what
  \<open>Insert\<close> sends is what the server stores, and \<open>FindMetaTransactionRequest\<close> scans it back.
\<close>

declare One_nat_def [simp del]

section \<open>A row is its columns\<close>

lemma row_eqI:
  assumes f: "\<And>c. field_value c r = field_value c r'"
  shows "r = r'"
  using f [of Col_id] f [of Col_nonce] f [of Col_gas_price] f [of Col_to] f [of Col_data] f [of Col_hash]
    f [of Col_submitted_block_number] f [of Col_submitted_block_hash] f [of Col_mined_block_number]
    f [of Col_mined_block_hash] f [of Col_created_at] f [of Col_updated_at]
    f [of Col_boosted_block_number] f [of Col_boosted_block_hash] f [of Col_wallet_index]
  by (cases r; cases r') simp

lemma all_columns: "c \<in> set metaTransactionRequestAllColumns"
  by (cases c) (simp_all add: metaTransactionRequestAllColumns_def)

lemma copy_col_field:
  "field_value d (copy_col src c dst) = field_value d (if d = c then src else dst)"
  by (cases c; cases d) simp_all

lemma scan_into_field:
  "field_value d (scan_into cs src dst) = field_value d (if d \<in> set cs then src else dst)"
  unfolding scan_into_def
  by (induction cs arbitrary: dst) (auto simp: copy_col_field)

lemma scan_all: "scan_into metaTransactionRequestAllColumns src dst = src"
  by (rule row_eqI) (simp add: scan_into_field all_columns)

lemma scan_own: "scan_into cs src src = src"
  by (rule row_eqI) (simp add: scan_into_field)

section \<open>What an insert stores\<close>

text \<open>The row a struct becomes: its times lose what is below a microsecond.\<close>

definition kept :: "MetaTransactionRequest \<Rightarrow> MetaTransactionRequest" where
  "kept r = r\<lparr>CreatedAt := to_micros (CreatedAt r), UpdatedAt := to_micros (UpdatedAt r)\<rparr>"

lemma kept_field: "field_value c (kept r) = as_stored (field_value c r)"
  by (cases c) (simp_all add: kept_def)

lemma kept_ID [simp]: "ID (kept r) = ID r"
  by (simp add: kept_def)

lemma column_split: "c \<in> set metaTransactionRequestColumnsWithDefault \<or> c \<in> set metaTransactionRequestColumnsWithoutDefault"
  by (cases c) (simp_all add: metaTransactionRequestColumnsWithDefault_def metaTransactionRequestColumnsWithoutDefault_def)

text \<open>The columns inference leaves out are those whose field is zero, so the defaults fill them in.\<close>

lemma inserted_row_whole:
  assumes row: "inserted_row now (bound_values cs obj) = Some r" and d: "distinct cs"
    and cs: "\<And>c. c \<notin> set cs \<Longrightarrow> field_value c obj = field_value c zero_request"
    and times: "Col_created_at \<in> set cs" "Col_updated_at \<in> set cs"
    and len: "length (ID obj) = 27"
  shows "r = kept obj"
proof (rule row_eqI)
  fix c
  let ?r0 = "zero_request\<lparr>CreatedAt := to_micros now, UpdatedAt := to_micros now\<rparr>"
  from row have ch: "changed_row (bound_values cs obj) ?r0 = Some r" and id: "Col_id \<in> set cs"
    by (auto simp: inserted_row_def metaTransactionRequestColumnsWithoutDefault_def split: if_splits)
  show "field_value c r = field_value c (kept obj)"
  proof (cases "c = Col_id")
    case True
    have "map_of (bound_values cs obj) Col_id = Some (VText (ID obj))" using id by simp
    with ch len d True store_cols_id [of "bound_values cs obj" ?r0 r] show ?thesis
      by (simp add: changed_row_Some)
  next
    case False
    have "field_value c ?r0 = field_value c zero_request" if "c \<notin> set cs"
      using that times by (cases c) auto
    moreover have "as_stored (field_value c zero_request) = field_value c zero_request"
      by (cases c) (simp_all add: zero_request_def to_micros_def)
    ultimately show ?thesis
      using changed_row_field [OF ch _ False] d cs [of c] by (auto simp: kept_field)
  qed
qed


section \<open>Insert, then Find\<close>

lemma stamp_insert_times: "t \<noteq> 0 \<Longrightarrow> CreatedAt (stamp_insert t obj) \<noteq> 0 \<and> UpdatedAt (stamp_insert t obj) \<noteq> 0"
  by (simp add: stamp_insert_def Let_def)

lemma stamp_insert_ID [simp]: "ID (stamp_insert t obj) = ID obj"
  by (simp add: stamp_insert_def Let_def)

text \<open>The columns inference inserts, for an object whose two times are set.\<close>

lemma infer_columns:
  assumes "boil_laws L" and "CreatedAt obj \<noteq> 0" and "UpdatedAt obj \<noteq> 0"
    and "ins = InsertColumnSet L (Infer L) metaTransactionRequestAllColumns
      metaTransactionRequestColumnsWithDefault metaTransactionRequestColumnsWithoutDefault
      (NonZeroDefaultSet L metaTransactionRequestColumnsWithDefault obj)"
  shows "distinct (fst ins) \<and> Col_created_at \<in> set (fst ins) \<and> Col_updated_at \<in> set (fst ins) \<and>
    Col_created_at \<notin> set (snd ins) \<and> Col_updated_at \<notin> set (snd ins) \<and>
    (\<forall>c. c \<notin> set (fst ins) \<longrightarrow> field_value c obj = field_value c zero_request)"
proof -
  have d: "distinct metaTransactionRequestAllColumns" by (simp add: metaTransactionRequestAllColumns_def)
  have s: "set (fst ins) = set metaTransactionRequestColumnsWithoutDefault \<union>
      set (filter (nonzero_field obj) metaTransactionRequestColumnsWithDefault)"
    using assms(1) unfolding assms(4) boil_laws_def by simp
  have t: "set (snd ins) = set metaTransactionRequestColumnsWithDefault -
      set (filter (nonzero_field obj) metaTransactionRequestColumnsWithDefault)"
    using assms(1) unfolding assms(4) boil_laws_def by simp
  have nz: "nonzero_field obj Col_created_at" "nonzero_field obj Col_updated_at"
    using assms(2,3) by (simp_all add: nonzero_field_def zero_request_def)
  then have "Col_created_at \<notin> set (snd ins)" "Col_updated_at \<notin> set (snd ins)"
    unfolding t by simp_all
  moreover from nz have "Col_created_at \<in> set (fst ins)" "Col_updated_at \<in> set (fst ins)"
    unfolding s by (simp_all add: metaTransactionRequestColumnsWithDefault_def)
  moreover have "field_value c obj = field_value c zero_request" if "c \<notin> set (fst ins)" for c
    using that column_split [of c] unfolding s by (auto simp: nonzero_field_def)
  moreover have "distinct (fst ins)" using assms(1) d unfolding assms(4) boil_laws_def by blast
  ultimately show ?thesis by blast
qed

definition insert_done ::
  "goerror option \<Rightarrow> MetaTransactionRequest \<Rightarrow> (goerror option \<times> MetaTransactionRequest) prog" where
  "insert_done err obj =
     (case err of
        Some e \<Rightarrow> Ret (Some (wrap ''models: unable to insert into meta_transaction_requests'' e), obj)
      | None \<Rightarrow> Ret (None, obj))"

lemma Insert_plain:
  assumes "plain B"
  shows "Insert B obj columns (\<lambda>err r. Ret (err, r)) = CallNow (\<lambda>t. send_insert
     (insert_entry B columns (NonZeroDefaultSet (lib B) metaTransactionRequestColumnsWithDefault
        (stamp_insert t obj))) (stamp_insert t obj) insert_done)"
proof -
  have "(\<lambda>err obj. case err of
        Some e \<Rightarrow> Ret (Some (wrap ''models: unable to insert into meta_transaction_requests'' e), obj)
      | None \<Rightarrow> (case doHooks B AfterInsert obj of Inl e \<Rightarrow> Ret (Some e, obj) | Inr obj \<Rightarrow> Ret (None, obj))) =
      insert_done"
    by (auto simp: fun_eq_iff insert_done_def doHooks_plain [OF assms] split: option.split)
  then show ?thesis
    by (simp add: Insert_def with_time_plain [OF assms] doHooks_plain [OF assms])
qed

lemma send_insert_complete:
  "run_trace (send_insert c obj k) es = Some (Ret y) \<longleftrightarrow>
     (\<exists>a es'. es = Exec (entry_stmt c obj) a # es' \<and>
        run_trace (case a of
          Inl err \<Rightarrow> k (Some err) obj
        | Inr (n, rows) \<Rightarrow>
            if ic_retMapping c \<noteq> [] then
              (case rows of [] \<Rightarrow> k (Some ErrNoRows) obj
               | r # rs \<Rightarrow> k None (scan_into (ic_retMapping c) r obj))
            else k None obj) es' = Some (Ret y))"
  by (simp add: send_insert_def complete_iffs)

lemma Insert_stores:
  assumes B: "plain B" and T: "table_ok T" and len: "length (ID obj) = 27"
    and run: "run_trace (Insert B obj (Infer (lib B)) (\<lambda>err r. Ret (err, r))) es = Some (Ret (None, r))"
    and db: "db_run le es T T'" and clock: "\<forall>t. Now t \<in> set es \<longrightarrow> t \<noteq> 0"
  shows "\<exists>t. Now t \<in> set es \<and> r = stamp_insert t obj \<and> T' = T @ [kept r] \<and> table_ok T'"
proof -
  from run obtain t es1 where es: "es = Now t # es1"
    by (auto simp: Insert_plain [OF B] complete_iffs)
  let ?o = "stamp_insert t obj"
  let ?ins = "InsertColumnSet (lib B) (Infer (lib B)) metaTransactionRequestAllColumns
      metaTransactionRequestColumnsWithDefault metaTransactionRequestColumnsWithoutDefault
      (NonZeroDefaultSet (lib B) metaTransactionRequestColumnsWithDefault ?o)"
  have t: "t \<noteq> 0" using clock es by simp
  from B have laws: "boil_laws (lib B)" by (simp add: plain_def)
  from stamp_insert_times [OF t] have times: "CreatedAt ?o \<noteq> 0" "UpdatedAt ?o \<noteq> 0" by blast+
  note cols = infer_columns [OF laws times refl]
  let ?c = "insert_entry B (Infer (lib B)) (NonZeroDefaultSet (lib B)
      metaTransactionRequestColumnsWithDefault ?o)"
  have entry: "?c = \<lparr>ic_columns = fst ?ins, ic_action = NoAction, ic_retMapping = snd ?ins\<rparr>"
    by (simp add: insert_entry_def Let_def case_prod_unfold)
  from run obtain a es2 where ex: "es1 = Exec (entry_stmt ?c ?o) a # es2"
    and fin: "run_trace (case a of
       Inl err \<Rightarrow> insert_done (Some err) ?o
     | Inr (n, rows) \<Rightarrow>
         if ic_retMapping ?c \<noteq> [] then
           (case rows of [] \<Rightarrow> insert_done (Some ErrNoRows) ?o
            | r # rs \<Rightarrow> insert_done None (scan_into (ic_retMapping ?c) r ?o))
         else insert_done None ?o) es2 = Some (Ret (None, r))"
    by (auto simp: es Insert_plain [OF B] complete_iffs send_insert_complete)
  from fin obtain n rows where es1: "a = Inr (n, rows)" "es2 = []"
    and r: "r = (if ic_retMapping ?c \<noteq> [] then scan_into (ic_retMapping ?c) (hd rows) ?o else ?o)"
    by (cases a) (auto simp: insert_done_def split: if_splits list.splits)
  from db es ex es1 obtain now where "run_INSERT now (bound_values (fst ?ins) ?o) NoAction T = Some ((n, rows), T')"
    by (auto simp: db_run_Cons_iff db_event_def entry_stmt_def entry)
  then obtain r1 where r1: "inserted_row now (bound_values (fst ?ins) ?o) = Some r1" "rows = [r1]" "T' = T @ [r1]"
    and fresh: "\<not> id_clash r1 T" "\<not> hash_clash r1 T"
    by (auto simp: run_INSERT_def append_row_def split: option.splits if_splits)
  have "table_ok T'"
    using T fresh inserted_row_length [OF r1(1)] inserted_row_checks [OF r1(1)] cols
    by (auto simp: table_ok_def r1(3) unique_ids_snoc unique_hashes_snoc)
  have r1o: "r1 = kept ?o" by (rule inserted_row_whole [OF r1(1)]) (use cols len in auto)
  have "scan_into (snd ?ins) (kept ?o) ?o = ?o"
  proof (rule row_eqI)
    fix c
    show "field_value c (scan_into (snd ?ins) (kept ?o) ?o) = field_value c ?o"
      using cols by (cases c) (auto simp: scan_into_field kept_def)
  qed
  with r r1(2) have "r = ?o" by (auto simp: entry r1o)
  with r1o \<open>table_ok T'\<close> r1(3) es show ?thesis by auto
qed

lemma Find_reads:
  assumes B: "plain B" and T: "table_ok T" and r: "r \<in> set T"
    and run: "run_trace (FindMetaTransactionRequest B (ID r) [] Ret) fs = Some (Ret res)"
    and db: "db_run le fs T T'"
  shows "T' = T \<and> (res = Inr r \<or> (\<exists>err. res = Inl err \<and> err \<noteq> ErrNoRows))"
proof -
  let ?q = "[Where Col_id EQ (VText (ID r))]"
  from run obtain a where fs: "fs = [Query ?q a]"
    and res: "res = (case a of
         Inl err \<Rightarrow> if errors_Is err ErrNoRows then Inl ErrNoRows
           else Inl (wrap ''models: unable to select from meta_transaction_requests'' err)
       | Inr [] \<Rightarrow> Inl ErrNoRows
       | Inr (r # rs) \<Rightarrow> Inr (scan_into metaTransactionRequestAllColumns r zero_request))"
    by (cases fs) (auto simp: FindMetaTransactionRequest_def doHooks_plain [OF B]
        split: event.splits if_splits sum.splits list.splits)
  show ?thesis
  proof (cases a)
    case (Inl err)
    with db fs res show ?thesis by (auto simp: db_run_Cons_iff)
  next
    case (Inr rows)
    with db fs have ans: "answers le ?q T rows" and "T' = T" by (auto simp: db_run_Cons_iff)
    have m: "matches le ?q x \<longleftrightarrow> ID x = ID r" for x by (auto simp: matches_def)
    have "rows \<noteq> []" using answers_Nil [of le ?q T r] ans r m by auto
    then obtain x xs where rows: "rows = x # xs" by (cases rows) auto
    with answers_mem [OF ans, of x] m have "x \<in> set T" "ID x = ID r" by auto
    with T r have "x = r" by (metis rows_by_id_mem table_ok_unique option.inject)
    moreover have "length (ID r) = 27" using T r by (simp add: table_ok_def)
    ultimately show ?thesis using res Inr rows \<open>T' = T\<close> by (simp add: scan_all)
  qed
qed

end
