(* ===== verification/Component_Properties.thy ===== *)
theory Component_Properties
  imports Intake_Properties Rows
begin

text \<open>
  The properties of the parts around the watcher: the caches of the generated models, the status
  messages, the signature of the KMS sender, the RPC method.
\<close>

declare One_nat_def [simp del]

section \<open>internal/models\<close>

text \<open> C32
  The caches of generated statements are transparent: with a cache whose entries belong to their
  keys, \<open>Update\<close>, \<open>Insert\<close> and \<open>Upsert\<close> make the calls and have the results of the versions that
  generate their statement every time, and the cache they leave is again one whose entries belong
  to their keys. For \<open>Upsert\<close> this is so as long as the cache has only been filled by calls with the
  same options: they are no part of the key (see the next property). The keys are unambiguous, although they are concatenated without separators between
  the column names: equal keys come from equal arguments.
\<close>

theorem Caches_transparent:
  assumes "update_cache_ok B cache" and "insert_cache_ok B icache" and "upsert_cache_ok B opts ucache"
  shows "Update_cached B obj columns cache
      (\<lambda>res obj' cache'. if update_cache_ok B cache' then k res obj' else bad) =
      Update B obj columns k \<and>
    Insert_cached B obj columns icache
      (\<lambda>err obj' cache'. if insert_cache_ok B cache' then j err obj' else bad) =
      Insert B obj columns j \<and>
    Upsert_cached B obj u conflict upd ins opts ucache
      (\<lambda>err obj' cache'. if upsert_cache_ok B opts cache' then j err obj' else bad) =
      Upsert B obj u conflict upd ins opts j \<and>
    (makeCacheKey c nz = makeCacheKey d mz \<longleftrightarrow> c = d \<and> nz = mz) \<and>
    (upsertKey u cf uc ic nz = upsertKey u' cf' uc' ic' mz \<longleftrightarrow>
       u = u' \<and> cf = cf' \<and> uc = uc' \<and> ic = ic' \<and> nz = mz)"
  by (intro conjI Update_cached_eq Insert_cached_eq Upsert_cached_eq makeCacheKey_eq upsertKey_eq assms)

theorem Caches_transparent_witness:
  "Update_cached demo_env demo_row (Whitelist demo_lib mined_columns) Map.empty
      (\<lambda>res obj' cache'. if update_cache_ok demo_env cache' then ok else panic) =
    Update demo_env demo_row (Whitelist demo_lib mined_columns) (\<lambda>res obj'. ok)"
  by (rule Caches_transparent [OF update_cache_ok_empty insert_cache_ok_empty upsert_cache_ok_empty,
        THEN conjunct1])




text \<open> C34
  Inserting and finding are inverse, up to the precision of the times: \<open>Insert\<close> with inferred columns
  returns the object with its times stamped and adds exactly this object to the table, its two times
  rounded to the microseconds PostgreSQL keeps (at most 500 nanoseconds away) and every other field as
  it is; nothing else in the table changes; and \<open>FindMetaTransactionRequest\<close> on its id gives back
  exactly the row that was added, or reports an error of the connection, never that there is no such
  row.
\<close>

theorem Insert_then_Find:
  assumes "plain B" and "table_ok T" and "length (ID obj) = 27"
    and "run_trace (Insert B obj (Infer (lib B)) (\<lambda>err r. Ret (err, r))) es = Some (Ret (None, r))"
    and "db_run le es T T'" and "\<forall>t. Now t \<in> set es \<longrightarrow> t \<noteq> 0"
    and "run_trace (FindMetaTransactionRequest B (ID obj) [] Ret) fs = Some (Ret res)"
    and "db_run le fs T' T''"
  shows "(\<exists>t. Now t \<in> set es \<and> r = stamp_insert t obj) \<and>
    (\<exists>c u. T' = T @ [r\<lparr>CreatedAt := c, UpdatedAt := u\<rparr>] \<and>
       1000 dvd c \<and> 1000 dvd u \<and> \<bar>c - CreatedAt r\<bar> \<le> 500 \<and> \<bar>u - UpdatedAt r\<bar> \<le> 500 \<and>
       (res = Inr (r\<lparr>CreatedAt := c, UpdatedAt := u\<rparr>) \<or> (\<exists>err. res = Inl err \<and> err \<noteq> ErrNoRows))) \<and>
    T'' = T'"
proof -
  from Insert_stores [OF assms(1-6)] obtain t where
    t: "Now t \<in> set es" "r = stamp_insert t obj" "T' = T @ [kept r]" "table_ok T'" by blast
  have id: "ID (kept r) = ID obj" "kept r \<in> set T'" using t by simp_all
  from Find_reads [OF assms(1) t(4) id(2) _ assms(8)] assms(7) id(1)
  have find: "T'' = T' \<and> (res = Inr (kept r) \<or> (\<exists>err. res = Inl err \<and> err \<noteq> ErrNoRows))" by simp
  have near: "1000 dvd to_micros x" "\<bar>to_micros x - x\<bar> \<le> 500" for x
    using to_micros_near [of x] by auto
  show ?thesis
    using t(1-3) find near
    by (intro conjI exI [of _ "to_micros (CreatedAt r)"] exI [of _ "to_micros (UpdatedAt r)"] exI [of _ t])
      (simp_all add: kept_def)
qed

definition demo_find :: "event list" where
  "demo_find = [Query [Where Col_id EQ (VText demo_id)] (Inr [demo_row])]"

definition demo_insert :: "event list" where
  "demo_insert = [Now 5000, Exec (INSERT (bound_values
      [Col_id, Col_to, Col_data, Col_wallet_index, Col_created_at, Col_updated_at] demo_row) NoAction
      [Col_nonce, Col_gas_price, Col_hash, Col_submitted_block_number, Col_submitted_block_hash,
       Col_mined_block_number, Col_mined_block_hash, Col_boosted_block_number, Col_boosted_block_hash])
      (Inr (1, [demo_row]))]"

lemma demo_insert_run:
  "run_trace (Insert demo_env demo_row (Infer demo_lib) (\<lambda>err r. Ret (err, r))) demo_insert =
    Some (Ret (None, demo_row))"
proof -
  let ?nz = "[Col_created_at, Col_updated_at]"
  let ?c = "\<lparr>ic_columns = [Col_id, Col_to, Col_data, Col_wallet_index, Col_created_at, Col_updated_at],
     ic_action = NoAction, ic_retMapping = [Col_nonce, Col_gas_price, Col_hash, Col_submitted_block_number,
       Col_submitted_block_hash, Col_mined_block_number, Col_mined_block_hash, Col_boosted_block_number,
       Col_boosted_block_hash]\<rparr>"
  have st: "stamp_insert 5000 demo_row = demo_row" by (simp add: stamp_insert_def demo_row_def zero_request_def)
  have nz: "NonZeroDefaultSet demo_lib metaTransactionRequestColumnsWithDefault demo_row = ?nz"
    by (simp add: demo_lib_def metaTransactionRequestColumnsWithDefault_def nonzero_field_def demo_row_def
        zero_request_def)
  have c: "insert_entry demo_env (Infer demo_lib) ?nz = ?c"
    by code_simp
  have l: "lib demo_env = demo_lib" by (simp add: demo_env_def)
  have fin: "insert_done None demo_row = Ret (None, demo_row)" by (simp add: insert_done_def)
  show ?thesis
    unfolding Insert_plain [OF plain_demo] demo_insert_def
    by (simp add: st nz c l send_insert_def entry_stmt_def scan_own fin)
qed

lemma demo_insert_db: "db_run demo_le demo_insert [] [demo_row]"
proof -
  have "store_cols (bound_values [Col_id, Col_to, Col_data, Col_wallet_index, Col_created_at, Col_updated_at] demo_row)
      (zero_request\<lparr>CreatedAt := to_micros now, UpdatedAt := to_micros now\<rparr>) = Some demo_row" for now
    by (simp add: bound_values_def demo_row_def zero_request_def char27_id [OF length_demo_id])
  moreover have "row_checks demo_row" by (simp add: row_checks_def numeric_ok_def length_ok_def)
  ultimately have "inserted_row now (bound_values [Col_id, Col_to, Col_data, Col_wallet_index,
      Col_created_at, Col_updated_at] demo_row) = Some demo_row" for now
    by (simp add: inserted_row_def metaTransactionRequestColumnsWithoutDefault_def changed_row_Some)
  then show ?thesis
    by (auto simp: demo_insert_def db_run_Cons_iff db_event_def run_INSERT_def append_row_def id_clash_def
        hash_clash_def)
qed

theorem Insert_then_Find_witness:
  "run_trace (FindMetaTransactionRequest demo_env demo_id [] Ret) demo_find = Some (Ret (Inr demo_row)) \<and>
   (\<exists>t. Now t \<in> set demo_insert \<and> demo_row = stamp_insert t demo_row)"
proof -
  have find: "run_trace (FindMetaTransactionRequest demo_env (ID demo_row) [] Ret) demo_find =
      Some (Ret (Inr demo_row))"
    by (simp add: FindMetaTransactionRequest_def demo_find_def scan_all)
  have db: "db_run demo_le demo_find [demo_row] [demo_row]"
    by (auto simp: demo_find_def db_run_Cons_iff answers_def Let_def matches_def)
  have l: "lib demo_env = demo_lib" by (simp add: demo_env_def)
  have clock: "\<forall>t. Now t \<in> set demo_insert \<longrightarrow> t \<noteq> 0" by (simp add: demo_insert_def)
  have T: "table_ok []" "length (ID demo_row) = 27" by simp_all
  note found = Insert_then_Find [OF plain_demo T demo_insert_run [folded l] demo_insert_db clock find db]
  from find have "run_trace (FindMetaTransactionRequest demo_env demo_id [] Ret) demo_find =
      Some (Ret (Inr demo_row))" by simp
  with found show ?thesis by blast
qed

section \<open>internal/status\<close>

definition demo_json :: json_lib where
  "demo_json =
     \<lparr>hash_text = (\<lambda>h. nat_digits (unat h)), address_text = (\<lambda>a. nat_digits (unat a)),
      bytes_text = (\<lambda>b. map (\<lambda>x. char_of (unat x)) b)\<rparr>"

definition demo_reader :: json_reader where
  "demo_reader =
     \<lparr>read_hash = (\<lambda>s. Some (word_of_nat (digits_val s))),
      read_address = (\<lambda>s. Some (word_of_nat (digits_val s))),
      read_bytes = (\<lambda>s. Some (map (\<lambda>c. word_of_nat (of_char c)) s))\<rparr>"

lemma demo_reads_back: "reads_back demo_json demo_reader"
proof -
  have "map (\<lambda>c. word_of_nat (of_char c)) (map (\<lambda>x. char_of (unat x)) b) = b" for b :: bytes
  proof (induction b)
    case Nil
    then show ?case by simp
  next
    case (Cons x b)
    have "unat x < 256" using unsigned_less [of x] by simp
    with Cons show ?case by simp
  qed
  then show ?thesis
    by (simp add: reads_back_def demo_json_def demo_reader_def digits_val_nat_digits)
qed

text \<open> C35
  A status message becomes at most one message for the broker: whatever a call of the producer leaves
  on the topic, when the broker acknowledges it, refuses it, or the client repeats the sending, is
  copies of one message, an event about the request from whose document the whole status message can
  be read back: kind, request id, hash, outcome, logs in order, revert data.
\<close>

theorem Status_message_faithful:
  assumes "reads_back L R"
  shows "\<exists>n ce bs. stored (kafkaProducer L K topic msg b) =
      stored b @ replicate n \<lparr>pm_Topic = topic, pm_Value = bs\<rparr> \<and>
    (0 < n \<longrightarrow> marshal K ce = Inr bs) \<and> ce_Subject ce = request_id msg \<and>
    read_status R (ce_Data ce) = Some msg"
proof -
  obtain new now where *: "stored (kafkaProducer L K topic msg b) = stored b \<or>
     (\<exists>bs n. marshal K (with_data (ceData_json L) (event_of new now msg)) = Inr bs \<and>
        stored (kafkaProducer L K topic msg b) =
          stored b @ replicate n \<lparr>pm_Topic = topic, pm_Value = bs\<rparr>)"
    using kafkaProducer_stored [of L K topic msg b] by blast
  let ?ce = "with_data (ceData_json L) (event_of new now msg)"
  have ce: "read_status R (ce_Data ?ce) = Some msg"
    using read_status_event [OF assms] by (simp add: with_data_def)
  have subject: "ce_Subject ?ce = request_id msg"
    by (cases msg) (simp_all add: with_data_def event_defs)
  from * show ?thesis
  proof
    assume "stored (kafkaProducer L K topic msg b) = stored b"
    with ce subject show ?thesis by (intro exI [of _ 0] exI [of _ ?ce] exI) simp
  next
    assume "\<exists>bs n. marshal K ?ce = Inr bs \<and> stored (kafkaProducer L K topic msg b) =
      stored b @ replicate n \<lparr>pm_Topic = topic, pm_Value = bs\<rparr>"
    with ce subject show ?thesis by blast
  qed
qed

text \<open>A broker that stores the message twice and then times out.\<close>

definition demo_kafka :: "nat kafka_lib" where
  "demo_kafka = \<lparr>ksuid_New = (\<lambda>e. (''k'', e)), time_Now = (\<lambda>e. (1, e)), marshal = (\<lambda>ce. Inr [1]),
     SendMessage = (\<lambda>m e. (NotAcked 2 (ErrMsg ''timeout''), Suc e))\<rparr>"

theorem Status_message_faithful_witness:
  "\<exists>n ce bs. stored (kafkaProducer demo_json demo_kafka ''topic''
      (Failed \<lparr>FailedMsg_ID = ''x'', FailedMsg_Data = [8]\<rparr>) \<lparr>stored = [], surroundings = 0\<rparr>) =
      replicate n \<lparr>pm_Topic = ''topic'', pm_Value = bs\<rparr> \<and> n = 2 \<and>
    read_status demo_reader (ce_Data (ce :: json CloudEvent)) =
      Some (Failed \<lparr>FailedMsg_ID = ''x'', FailedMsg_Data = [8]\<rparr>)"
proof -
  let ?m = "Failed \<lparr>FailedMsg_ID = ''x'', FailedMsg_Data = [8]\<rparr>"
  let ?s = "stored (kafkaProducer demo_json demo_kafka ''topic'' ?m \<lparr>stored = [], surroundings = 0\<rparr>)"
  have len: "length ?s = 2" by (simp add: kafkaProducer_def demo_kafka_def Let_def)
  from Status_message_faithful [OF demo_reads_back, of demo_kafka "''topic''" ?m "\<lparr>stored = [], surroundings = 0\<rparr>"]
  obtain n bs and ce :: "json CloudEvent" where "?s = stored \<lparr>stored = [], surroundings = 0 :: nat\<rparr> @
      replicate n \<lparr>pm_Topic = ''topic'', pm_Value = bs\<rparr>"
    and r: "read_status demo_reader (ce_Data ce) = Some ?m" by blast
  then have s: "?s = replicate n \<lparr>pm_Topic = ''topic'', pm_Value = bs\<rparr>"
    "read_status demo_reader (ce_Data ce) = Some ?m" by simp_all
  from s(1) len have "n = 2" by (metis length_replicate)
  with s show ?thesis by blast
qed

section \<open>internal/sender\<close>

lemma kms_signature:
  assumes "kmsSender_Sign X s h = Returned (Inr sig)"
    and "\<forall>sg r sigS. KmsSign X (keyID s) h = Inr sg \<and> Asn1Signature X sg = Inr (r, sigS) \<longrightarrow>
      0 < r \<and> r < secp256k1N \<and> 0 < sigS \<and> sigS < secp256k1N"
  shows "length sig = 65 \<and> last sig \<in> {0, 1} \<and> Ecrecover X h sig = Inr (publicKey s) \<and>
    (\<exists>sg r sigS. KmsSign X (keyID s) h = Inr sg \<and> Asn1Signature X sg = Inr (r, sigS) \<and>
       int (of_big_endian (take 32 sig)) = r \<and>
       int (of_big_endian (take 32 (drop 32 sig))) \<in> {sigS, secp256k1N - sigS} \<and>
       2 * int (of_big_endian (take 32 (drop 32 sig))) \<le> secp256k1N)"
proof -
  from kms_sign_Inr [OF assms(1)] obtain sg r sigS rBytes sBytes v where
    k: "KmsSign X (keyID s) h = Inr sg" "Asn1Signature X sg = Inr (r, sigS)"
    and b: "FillBytes 32 r = Some rBytes" "FillBytes 32 (low_s sigS) = Some sBytes"
    and sig: "sig = rBytes @ sBytes @ [v]" "v \<in> {0, 1}" "Ecrecover X h sig = Inr (publicKey s)"
    by blast
  note rng = assms(2) [rule_format, OF conjI, OF k(1,2)]
  then have low: "0 < low_s sigS" "low_s sigS \<le> secp256k1HalfN" "low_s sigS \<in> {sigS, secp256k1N - sigS}"
    using low_s_bounds [of sigS] by auto
  note len = fill_length [OF b(1)] fill_length [OF b(2)]
  have "int (of_big_endian rBytes) = r" using fill_value [OF b(1)] rng by simp
  moreover have "int (of_big_endian sBytes) = low_s sigS" using fill_value [OF b(2)] low(1) by simp
  moreover have "2 * low_s sigS \<le> secp256k1N" using low(2) by (simp add: secp256k1HalfN_def)
  ultimately show ?thesis using k sig len low(3) by auto
qed

text \<open> C36
  When what KMS signs for this key and hash is a signature of the group (R and S between 1 and the
  order of the group), the sender does not panic on it: R and S, corrected or not, fit their 32 bytes. A signature it returns has 65 bytes: R as KMS gave it, S in the lower half of the group
  (either KMS's S or its negative), and the V for which the sender's public key is recovered.
\<close>

theorem KMS_signature_canonical:
  assumes "\<forall>sg r sigS. KmsSign X (keyID s) h = Inr sg \<and> Asn1Signature X sg = Inr (r, sigS) \<longrightarrow>
      0 < r \<and> r < secp256k1N \<and> 0 < sigS \<and> sigS < secp256k1N"
  shows "(\<exists>res. kmsSender_Sign X s h = Returned res) \<and>
    (\<forall>sig. kmsSender_Sign X s h = Returned (Inr sig) \<longrightarrow>
       length sig = 65 \<and> last sig \<in> {0, 1} \<and> Ecrecover X h sig = Inr (publicKey s) \<and>
       (\<exists>sg r sigS. KmsSign X (keyID s) h = Inr sg \<and> Asn1Signature X sg = Inr (r, sigS) \<and>
         int (of_big_endian (take 32 sig)) = r \<and>
         int (of_big_endian (take 32 (drop 32 sig))) \<in> {sigS, secp256k1N - sigS} \<and>
         2 * int (of_big_endian (take 32 (drop 32 sig))) \<le> secp256k1N))"
proof (intro conjI allI impI)
  show "\<exists>res. kmsSender_Sign X s h = Returned res"
    using kms_sign_no_panic [where X = X and s = s and h = h] assms by (cases "kmsSender_Sign X s h") auto
next
  fix sig
  assume "kmsSender_Sign X s h = Returned (Inr sig)"
  from kms_signature [OF this assms] show "length sig = 65" "last sig \<in> {0, 1}" "Ecrecover X h sig = Inr (publicKey s)"
    "\<exists>sg r sigS. KmsSign X (keyID s) h = Inr sg \<and> Asn1Signature X sg = Inr (r, sigS) \<and>
         int (of_big_endian (take 32 sig)) = r \<and>
         int (of_big_endian (take 32 (drop 32 sig))) \<in> {sigS, secp256k1N - sigS} \<and>
         2 * int (of_big_endian (take 32 (drop 32 sig))) \<le> secp256k1N" by blast+
qed

text \<open>
  A KMS whose S is in the upper half, and a curve on which V is 1. The parser accepts other pairs of
  integers too.
\<close>

definition demo_crypto :: "nat crypto_lib" where
  "demo_crypto =
     \<lparr>FromHex = (\<lambda>s. []), ToECDSA = (\<lambda>b. Inr b), PublicKey = (\<lambda>b. 0), PubkeyToAddress = (\<lambda>p. 7),
      MarshalPub = (\<lambda>p. [4]), UnmarshalPubkey = (\<lambda>b. Inr 0), crypto_Sign = (\<lambda>h b. Inr [1]),
      Ecrecover = (\<lambda>h sig. if last sig = 1 then Inr [4] else Inr [5]),
      Asn1Signature = (\<lambda>b. if b = [2] then Inr (9, secp256k1N - 6) else Inr (0, -1)), Asn1PublicKey = (\<lambda>b. Inr b),
      KmsGetPublicKey = (\<lambda>k. Inr [1]), KmsSign = (\<lambda>k h. Inr [2])\<rparr>"

definition demo_kms :: kmsSender where
  "demo_kms = \<lparr>keyID = ''key'', publicKey = [4], kms_address = 7\<rparr>"

lemma demo_crypto_range:
  "\<forall>sg r sigS. KmsSign demo_crypto (keyID demo_kms) 77 = Inr sg \<and>
     Asn1Signature demo_crypto sg = Inr (r, sigS) \<longrightarrow>
   0 < r \<and> r < secp256k1N \<and> 0 < sigS \<and> sigS < secp256k1N"
  by (auto simp: demo_crypto_def secp256k1N_def)

lemma demo_kms_sign:
  "kmsSender_Sign demo_crypto demo_kms 77 = Returned (Inr (big_endian 32 9 @ big_endian 32 6 @ [1]))"
proof -
  have "low_s (secp256k1N - 6) = 6" by (simp add: low_s_def secp256k1HalfN_def secp256k1N_def)
  then show ?thesis
    by (simp add: kmsSender_Sign_def demo_crypto_def demo_kms_def FillBytes_def)
qed

theorem KMS_signature_canonical_witness:
  "length (big_endian 32 9 @ big_endian 32 6 @ [1]) = 65 \<and>
   Ecrecover demo_crypto 77 (big_endian 32 9 @ big_endian 32 6 @ [1]) = Inr (publicKey demo_kms)"
  using KMS_signature_canonical [OF demo_crypto_range] demo_kms_sign by simp

section \<open>internal/rpc\<close>

text \<open> C37
  \<open>CleanStuckMetaTransactions\<close> answers with an id only when it has removed the row with that id, and
  that row was the oldest of the table; all other rows stay.
\<close>

theorem Clean_removes_oldest:
  assumes "plain B" and "table_inv T"
    and "run_trace (CleanStuckMetaTransactions B) es = Some (Ret (Returned (Inr x)))"
    and "db_run le es T T'"
  shows "(\<exists>r \<in> set T. ID r = x \<and> (\<forall>r' \<in> set T. CreatedAt r \<le> CreatedAt r')) \<and>
    rows_by_id T' = (rows_by_id T)(x := None) \<and> table_inv T'"
proof -
  let ?q = "MetaTransactionRequests oldest_request @ [Limit 1]"
  have q: "limit_of ?q = Some 1" "order_col ?q = Some Col_created_at"
    by (simp_all add: MetaTransactionRequests_eq where_helper_defs oldest_request_def)
  from assms(3) obtain r rs re where es: "es = [Query ?q (Inr (r # rs)), Exec (DELETE [ID r]) (Inr re)]"
    and x: "x = ID r"
    unfolding Clean_plain [OF assms(1)]
    by (cases es; cases "tl es")
      (auto split: event.splits if_splits sum.splits list.splits option.splits)
  from assms(4) es have ans: "answers le ?q T (r # rs)" and del: "run_DELETE [ID r] T = Some (re, T')"
    by (auto simp: db_run_Cons_iff)
  have r: "r \<in> set T" using answers_mem [OF ans] by simp
  have rs: "rs = []" using answers_one [OF ans q(1)] by (cases rs) auto
  have "CreatedAt r \<le> CreatedAt r'" if "r' \<in> set T" for r'
    using ans that rs
    by (auto simp: answers_def q Let_def row_le_def list_all_iff matches_def MetaTransactionRequests_eq where_helper_defs
        oldest_request_def)
  moreover have "length (ID r) = 27" using table_inv_rows_of [OF assms(2) r] by simp
  ultimately show ?thesis using delete_step [OF assms(2) _ del] r x by blast
qed

definition demo_clean :: "event list" where
  "demo_clean =
     [Query (MetaTransactionRequests oldest_request @ [Limit 1]) (Inr [demo_sent]),
      Exec (DELETE [demo_id]) (Inr (1, []))]"

theorem Clean_removes_oldest_witness:
  "CreatedAt demo_sent \<le> CreatedAt demo_other \<and>
   rows_by_id [demo_other] = (rows_by_id [demo_sent, demo_other])(demo_id := None) \<and> table_inv [demo_other]"
proof -
  have run: "run_trace (CleanStuckMetaTransactions demo_env) demo_clean = Some (Ret (Returned (Inr demo_id)))"
    unfolding Clean_plain [OF plain_demo] by (simp add: demo_clean_def)
  have db: "db_run demo_le demo_clean [demo_sent, demo_other] [demo_other]"
    by (auto simp: demo_clean_def db_run_Cons_iff answers_def Let_def MetaTransactionRequests_eq where_helper_defs
        oldest_request_def matches_def row_le_def One_nat_def run_DELETE_def id_in_def)
  from Clean_removes_oldest [OF plain_demo demo_table_inv(5) run db] show ?thesis by simp
qed

end
