(* ===== verification/Migrations.thy ===== *)
theory Migrations
  imports Table
begin

text \<open>
  migrations/: the statements of each file, up and down, on a database with the schema of the
  service, its one table and the table in which goose keeps the applied versions. A statement that
  the server refuses is \<open>None\<close>. The columns carry the types and constraints the files give them, so
  that the table the models of internal/models are made for is a result, not an assumption.
\<close>

section \<open>Tables\<close>

datatype sql_type = SqlChar nat | SqlNumeric nat | SqlBytea | SqlTimestamptz | SqlInteger

record column =
  col_name :: string
  col_type :: sql_type
  not_null :: bool
  has_default :: bool
  is_unique :: bool
  primary_key :: bool
  check_length :: "nat option"

text \<open>A column as it is written without any constraint.\<close>

definition plain_column :: "string \<Rightarrow> sql_type \<Rightarrow> column" where
  "plain_column n t = \<lparr>col_name = n, col_type = t, not_null = False, has_default = False,
     is_unique = False, primary_key = False, check_length = None\<rparr>"

record relation =
  columns :: "column list"
  tuples :: "(string \<rightharpoonup> sql_value) list"

definition column_names :: "relation \<Rightarrow> string list" where
  "column_names R = map col_name (columns R)"

text \<open>The values of a type, as they are stored, and the constraints of one column.\<close>

fun has_type :: "sql_type \<Rightarrow> sql_value \<Rightarrow> bool" where
  "has_type (SqlChar n) (VText s) = (length s = n)"
| "has_type (SqlNumeric p) (VNum n) = (\<bar>n\<bar> < 10 ^ p)"
| "has_type SqlBytea (VBytes b) = True"
| "has_type SqlTimestamptz (VTime t) = True"
| "has_type SqlInteger (VInt i) = (- (2 ^ 31) \<le> i \<and> i < 2 ^ 31)"
| "has_type _ _ = False"

fun check_holds :: "nat option \<Rightarrow> sql_value \<Rightarrow> bool" where
  "check_holds (Some n) (VBytes b) = (length b = n)"
| "check_holds _ _ = True"

definition column_accepts :: "column \<Rightarrow> sql_value \<Rightarrow> bool" where
  "column_accepts c v =
     (if v = VNull then \<not> not_null c else has_type (col_type c) v \<and> check_holds (check_length c) v)"

definition tuple_accepted :: "column list \<Rightarrow> (string \<rightharpoonup> sql_value) \<Rightarrow> bool" where
  "tuple_accepted cs t \<longleftrightarrow>
     dom t = col_name ` set cs \<and>
     (\<forall>c \<in> set cs. \<exists>v. t (col_name c) = Some v \<and> column_accepts c v)"

text \<open>A UNIQUE column: values other than NULL do not repeat.\<close>

definition unique_in :: "(string \<rightharpoonup> sql_value) list \<Rightarrow> string \<Rightarrow> bool" where
  "unique_in ts n = distinct (filter (\<lambda>v. v \<notin> {None, Some VNull}) (map (\<lambda>t. t n) ts))"

definition relation_ok :: "relation \<Rightarrow> bool" where
  "relation_ok R \<longleftrightarrow> distinct (column_names R) \<and>
     (\<forall>t \<in> set (tuples R). tuple_accepted (columns R) t) \<and>
     (\<forall>c \<in> set (columns R). is_unique c \<longrightarrow> unique_in (tuples R) (col_name c))"

section \<open>Statements\<close>

definition alter_column :: "(column \<Rightarrow> column) \<Rightarrow> string \<Rightarrow> relation \<Rightarrow> relation option" where
  "alter_column f n R =
     (if n \<in> set (column_names R)
      then Some (R\<lparr>columns := map (\<lambda>c. if col_name c = n then f c else c) (columns R)\<rparr>)
      else None)"

text \<open>
  ADD COLUMN without a default: every row gets a NULL, which is refused when the column is NOT NULL
  and there are rows.
\<close>

definition add_column :: "column \<Rightarrow> relation \<Rightarrow> relation option" where
  "add_column c R =
     (if col_name c \<in> set (column_names R) \<or> (not_null c \<and> tuples R \<noteq> []) then None
      else Some \<lparr>columns = columns R @ [c], tuples = map (\<lambda>t. t(col_name c \<mapsto> VNull)) (tuples R)\<rparr>)"

definition drop_column :: "string \<Rightarrow> relation \<Rightarrow> relation option" where
  "drop_column n R =
     (if n \<in> set (column_names R)
      then Some \<lparr>columns = filter (\<lambda>c. col_name c \<noteq> n) (columns R),
             tuples = map (\<lambda>t. t(n := None)) (tuples R)\<rparr>
      else None)"

definition drop_not_null :: "string \<Rightarrow> relation \<Rightarrow> relation option" where
  "drop_not_null n R = alter_column (\<lambda>c. c\<lparr>not_null := False\<rparr>) n R"

definition set_not_null :: "string \<Rightarrow> relation \<Rightarrow> relation option" where
  "set_not_null n R =
     (if list_ex (\<lambda>t. t n = Some VNull) (tuples R) then None
      else alter_column (\<lambda>c. c\<lparr>not_null := True\<rparr>) n R)"

text \<open>UPDATE of a column in every row.\<close>

definition set_value :: "string \<Rightarrow> sql_value \<Rightarrow> relation \<Rightarrow> relation option" where
  "set_value n v R =
     (if list_ex (\<lambda>c. col_name c = n \<and> column_accepts c v) (columns R)
      then Some (R\<lparr>tuples := map (\<lambda>t. t(n \<mapsto> v)) (tuples R)\<rparr>)
      else None)"

datatype alteration =
    AddColumn column
  | DropColumn string
  | DropNotNull string
  | SetNotNull string

fun alter :: "alteration \<Rightarrow> relation \<Rightarrow> relation option" where
  "alter (AddColumn c) R = add_column c R"
| "alter (DropColumn n) R = drop_column n R"
| "alter (DropNotNull n) R = drop_not_null n R"
| "alter (SetNotNull n) R = set_not_null n R"

text \<open>Steps one after the other, up to the first that fails.\<close>

fun each :: "('a \<Rightarrow> 's \<Rightarrow> 's option) \<Rightarrow> 'a list \<Rightarrow> 's \<Rightarrow> 's option" where
  "each f [] s = Some s"
| "each f (x # xs) s = (case f x s of None \<Rightarrow> None | Some s' \<Rightarrow> each f xs s')"

lemma each_append: "each f (xs @ ys) s = (case each f xs s of None \<Rightarrow> None | Some s' \<Rightarrow> each f ys s')"
  by (induction xs arbitrary: s) (auto split: option.split)

datatype ddl =
    REVOKE_CREATE_public
  | CREATE_SCHEMA_IF_NOT_EXISTS
  | DROP_SCHEMA_CASCADE
  | GRANT_public
  | CREATE_TABLE "column list"
  | DROP_TABLE_IF_EXISTS
  | ALTER_TABLE "alteration list"
  | UPDATE_ALL string sql_value

text \<open>What the schema of the service holds: its table, and the one goose makes for its versions.\<close>

record schema =
  requests :: "relation option"
  migrations :: bool

record database =
  meta_transaction_processor :: "schema option"
  public_create :: bool
  public_usage :: bool

text \<open>A statement about the table of the service.\<close>

definition on_requests :: "(relation option \<Rightarrow> relation option option) \<Rightarrow> database \<Rightarrow> database option" where
  "on_requests f db =
     (case meta_transaction_processor db of
        None \<Rightarrow> None
      | Some s \<Rightarrow>
          (case f (requests s) of
             None \<Rightarrow> None
           | Some R \<Rightarrow> Some (db\<lparr>meta_transaction_processor := Some (s\<lparr>requests := R\<rparr>)\<rparr>)))"

fun run_ddl :: "ddl \<Rightarrow> database \<Rightarrow> database option" where
  "run_ddl REVOKE_CREATE_public db = Some (db\<lparr>public_create := False\<rparr>)"
| "run_ddl CREATE_SCHEMA_IF_NOT_EXISTS db =
     Some (case meta_transaction_processor db of
             None \<Rightarrow> db\<lparr>meta_transaction_processor := Some \<lparr>requests = None, migrations = False\<rparr>\<rparr>
           | Some s \<Rightarrow> db)"
| "run_ddl DROP_SCHEMA_CASCADE db =
     (case meta_transaction_processor db of
        None \<Rightarrow> None
      | Some s \<Rightarrow> Some (db\<lparr>meta_transaction_processor := None\<rparr>))"
| "run_ddl GRANT_public db = Some (db\<lparr>public_create := True, public_usage := True\<rparr>)"
| "run_ddl (CREATE_TABLE cs) db =
     on_requests (\<lambda>R. case R of None \<Rightarrow> Some (Some \<lparr>columns = cs, tuples = []\<rparr>) | Some R \<Rightarrow> None) db"
| "run_ddl DROP_TABLE_IF_EXISTS db = on_requests (\<lambda>R. Some None) db"
| "run_ddl (ALTER_TABLE as) db =
     on_requests (\<lambda>R. case R of None \<Rightarrow> None | Some R \<Rightarrow> map_option Some (each alter as R)) db"
| "run_ddl (UPDATE_ALL n v) db =
     on_requests (\<lambda>R. case R of None \<Rightarrow> None | Some R \<Rightarrow> map_option Some (set_value n v R)) db"

section \<open>The files\<close>

record migration =
  version :: nat
  up :: "ddl list"
  down :: "ddl list"

definition init_schema :: migration where
  "init_schema = \<lparr>version = 20221108132444,
     up = [REVOKE_CREATE_public, CREATE_SCHEMA_IF_NOT_EXISTS],
     down = [DROP_SCHEMA_CASCADE, GRANT_public]\<rparr>"

definition transaction_columns :: "column list" where
  "transaction_columns =
     [(plain_column ''id'' (SqlChar 27))\<lparr>not_null := True, is_unique := True, primary_key := True\<rparr>,
      (plain_column ''nonce'' (SqlNumeric 20))\<lparr>not_null := True\<rparr>,
      (plain_column ''gas_price'' (SqlNumeric 78))\<lparr>not_null := True\<rparr>,
      (plain_column ''to'' SqlBytea)\<lparr>not_null := True, check_length := Some 20\<rparr>,
      (plain_column ''data'' SqlBytea)\<lparr>not_null := True\<rparr>,
      (plain_column ''hash'' SqlBytea)\<lparr>not_null := True, is_unique := True, check_length := Some 32\<rparr>,
      (plain_column ''submitted_block_number'' (SqlNumeric 78))\<lparr>not_null := True\<rparr>,
      (plain_column ''submitted_block_hash'' SqlBytea)\<lparr>not_null := True, check_length := Some 32\<rparr>,
      plain_column ''mined_block_number'' (SqlNumeric 78),
      (plain_column ''mined_block_hash'' SqlBytea)\<lparr>check_length := Some 32\<rparr>,
      (plain_column ''created_at'' SqlTimestamptz)\<lparr>not_null := True, has_default := True\<rparr>,
      (plain_column ''updated_at'' SqlTimestamptz)\<lparr>not_null := True, has_default := True\<rparr>]"

definition create_transaction_table :: migration where
  "create_transaction_table = \<lparr>version = 20221108132539,
     up = [CREATE_TABLE transaction_columns], down = [DROP_TABLE_IF_EXISTS]\<rparr>"

definition add_boosted_block :: migration where
  "add_boosted_block = \<lparr>version = 20221108181655,
     up = [ALTER_TABLE
       [AddColumn (plain_column ''boosted_block_number'' (SqlNumeric 78)),
        AddColumn ((plain_column ''boosted_block_hash'' SqlBytea)\<lparr>check_length := Some 32\<rparr>)]],
     down = [ALTER_TABLE [DropColumn ''boosted_block_number'', DropColumn ''boosted_block_hash'']]\<rparr>"

definition store_transaction_first :: migration where
  "store_transaction_first = \<lparr>version = 20230219174430,
     up = [ALTER_TABLE
       [DropNotNull ''submitted_block_number'', DropNotNull ''submitted_block_hash'',
        DropNotNull ''nonce'', DropNotNull ''gas_price'', DropNotNull ''hash'']],
     down = [ALTER_TABLE
       [SetNotNull ''submitted_block_number'', SetNotNull ''submitted_block_hash'',
        SetNotNull ''nonce'', SetNotNull ''hash'', SetNotNull ''gas_price'']]\<rparr>"

definition add_wallet_number :: migration where
  "add_wallet_number = \<lparr>version = 20240412163649,
     up = [ALTER_TABLE [AddColumn (plain_column ''wallet_index'' SqlInteger)],
       UPDATE_ALL ''wallet_index'' (VInt 0),
       ALTER_TABLE [SetNotNull ''wallet_index'']],
     down = [ALTER_TABLE [DropColumn ''wallet_index'']]\<rparr>"

definition all_migrations :: "migration list" where
  "all_migrations =
     [init_schema, create_transaction_table, add_boosted_block, store_transaction_first, add_wallet_number]"

text \<open>
  All files in the order of their versions, on a database as the \<open>migrate\<close> sub-command leaves it
  for goose: with the schema, and goose's own table in it.
\<close>

definition migrate_up :: "migration list \<Rightarrow> database \<Rightarrow> database option" where
  "migrate_up ms = each run_ddl (concat (map up (sort_key version ms)))"

definition fresh_database :: database where
  "fresh_database = \<lparr>meta_transaction_processor = Some \<lparr>requests = None, migrations = True\<rparr>,
     public_create = True, public_usage = True\<rparr>"

text \<open>The columns of the table once the first \<open>k\<close> files have been applied.\<close>

definition table_of :: "database \<Rightarrow> relation option" where
  "table_of db = (case meta_transaction_processor db of None \<Rightarrow> None | Some s \<Rightarrow> requests s)"

definition columns_after :: "nat \<Rightarrow> column list option" where
  "columns_after k =
     (case migrate_up (take k all_migrations) fresh_database of
        None \<Rightarrow> None | Some db \<Rightarrow> map_option columns (table_of db))"

definition at_version :: "nat \<Rightarrow> database \<Rightarrow> bool" where
  "at_version k db \<longleftrightarrow>
     meta_transaction_processor db \<noteq> None \<and> map_option columns (table_of db) = columns_after k \<and>
     (case table_of db of None \<Rightarrow> True | Some R \<Rightarrow> relation_ok R)"

text \<open>The columns of each version.\<close>

definition boosted_columns :: "column list" where
  "boosted_columns =
     [plain_column ''boosted_block_number'' (SqlNumeric 78),
      (plain_column ''boosted_block_hash'' SqlBytea)\<lparr>check_length := Some 32\<rparr>]"

definition later_null :: "string list" where
  "later_null = [''submitted_block_number'', ''submitted_block_hash'', ''nonce'', ''gas_price'', ''hash'']"

definition relax :: "column list \<Rightarrow> column list" where
  "relax = map (\<lambda>c. if col_name c \<in> set later_null then c\<lparr>not_null := False\<rparr> else c)"

definition wallet_column :: column where
  "wallet_column = (plain_column ''wallet_index'' SqlInteger)\<lparr>not_null := True\<rparr>"

definition final_columns :: "column list" where
  "final_columns = relax (transaction_columns @ boosted_columns) @ [wallet_column]"

lemmas migration_defs =
  init_schema_def create_transaction_table_def add_boosted_block_def store_transaction_first_def
  add_wallet_number_def

lemmas column_defs =
  transaction_columns_def boosted_columns_def plain_column_def wallet_column_def

lemma sorted_migrations [simp]: "sort_key version (take k all_migrations) = take k all_migrations"
proof -
  have "sorted (map version all_migrations)" by (simp add: all_migrations_def migration_defs)
  then have "sorted (map version (take k all_migrations))"
    by (simp add: take_map [symmetric] sorted_wrt_take)
  then show ?thesis by (rule sort_key_id_if_sorted)
qed

section \<open>What the statements keep\<close>

lemma relation_ok_tuple:
  "relation_ok R \<Longrightarrow> t \<in> set (tuples R) \<Longrightarrow> c \<in> set (columns R) \<Longrightarrow>
   \<exists>v. t (col_name c) = Some v \<and> column_accepts c v"
  by (auto simp: relation_ok_def tuple_accepted_def)

lemma relation_ok_absent:
  "relation_ok R \<Longrightarrow> t \<in> set (tuples R) \<Longrightarrow> n \<notin> set (column_names R) \<Longrightarrow> t n = None"
  unfolding relation_ok_def tuple_accepted_def column_names_def set_map by (metis domIff)

lemma unique_in_cong: "(\<And>t. t \<in> set ts \<Longrightarrow> f t n = t n) \<Longrightarrow> unique_in (map f ts) n = unique_in ts n"
  by (simp add: unique_in_def comp_def cong: map_cong)

lemma unique_in_null: "unique_in (map (\<lambda>t. t(n \<mapsto> VNull)) ts) n"
  by (simp add: unique_in_def comp_def filter_empty_conv)

lemma add_column_ok:
  assumes "add_column c R = Some R'" and "relation_ok R"
  shows "relation_ok R'"
proof -
  from assms(1) have c: "col_name c \<notin> set (column_names R)" "not_null c \<longrightarrow> tuples R = []"
    and R': "R' = \<lparr>columns = columns R @ [c], tuples = map (\<lambda>t. t(col_name c \<mapsto> VNull)) (tuples R)\<rparr>"
    by (auto simp: add_column_def split: if_splits)
  have other: "col_name d \<noteq> col_name c" if "d \<in> set (columns R)" for d
  proof -
    from that have "col_name d \<in> set (column_names R)" by (simp add: column_names_def)
    with c(1) show ?thesis by metis
  qed
  have "tuple_accepted (columns R @ [c]) (t(col_name c \<mapsto> VNull))" if "t \<in> set (tuples R)" for t
    using assms(2) that c(2) other
    by (auto simp: relation_ok_def tuple_accepted_def column_accepts_def)
  moreover have "unique_in (tuples R') (col_name d)" if "d \<in> set (columns R')" "is_unique d" for d
  proof (cases "d = c")
    case True
    then show ?thesis by (simp add: R' unique_in_null)
  next
    case False
    with that have "d \<in> set (columns R)" by (simp add: R')
    with assms(2) that other show ?thesis by (simp add: R' relation_ok_def unique_in_cong)
  qed
  ultimately show ?thesis using assms(2) c(1) by (auto simp: R' relation_ok_def column_names_def)
qed

lemma drop_column_ok:
  assumes "drop_column n R = Some R'" and "relation_ok R"
  shows "relation_ok R'"
proof -
  from assms(1) have R': "R' = \<lparr>columns = filter (\<lambda>c. col_name c \<noteq> n) (columns R),
      tuples = map (\<lambda>t. t(n := None)) (tuples R)\<rparr>"
    by (auto simp: drop_column_def split: if_splits)
  have "tuple_accepted (filter (\<lambda>c. col_name c \<noteq> n) (columns R)) (t(n := None))"
    if "t \<in> set (tuples R)" for t
  proof -
    from assms(2) that have "tuple_accepted (columns R) t" by (simp add: relation_ok_def)
    then show ?thesis by (auto simp: tuple_accepted_def)
  qed
  moreover have "unique_in (map (\<lambda>t. t(n := None)) (tuples R)) m \<longleftrightarrow> unique_in (tuples R) m" if "m \<noteq> n" for m
    using that by (intro unique_in_cong) simp
  ultimately show ?thesis
    using assms(2) by (auto simp: R' relation_ok_def column_names_def distinct_map_filter)
qed

lemma alter_column_ok:
  assumes "alter_column f n R = Some R'" and "relation_ok R"
    and f: "\<And>c. col_name (f c) = col_name c \<and> is_unique (f c) = is_unique c"
    and acc: "\<And>t c v. t \<in> set (tuples R) \<Longrightarrow> c \<in> set (columns R) \<Longrightarrow> col_name c = n \<Longrightarrow> t n = Some v \<Longrightarrow>
      column_accepts c v \<Longrightarrow> column_accepts (f c) v"
  shows "relation_ok R'"
proof -
  define g where "g c = (if col_name c = n then f c else c)" for c
  from assms(1) have R': "R' = R\<lparr>columns := map g (columns R)\<rparr>"
    by (auto simp: alter_column_def g_def [abs_def] split: if_splits)
  have names: "col_name (g c) = col_name c" "is_unique (g c) = is_unique c" for c
    using f by (auto simp: g_def)
  have "tuple_accepted (map g (columns R)) t" if t: "t \<in> set (tuples R)" for t
  proof -
    from assms(2) t have "dom t = col_name ` set (columns R)"
      by (simp add: relation_ok_def tuple_accepted_def)
    moreover have "\<exists>v. t (col_name (g c)) = Some v \<and> column_accepts (g c) v" if "c \<in> set (columns R)" for c
      using relation_ok_tuple [OF assms(2) t that] acc [OF t that] names by (auto simp: g_def)
    ultimately show ?thesis by (simp add: tuple_accepted_def image_image names)
  qed
  moreover have "col_name \<circ> g = col_name" by (auto simp: names)
  ultimately show ?thesis
    using assms(2) by (simp add: R' relation_ok_def column_names_def names)
qed

lemma alter_ok: "alter a R = Some R' \<Longrightarrow> relation_ok R \<Longrightarrow> relation_ok R'"
proof (cases a)
  case (SetNotNull n)
  assume a: "alter a R = Some R'" "relation_ok R"
  with SetNotNull have null: "\<not> list_ex (\<lambda>t. t n = Some VNull) (tuples R)"
    and run: "alter_column (\<lambda>c. c\<lparr>not_null := True\<rparr>) n R = Some R'"
    by (auto simp: set_not_null_def split: if_splits)
  from null show ?thesis
    by (intro alter_column_ok [OF run a(2)]) (auto simp: list_ex_iff column_accepts_def split: if_splits)
next
  case (DropNotNull n)
  assume a: "alter a R = Some R'" "relation_ok R"
  with DropNotNull have run: "alter_column (\<lambda>c. c\<lparr>not_null := False\<rparr>) n R = Some R'"
    by (simp add: drop_not_null_def)
  show ?thesis
    by (rule alter_column_ok [OF run a(2)]) (auto simp: column_accepts_def split: if_splits)
qed (auto intro: add_column_ok drop_column_ok)

lemma alters_ok: "each alter as R = Some R' \<Longrightarrow> relation_ok R \<Longrightarrow> relation_ok R'"
  by (induction as arbitrary: R) (auto split: option.splits intro: alter_ok)

lemma set_value_ok:
  assumes "set_value n v R = Some R'" and "relation_ok R"
    and "\<And>c. c \<in> set (columns R) \<Longrightarrow> col_name c = n \<Longrightarrow> \<not> is_unique c"
  shows "relation_ok R'"
proof -
  from assms(1) obtain c where c: "c \<in> set (columns R)" "col_name c = n" "column_accepts c v"
    and R': "R' = R\<lparr>tuples := map (\<lambda>t. t(n \<mapsto> v)) (tuples R)\<rparr>"
    by (auto simp: set_value_def list_ex_iff split: if_splits)
  from assms(2) have d: "distinct (map col_name (columns R))" by (simp add: relation_ok_def column_names_def)
  have only: "d = c" if "d \<in> set (columns R)" "col_name d = n" for d
    using d that c by (metis distinct_map inj_on_eq_iff)
  have "tuple_accepted (columns R) (t(n \<mapsto> v))" if "t \<in> set (tuples R)" for t
  proof -
    from assms(2) that have t: "dom t = col_name ` set (columns R)"
      "\<forall>d \<in> set (columns R). \<exists>v. t (col_name d) = Some v \<and> column_accepts d v"
      by (simp_all add: relation_ok_def tuple_accepted_def)
    have "n \<in> col_name ` set (columns R)" using c by blast
    with t(1) have "dom (t(n \<mapsto> v)) = col_name ` set (columns R)" by (simp add: insert_absorb)
    moreover have "\<exists>u. (t(n \<mapsto> v)) (col_name d) = Some u \<and> column_accepts d u" if "d \<in> set (columns R)" for d
      using t(2) that only [of d] c(3) by (cases "col_name d = n") auto
    ultimately show ?thesis by (simp add: tuple_accepted_def)
  qed
  moreover have "unique_in (map (\<lambda>t. t(n \<mapsto> v)) (tuples R)) m \<longleftrightarrow> unique_in (tuples R) m" if "m \<noteq> n" for m
    using that by (intro unique_in_cong) simp
  then have "unique_in (map (\<lambda>t. t(n \<mapsto> v)) (tuples R)) (col_name e)"
    if "e \<in> set (columns R)" "is_unique e" for e
    using assms(2,3) that unfolding relation_ok_def by metis
  ultimately show ?thesis
    using assms(2) by (simp add: R' relation_ok_def column_names_def)
qed

section \<open>Each file on the table of the version before\<close>

definition boosted_up :: "alteration list" where
  "boosted_up = map AddColumn boosted_columns"

definition boosted_down :: "alteration list" where
  "boosted_down = map (\<lambda>c. DropColumn (col_name c)) boosted_columns"

lemma boosted_up_run:
  assumes "columns R = transaction_columns"
  shows "each alter boosted_up R = Some \<lparr>columns = transaction_columns @ boosted_columns,
    tuples = map (\<lambda>t. t(''boosted_block_number'' \<mapsto> VNull, ''boosted_block_hash'' \<mapsto> VNull)) (tuples R)\<rparr>"
  using assms by (simp add: boosted_up_def column_defs add_column_def column_names_def comp_def)

lemma boosted_down_run:
  assumes "columns R = transaction_columns @ boosted_columns"
  shows "each alter boosted_down R = Some \<lparr>columns = transaction_columns,
    tuples = map (\<lambda>t. t(''boosted_block_number'' := None, ''boosted_block_hash'' := None)) (tuples R)\<rparr>"
  using assms by (simp add: boosted_down_def column_defs drop_column_def column_names_def comp_def)

lemma relaxed_run:
  assumes "columns R = transaction_columns @ boosted_columns"
  shows "each alter (map DropNotNull later_null) R =
    Some (R\<lparr>columns := relax (transaction_columns @ boosted_columns)\<rparr>)"
  using assms
  by (simp add: later_null_def relax_def column_defs drop_not_null_def alter_column_def column_names_def)

lemma wallet_down_run:
  assumes "columns R = final_columns"
  shows "alter (DropColumn ''wallet_index'') R = Some \<lparr>columns = relax (transaction_columns @ boosted_columns),
    tuples = map (\<lambda>t. t(''wallet_index'' := None)) (tuples R)\<rparr>"
  using assms
  by (simp add: final_columns_def later_null_def relax_def column_defs drop_column_def column_names_def)

lemma wallet_add_run:
  assumes "columns R = relax (transaction_columns @ boosted_columns)"
  shows "alter (AddColumn (plain_column ''wallet_index'' SqlInteger)) R =
    Some \<lparr>columns = columns R @ [plain_column ''wallet_index'' SqlInteger],
      tuples = map (\<lambda>t. t(''wallet_index'' \<mapsto> VNull)) (tuples R)\<rparr>"
  using assms by (simp add: relax_def later_null_def column_defs add_column_def column_names_def)

lemma wallet_set_run:
  assumes "columns R = cs @ [plain_column ''wallet_index'' SqlInteger]"
  shows "set_value ''wallet_index'' (VInt 0) R = Some (R\<lparr>tuples := map (\<lambda>t. t(''wallet_index'' \<mapsto> VInt 0)) (tuples R)\<rparr>)"
  using assms by (simp add: set_value_def column_accepts_def plain_column_def)

lemma wallet_not_null_run:
  assumes "columns R = relax (transaction_columns @ boosted_columns) @ [plain_column ''wallet_index'' SqlInteger]"
    and "tuples R = map (\<lambda>t. t(''wallet_index'' \<mapsto> VInt 0)) ts"
  shows "alter (SetNotNull ''wallet_index'') R = Some (R\<lparr>columns := final_columns\<rparr>)"
proof -
  have "\<not> list_ex (\<lambda>t. t ''wallet_index'' = Some VNull) (tuples R)"
    by (auto simp: assms(2) list_ex_iff)
  then show ?thesis
    using assms(1)
    by (simp add: set_not_null_def alter_column_def final_columns_def relax_def later_null_def
        column_defs column_names_def)
qed

text \<open>SET NOT NULL on the five columns goes through when none of them holds a NULL.\<close>

definition strict_order :: "string list" where
  "strict_order = [''submitted_block_number'', ''submitted_block_hash'', ''nonce'', ''hash'', ''gas_price'']"

lemma strict_run:
  assumes "columns R = relax (transaction_columns @ boosted_columns)"
  shows "each alter (map SetNotNull strict_order) R =
    (if \<exists>t \<in> set (tuples R). \<exists>n \<in> set strict_order. t n = Some VNull then None
     else Some (R\<lparr>columns := transaction_columns @ boosted_columns\<rparr>))"
proof (cases "\<exists>t \<in> set (tuples R). \<exists>n \<in> set strict_order. t n = Some VNull")
  case True
  have "each alter (map SetNotNull ns) R' = None"
    if "t \<in> set (tuples R')" "n \<in> set ns" "t n = Some VNull" for ns t n R'
    using that
  proof (induction ns arbitrary: R')
    case (Cons m ns)
    show ?case
    proof (cases "m = n")
      case True
      with Cons.prems show ?thesis by (auto simp: set_not_null_def list_ex_iff)
    next
      case False
      have "tuples R1 = tuples R'" if "set_not_null m R' = Some R1" for R1
        using that by (auto simp: set_not_null_def alter_column_def split: if_splits)
      with Cons False show ?thesis by (auto split: option.split)
    qed
  qed simp
  with True show ?thesis by (metis (no_types, lifting))
next
  case False
  then have "\<not> list_ex (\<lambda>t. t n = Some VNull) (tuples R)" if "n \<in> set strict_order" for n
    using that by (auto simp: list_ex_iff)
  with False show ?thesis
    using assms
    by (simp add: strict_order_def set_not_null_def alter_column_def relax_def later_null_def
        column_defs column_names_def)
qed

end
