(* ===== verification/Migration_Properties.thy ===== *)
theory Migration_Properties
  imports Demo Migrations
begin

text \<open>
  The properties of the migrations: the table they make is the one the models are written for, each
  step can be taken back on any data, and what a rollback of the running service's table does.
\<close>

declare One_nat_def [simp del]

section \<open>The versions\<close>

lemma ddl_files:
  "up add_boosted_block = [ALTER_TABLE boosted_up]" "down add_boosted_block = [ALTER_TABLE boosted_down]"
  "up store_transaction_first = [ALTER_TABLE (map DropNotNull later_null)]"
  "down store_transaction_first = [ALTER_TABLE (map SetNotNull strict_order)]"
  "up add_wallet_number = [ALTER_TABLE [AddColumn (plain_column ''wallet_index'' SqlInteger)],
     UPDATE_ALL ''wallet_index'' (VInt 0), ALTER_TABLE [SetNotNull ''wallet_index'']]"
  "down add_wallet_number = [ALTER_TABLE [DropColumn ''wallet_index'']]"
  "up create_transaction_table = [CREATE_TABLE transaction_columns]"
  "down create_transaction_table = [DROP_TABLE_IF_EXISTS]"
  by (simp_all add: migration_defs boosted_up_def boosted_down_def boosted_columns_def plain_column_def
      later_null_def strict_order_def)

text \<open>A database whose schema holds this table.\<close>

definition with_table :: "relation option \<Rightarrow> database \<Rightarrow> database" where
  "with_table R db =
     (case meta_transaction_processor db of
        None \<Rightarrow> db
      | Some s \<Rightarrow> db\<lparr>meta_transaction_processor := Some (s\<lparr>requests := R\<rparr>)\<rparr>)"

lemma on_requests_simps:
  assumes "meta_transaction_processor db \<noteq> None"
  shows "on_requests f db = map_option (\<lambda>R. with_table R db) (f (table_of db))"
  using assms by (auto simp: on_requests_def with_table_def table_of_def split: option.splits)

lemma with_table_simps [simp]:
  assumes "meta_transaction_processor db \<noteq> None"
  shows "meta_transaction_processor (with_table R db) \<noteq> None" "table_of (with_table R db) = R"
    "with_table R (with_table R' db) = with_table R db"
  using assms by (auto simp: with_table_def table_of_def split: option.splits)

lemma with_table_schema [simp]:
  "meta_transaction_processor db \<noteq> None \<Longrightarrow> \<exists>s. meta_transaction_processor (with_table R db) = Some s"
  by (auto simp: with_table_def)

lemma with_table_same: "meta_transaction_processor db \<noteq> None \<Longrightarrow> with_table (table_of db) db = db"
  by (auto simp: with_table_def table_of_def split: option.splits)

text \<open>Each file up, on a database with the table of the version before.\<close>

lemma create_up:
  assumes "meta_transaction_processor db \<noteq> None" and "table_of db = None"
  shows "each run_ddl (up create_transaction_table) db =
    Some (with_table (Some \<lparr>columns = transaction_columns, tuples = []\<rparr>) db)"
  using assms by (simp add: ddl_files on_requests_simps)

lemma boosted_up:
  assumes "meta_transaction_processor db \<noteq> None" and "table_of db = Some R"
    and "columns R = transaction_columns"
  shows "each run_ddl (up add_boosted_block) db = Some (with_table (Some
    \<lparr>columns = transaction_columns @ boosted_columns,
     tuples = map (\<lambda>t. t(''boosted_block_number'' \<mapsto> VNull, ''boosted_block_hash'' \<mapsto> VNull)) (tuples R)\<rparr>) db)"
  using assms by (simp add: ddl_files on_requests_simps boosted_up_run)

lemma store_up:
  assumes "meta_transaction_processor db \<noteq> None" and "table_of db = Some R"
    and "columns R = transaction_columns @ boosted_columns"
  shows "each run_ddl (up store_transaction_first) db =
    Some (with_table (Some (R\<lparr>columns := relax (transaction_columns @ boosted_columns)\<rparr>)) db)"
  using assms by (simp add: ddl_files on_requests_simps relaxed_run)

lemma wallet_up:
  assumes db: "meta_transaction_processor db \<noteq> None" and R: "table_of db = Some R"
    and cs: "columns R = relax (transaction_columns @ boosted_columns)"
  shows "each run_ddl (up add_wallet_number) db = Some (with_table (Some
    \<lparr>columns = final_columns, tuples = map (\<lambda>t. t(''wallet_index'' \<mapsto> VInt 0)) (tuples R)\<rparr>) db)"
proof -
  let ?c = "plain_column ''wallet_index'' SqlInteger"
  let ?R1 = "\<lparr>columns = columns R @ [?c], tuples = map (\<lambda>t. t(''wallet_index'' \<mapsto> VNull)) (tuples R)\<rparr>"
  let ?R2 = "?R1\<lparr>tuples := map (\<lambda>t. t(''wallet_index'' \<mapsto> VInt 0)) (tuples ?R1)\<rparr>"
  have ts: "tuples ?R2 = map (\<lambda>t. t(''wallet_index'' \<mapsto> VInt 0)) (tuples R)" by simp
  have "alter (SetNotNull ''wallet_index'') ?R2 = Some (?R2\<lparr>columns := final_columns\<rparr>)"
    by (rule wallet_not_null_run [OF _ ts]) (simp add: cs)
  moreover have "set_value ''wallet_index'' (VInt 0) ?R1 = Some ?R2"
    by (rule wallet_set_run) simp
  ultimately show ?thesis
    using wallet_add_run [OF cs] db R ts
    by (simp add: ddl_files on_requests_simps comp_def del: alter.simps)
qed

lemma columns_after_simps:
  "columns_after 1 = None"
  "columns_after 2 = Some transaction_columns"
  "columns_after 3 = Some (transaction_columns @ boosted_columns)"
  "columns_after 4 = Some (relax (transaction_columns @ boosted_columns))"
  "columns_after 5 = Some final_columns"
proof -
  let ?db = "fresh_database\<lparr>public_create := False\<rparr>"
  have init: "each run_ddl (up init_schema) fresh_database = Some ?db"
    by (simp add: migration_defs fresh_database_def)
  have db: "meta_transaction_processor ?db \<noteq> None" "table_of ?db = None"
    by (simp_all add: fresh_database_def table_of_def)
  note ups = init create_up [OF db] boosted_up store_up wallet_up
  have all: "migrate_up (take k all_migrations) fresh_database = each run_ddl (concat (map up (take k all_migrations))) fresh_database"
    for k by (simp add: migrate_up_def)
  show "columns_after 1 = None" "columns_after 2 = Some transaction_columns"
    "columns_after 3 = Some (transaction_columns @ boosted_columns)"
    "columns_after 4 = Some (relax (transaction_columns @ boosted_columns))"
    "columns_after 5 = Some final_columns"
    using db unfolding columns_after_def all
    by (simp_all add: all_migrations_def eval_nat_numeral One_nat_def each_append ups)
qed

section \<open>The rows of the models\<close>

text \<open>A row as the table holds it: the value of each field under the name of its column.\<close>

definition row_tuple :: "MetaTransactionRequest \<Rightarrow> (string \<rightharpoonup> sql_value)" where
  "row_tuple r = map_of (map (\<lambda>c. (MetaTransactionRequestColumns c, field_value c r))
     metaTransactionRequestAllColumns)"

definition stored :: "table \<Rightarrow> relation" where
  "stored T = \<lparr>columns = final_columns, tuples = map row_tuple T\<rparr>"

lemma row_tuple_field [simp]: "row_tuple r (MetaTransactionRequestColumns c) = Some (field_value c r)"
  by (cases c) (simp_all add: row_tuple_def metaTransactionRequestAllColumns_def)

lemma final_names:
  "map col_name final_columns = map MetaTransactionRequestColumns metaTransactionRequestAllColumns"
  by (simp add: final_columns_def relax_def column_defs metaTransactionRequestAllColumns_def)

lemma row_tuple_dom: "dom (row_tuple r) = col_name ` set final_columns"
proof -
  have "dom (row_tuple r) = set (map MetaTransactionRequestColumns metaTransactionRequestAllColumns)"
    by (simp add: row_tuple_def dom_map_of_conv_image_fst image_image)
  then show ?thesis by (simp only: final_names [symmetric] set_map)
qed

text \<open>The column of the table for a column of the model.\<close>

definition column_of :: "col \<Rightarrow> column" where
  "column_of c = the (find (\<lambda>d. col_name d = MetaTransactionRequestColumns c) final_columns)"

lemma column_of_simps:
  "column_of Col_id = (plain_column ''id'' (SqlChar 27))\<lparr>not_null := True, is_unique := True, primary_key := True\<rparr>"
  "column_of Col_nonce = plain_column ''nonce'' (SqlNumeric 20)"
  "column_of Col_gas_price = plain_column ''gas_price'' (SqlNumeric 78)"
  "column_of Col_to = (plain_column ''to'' SqlBytea)\<lparr>not_null := True, check_length := Some 20\<rparr>"
  "column_of Col_data = (plain_column ''data'' SqlBytea)\<lparr>not_null := True\<rparr>"
  "column_of Col_hash = (plain_column ''hash'' SqlBytea)\<lparr>is_unique := True, check_length := Some 32\<rparr>"
  "column_of Col_submitted_block_number = plain_column ''submitted_block_number'' (SqlNumeric 78)"
  "column_of Col_submitted_block_hash = (plain_column ''submitted_block_hash'' SqlBytea)\<lparr>check_length := Some 32\<rparr>"
  "column_of Col_mined_block_number = plain_column ''mined_block_number'' (SqlNumeric 78)"
  "column_of Col_mined_block_hash = (plain_column ''mined_block_hash'' SqlBytea)\<lparr>check_length := Some 32\<rparr>"
  "column_of Col_created_at = (plain_column ''created_at'' SqlTimestamptz)\<lparr>not_null := True, has_default := True\<rparr>"
  "column_of Col_updated_at = (plain_column ''updated_at'' SqlTimestamptz)\<lparr>not_null := True, has_default := True\<rparr>"
  "column_of Col_boosted_block_number = plain_column ''boosted_block_number'' (SqlNumeric 78)"
  "column_of Col_boosted_block_hash = (plain_column ''boosted_block_hash'' SqlBytea)\<lparr>check_length := Some 32\<rparr>"
  "column_of Col_wallet_index = wallet_column"
  by (simp_all add: column_of_def final_columns_def relax_def later_null_def column_defs)

lemma final_columns_of: "final_columns = map column_of metaTransactionRequestAllColumns"
  by (simp add: column_of_simps metaTransactionRequestAllColumns_def)
    (simp add: final_columns_def relax_def later_null_def column_defs)

lemma column_of_name: "col_name (column_of c) = MetaTransactionRequestColumns c"
  by (cases c) (simp_all add: column_of_simps column_defs)

lemma column_accepts_field:
  "column_accepts (plain_column n (SqlNumeric p)) (of_num x) \<longleftrightarrow> numeric_ok p x"
  "column_accepts ((plain_column n SqlBytea)\<lparr>check_length := Some k\<rparr>) (of_bytes y) \<longleftrightarrow> length_ok k y"
  "column_accepts ((plain_column n SqlBytea)\<lparr>is_unique := True, check_length := Some k\<rparr>) (of_bytes y) \<longleftrightarrow>
     length_ok k y"
  by (simp_all add: column_accepts_def plain_column_def of_num_def of_bytes_def numeric_ok_def
      length_ok_def split: option.split)

lemma column_of_accepts:
  "column_accepts (column_of Col_id) (VText s) \<longleftrightarrow> length s = 27"
  "column_accepts (column_of Col_nonce) (of_num x) \<longleftrightarrow> numeric_ok 20 x"
  "column_accepts (column_of Col_gas_price) (of_num x) \<longleftrightarrow> numeric_ok 78 x"
  "column_accepts (column_of Col_to) (VBytes b) \<longleftrightarrow> length b = 20"
  "column_accepts (column_of Col_data) (VBytes b)"
  "column_accepts (column_of Col_hash) (of_bytes y) \<longleftrightarrow> length_ok 32 y"
  "column_accepts (column_of Col_submitted_block_number) (of_num x) \<longleftrightarrow> numeric_ok 78 x"
  "column_accepts (column_of Col_submitted_block_hash) (of_bytes y) \<longleftrightarrow> length_ok 32 y"
  "column_accepts (column_of Col_mined_block_number) (of_num x) \<longleftrightarrow> numeric_ok 78 x"
  "column_accepts (column_of Col_mined_block_hash) (of_bytes y) \<longleftrightarrow> length_ok 32 y"
  "column_accepts (column_of Col_created_at) (VTime t)" "column_accepts (column_of Col_updated_at) (VTime t)"
  "column_accepts (column_of Col_boosted_block_number) (of_num x) \<longleftrightarrow> numeric_ok 78 x"
  "column_accepts (column_of Col_boosted_block_hash) (of_bytes y) \<longleftrightarrow> length_ok 32 y"
  "column_accepts (column_of Col_wallet_index) (VInt i) \<longleftrightarrow> - (2 ^ 31) \<le> i \<and> i < 2 ^ 31"
  by (simp_all only: column_of_simps column_accepts_field)
    (simp_all add: column_accepts_def plain_column_def wallet_column_def)

lemma row_tuple_accepted: "tuple_accepted final_columns (row_tuple r) \<longleftrightarrow> row_checks r \<and> length (ID r) = 27"
proof -
  have "tuple_accepted final_columns (row_tuple r) \<longleftrightarrow>
      (\<forall>c \<in> set metaTransactionRequestAllColumns. column_accepts (column_of c) (field_value c r))"
    unfolding tuple_accepted_def row_tuple_dom by (simp add: final_columns_of column_of_name)
  also have "\<dots> \<longleftrightarrow> row_checks r \<and> length (ID r) = 27"
    by (simp add: metaTransactionRequestAllColumns_def column_of_accepts row_checks_def conj_ac)
  finally show ?thesis .
qed

lemma stored_unique_ids: "unique_in (map row_tuple T) ''id'' \<longleftrightarrow> unique_ids T"
proof -
  have "map (\<lambda>t. t ''id'') (map row_tuple T) = map (Some \<circ> VText) (map ID T)"
    using row_tuple_field [of _ Col_id] by simp
  then show ?thesis
    by (simp add: unique_in_def unique_ids_def distinct_map filter_map comp_def inj_on_def)
qed

lemma stored_unique_hashes: "unique_in (map row_tuple T) ''hash'' \<longleftrightarrow> unique_hashes T"
proof -
  have "row_tuple r ''hash'' = Some (of_bytes (Hash r))" for r
    using row_tuple_field [of r Col_hash] by simp
  moreover have "(of_bytes x = VNull) = (x = None)" "(of_bytes x = of_bytes y) = (x = y)" for x y
    by (auto simp: of_bytes_def split: option.splits)
  ultimately show ?thesis
    by (simp add: unique_in_def unique_hashes_def distinct_map filter_map comp_def inj_on_def)
qed

lemma stored_ok: "relation_ok (stored T) \<longleftrightarrow> table_ok T"
proof -
  have "distinct (column_names (stored T))"
    by (simp add: column_names_def stored_def final_names metaTransactionRequestAllColumns_def)
  moreover have "(\<forall>c \<in> set final_columns. is_unique c \<longrightarrow> unique_in (map row_tuple T) (col_name c)) \<longleftrightarrow>
      unique_ids T \<and> unique_hashes T"
    by (simp add: final_columns_of metaTransactionRequestAllColumns_def column_of_simps column_defs
        stored_unique_ids stored_unique_hashes)
  ultimately show ?thesis
    by (auto simp: relation_ok_def stored_def row_tuple_accepted table_ok_def)
qed

lemma migrated:
  "\<exists>db. migrate_up all_migrations fresh_database = Some db \<and> meta_transaction_processor db \<noteq> None \<and>
     table_of db = Some \<lparr>columns = final_columns, tuples = []\<rparr>"
proof -
  let ?db = "fresh_database\<lparr>public_create := False\<rparr>"
  have init: "each run_ddl (up init_schema) fresh_database = Some ?db"
    by (simp add: migration_defs fresh_database_def)
  have db: "meta_transaction_processor ?db \<noteq> None" "table_of ?db = None"
    by (simp_all add: fresh_database_def table_of_def)
  have "migrate_up (take 5 all_migrations) fresh_database = Some (with_table (Some \<lparr>columns = final_columns, tuples = []\<rparr>) ?db)"
    unfolding migrate_up_def sorted_migrations
    using db by (simp add: all_migrations_def each_append init create_up [OF db] boosted_up store_up wallet_up)
  moreover have "take 5 all_migrations = all_migrations" by (simp add: all_migrations_def)
  ultimately show ?thesis using with_table_simps(1,2) [OF db(1)] by metis
qed

lemma wallet_up_ok:
  assumes "columns R = relax (transaction_columns @ boosted_columns)" and "relation_ok R"
  shows "relation_ok \<lparr>columns = final_columns, tuples = map (\<lambda>t. t(''wallet_index'' \<mapsto> VInt 0)) (tuples R)\<rparr>"
proof -
  let ?c = "plain_column ''wallet_index'' SqlInteger"
  let ?R1 = "\<lparr>columns = columns R @ [?c], tuples = map (\<lambda>t. t(''wallet_index'' \<mapsto> VNull)) (tuples R)\<rparr>"
  let ?R2 = "?R1\<lparr>tuples := map (\<lambda>t. t(''wallet_index'' \<mapsto> VInt 0)) (tuples ?R1)\<rparr>"
  have "relation_ok ?R1" using wallet_add_run [OF assms(1)] assms(2) alter_ok by blast
  moreover have "set_value ''wallet_index'' (VInt 0) ?R1 = Some ?R2"
    by (rule wallet_set_run) simp
  ultimately have "relation_ok ?R2"
    by (elim set_value_ok) (auto simp: assms(1) relax_def later_null_def column_defs)
  moreover have "alter (SetNotNull ''wallet_index'') ?R2 = Some (?R2\<lparr>columns := final_columns\<rparr>)"
    by (rule wallet_not_null_run [where ts = "tuples ?R1"]) (simp_all add: assms(1))
  ultimately have "relation_ok (?R2\<lparr>columns := final_columns\<rparr>)" by (rule alter_ok [rotated])
  then show ?thesis by (simp add: comp_def)
qed

lemma strict_before:
  "list_all (\<lambda>n. list_ex (\<lambda>c. col_name c = n \<and> not_null c) transaction_columns) strict_order"
  by (simp add: strict_order_def column_defs)

text \<open>File \<open>k\<close> goes through on version \<open>k\<close>, and back.\<close>

definition reversible :: "nat \<Rightarrow> bool" where
  "reversible k \<longleftrightarrow> (\<forall>db. at_version k db \<longrightarrow>
     (\<exists>db'. each run_ddl (up (all_migrations ! k)) db = Some db' \<and> at_version (k + 1) db' \<and>
        each run_ddl (down (all_migrations ! k)) db' = Some db))"

lemma reversibleI:
  assumes "\<And>db. at_version k db \<Longrightarrow> meta_transaction_processor db \<noteq> None \<Longrightarrow>
    \<exists>db'. each run_ddl (up (all_migrations ! k)) db = Some db' \<and> at_version (k + 1) db' \<and>
      each run_ddl (down (all_migrations ! k)) db' = Some db"
  shows "reversible k"
  using assms by (auto simp: reversible_def at_version_def)

lemmas version_simps = on_requests_simps at_version_def columns_after_simps

lemma create_reversible: "reversible 1"
proof (rule reversibleI)
  fix db
  assume v: "at_version 1 db" and db: "meta_transaction_processor db \<noteq> None"
  from v have R: "table_of db = None" by (simp add: version_simps db)
  have ok: "relation_ok \<lparr>columns = transaction_columns, tuples = []\<rparr>"
    by (simp add: relation_ok_def column_names_def column_defs unique_in_def)
  with create_up [OF db R] R with_table_same [OF db] show
    "\<exists>db'. each run_ddl (up (all_migrations ! 1)) db = Some db' \<and> at_version (1 + 1) db' \<and>
      each run_ddl (down (all_migrations ! 1)) db' = Some db"
    by (simp add: all_migrations_def version_simps db ddl_files(8) One_nat_def numeral_2_eq_2 [symmetric])
qed

lemma boosted_reversible: "reversible 2"
proof (rule reversibleI)
  fix db
  assume v: "at_version 2 db" and db: "meta_transaction_processor db \<noteq> None"
  from v obtain R where R: "table_of db = Some R" "columns R = transaction_columns" "relation_ok R"
    by (auto simp: version_simps db split: option.splits)
  let ?R = "\<lparr>columns = transaction_columns @ boosted_columns,
    tuples = map (\<lambda>t. t(''boosted_block_number'' \<mapsto> VNull, ''boosted_block_hash'' \<mapsto> VNull)) (tuples R)\<rparr>"
  have ok: "relation_ok ?R" using boosted_up_run [OF R(2)] alters_ok R(3) by blast
  have "t(''boosted_block_number'' := None, ''boosted_block_hash'' := None) = t" if "t \<in> set (tuples R)" for t
    using relation_ok_absent [OF R(3) that] R(2) by (simp add: column_names_def column_defs fun_upd_idem)
  then have "each alter boosted_down ?R = Some R"
    using R(2) by (simp add: boosted_down_run map_idI)
  with ok boosted_up [OF db R(1,2)] R(1) with_table_same [OF db] show
    "\<exists>db'. each run_ddl (up (all_migrations ! 2)) db = Some db' \<and> at_version (2 + 1) db' \<and>
      each run_ddl (down (all_migrations ! 2)) db' = Some db"
    by (simp add: all_migrations_def version_simps db ddl_files(2))
qed

lemma store_reversible: "reversible 3"
proof (rule reversibleI)
  fix db
  assume v: "at_version 3 db" and db: "meta_transaction_processor db \<noteq> None"
  from v obtain R where R: "table_of db = Some R" "columns R = transaction_columns @ boosted_columns"
    "relation_ok R"
    by (auto simp: version_simps db split: option.splits)
  let ?R = "R\<lparr>columns := relax (transaction_columns @ boosted_columns)\<rparr>"
  have ok: "relation_ok ?R" using relaxed_run [OF R(2)] alters_ok R(3) by blast
  have "\<forall>t \<in> set (tuples R). \<forall>n \<in> set strict_order. t n \<noteq> Some VNull"
  proof (intro ballI notI)
    fix t n
    assume t: "t \<in> set (tuples R)" "n \<in> set strict_order" "t n = Some VNull"
    with strict_before obtain c where "c \<in> set (columns R)" "col_name c = n" "not_null c"
      unfolding R(2) list_all_iff list_ex_iff by auto
    with relation_ok_tuple [OF R(3) t(1)] t(3) show False by (fastforce simp: column_accepts_def)
  qed
  then have "each alter (map SetNotNull strict_order) ?R = Some R"
    using R(2) by (subst strict_run) (auto intro: relation.equality)
  with ok store_up [OF db R(1,2)] R(1) with_table_same [OF db] show
    "\<exists>db'. each run_ddl (up (all_migrations ! 3)) db = Some db' \<and> at_version (3 + 1) db' \<and>
      each run_ddl (down (all_migrations ! 3)) db' = Some db"
    by (simp add: all_migrations_def version_simps db ddl_files(4))
qed

lemma wallet_reversible: "reversible 4"
proof (rule reversibleI)
  fix db
  assume v: "at_version 4 db" and db: "meta_transaction_processor db \<noteq> None"
  from v obtain R where R: "table_of db = Some R"
    "columns R = relax (transaction_columns @ boosted_columns)" "relation_ok R"
    by (auto simp: version_simps db split: option.splits)
  let ?R = "\<lparr>columns = final_columns, tuples = map (\<lambda>t. t(''wallet_index'' \<mapsto> VInt 0)) (tuples R)\<rparr>"
  have ok: "relation_ok ?R" by (rule wallet_up_ok [OF R(2,3)])
  have "t(''wallet_index'' := None) = t" if "t \<in> set (tuples R)" for t
    using relation_ok_absent [OF R(3) that] R(2)
    by (simp add: column_names_def relax_def column_defs fun_upd_idem)
  then have "each alter [DropColumn ''wallet_index''] ?R = Some R"
    using R(2) by (simp add: wallet_down_run map_idI del: alter.simps)
  with ok wallet_up [OF db R(1,2)] R(1) with_table_same [OF db] show
    "\<exists>db'. each run_ddl (up (all_migrations ! 4)) db = Some db' \<and> at_version (4 + 1) db' \<and>
      each run_ddl (down (all_migrations ! 4)) db' = Some db"
    by (simp add: all_migrations_def version_simps db ddl_files(6))
qed

section \<open>The properties\<close>

text \<open> C38
  The migrations make the table the models are written for: applied in order to the database that
  \<open>migrate\<close> prepares they all go through, the columns of the table are those of the struct in its
  order, the columns with and without a default and the primary key are those listed in the models,
  and the rows that fit its types and constraints are exactly those the model of the store allows.
\<close>

theorem Migrated_schema:
  "\<exists>db cs. migrate_up all_migrations fresh_database = Some db \<and>
     table_of db = Some \<lparr>columns = cs, tuples = []\<rparr> \<and>
     map col_name cs = map MetaTransactionRequestColumns metaTransactionRequestAllColumns \<and>
     map col_name (filter (\<lambda>c. not_null c \<and> \<not> has_default c) cs) =
       map MetaTransactionRequestColumns metaTransactionRequestColumnsWithoutDefault \<and>
     map col_name (filter (\<lambda>c. \<not> (not_null c \<and> \<not> has_default c)) cs) =
       map MetaTransactionRequestColumns metaTransactionRequestColumnsWithDefault \<and>
     map col_name (filter primary_key cs) =
       map MetaTransactionRequestColumns metaTransactionRequestPrimaryKeyColumns \<and>
     (\<forall>T. relation_ok \<lparr>columns = cs, tuples = map row_tuple T\<rparr> = table_ok T)"
proof -
  obtain db where db: "migrate_up all_migrations fresh_database = Some db"
    "table_of db = Some \<lparr>columns = final_columns, tuples = []\<rparr>"
    using migrated by blast
  have lists: "map col_name (filter (\<lambda>c. not_null c \<and> \<not> has_default c) final_columns) =
       map MetaTransactionRequestColumns metaTransactionRequestColumnsWithoutDefault"
    "map col_name (filter (\<lambda>c. \<not> (not_null c \<and> \<not> has_default c)) final_columns) =
       map MetaTransactionRequestColumns metaTransactionRequestColumnsWithDefault"
    "map col_name (filter primary_key final_columns) =
       map MetaTransactionRequestColumns metaTransactionRequestPrimaryKeyColumns"
    by (simp_all add: final_columns_def relax_def later_null_def column_defs
        metaTransactionRequestColumnsWithoutDefault_def metaTransactionRequestColumnsWithDefault_def
        metaTransactionRequestPrimaryKeyColumns_def)
  show ?thesis
    by (intro exI conjI, rule db(1), rule db(2), rule final_names, (rule lists)+)
      (simp add: stored_ok [unfolded stored_def])
qed

text \<open> C39
  Every migration after the first goes through on any data the version before allows, leaves data
  that the next version allows, and its Down takes it back without a loss.
\<close>

theorem Migrations_reversible:
  assumes "k \<in> {1, 2, 3, 4}" and "at_version k db"
  shows "\<exists>db'. each run_ddl (up (all_migrations ! k)) db = Some db' \<and> at_version (k + 1) db' \<and>
    each run_ddl (down (all_migrations ! k)) db' = Some db"
  using assms create_reversible boosted_reversible store_reversible wallet_reversible
  unfolding reversible_def by blast

text \<open>The table of the fourth version with one request.\<close>

definition demo_old :: database where
  "demo_old = with_table (Some \<lparr>columns = relax (transaction_columns @ boosted_columns),
     tuples = [(row_tuple demo_row)(''wallet_index'' := None)]\<rparr>) fresh_database"

lemma fresh_schema [simp]: "\<exists>s. meta_transaction_processor fresh_database = Some s"
  by (simp add: fresh_database_def)

lemma demo_old_version: "at_version 4 demo_old"
proof -
  have "relation_ok (stored [demo_row])" using demo_table_inv(1) by (simp add: stored_ok table_inv_def)
  moreover have "drop_column ''wallet_index'' (stored [demo_row]) =
      Some \<lparr>columns = relax (transaction_columns @ boosted_columns),
        tuples = [(row_tuple demo_row)(''wallet_index'' := None)]\<rparr>"
    using wallet_down_run [of "stored [demo_row]"] by (simp add: stored_def)
  ultimately have "relation_ok \<lparr>columns = relax (transaction_columns @ boosted_columns),
      tuples = [(row_tuple demo_row)(''wallet_index'' := None)]\<rparr>"
    by (metis drop_column_ok)
  then show ?thesis by (simp add: demo_old_def at_version_def columns_after_simps)
qed

theorem Migrations_reversible_witness:
  "\<exists>db'. each run_ddl (up (all_migrations ! 4)) demo_old = Some db' \<and> at_version (4 + 1) db' \<and>
     each run_ddl (down (all_migrations ! 4)) db' = Some demo_old"
  by (rule Migrations_reversible [OF _ demo_old_version]) simp

text \<open>The table of the running service in its schema.\<close>

definition service_database :: "table \<Rightarrow> database \<Rightarrow> database" where
  "service_database T db = with_table (Some (stored T)) db"

lemma row_tuple_wallet:
  "(row_tuple r)(''wallet_index'' \<mapsto> VInt i) = row_tuple (r\<lparr>WalletIndex := i\<rparr>)"
  by (rule ext) (simp add: row_tuple_def metaTransactionRequestAllColumns_def)

lemma row_tuple_null:
  assumes "row_wf r"
  shows "(\<exists>n \<in> set strict_order. ((row_tuple r)(''wallet_index'' := None)) n = Some VNull) \<longleftrightarrow> \<not> active r"
proof -
  have "((row_tuple r)(''wallet_index'' := None)) ''submitted_block_number'' = Some (of_num (SubmittedBlockNumber r))"
    "((row_tuple r)(''wallet_index'' := None)) ''submitted_block_hash'' = Some (of_bytes (SubmittedBlockHash r))"
    "((row_tuple r)(''wallet_index'' := None)) ''nonce'' = Some (of_num (Nonce r))"
    "((row_tuple r)(''wallet_index'' := None)) ''hash'' = Some (of_bytes (Hash r))"
    "((row_tuple r)(''wallet_index'' := None)) ''gas_price'' = Some (of_num (GasPrice r))"
    by (simp_all add: row_tuple_def metaTransactionRequestAllColumns_def)
  moreover have "of_num x = VNull \<longleftrightarrow> x = None" "of_bytes y = VNull \<longleftrightarrow> y = None" for x y
    by (simp_all add: of_num_def of_bytes_def split: option.split)
  ultimately show ?thesis
    using assms by (simp add: strict_order_def row_wf_def active_def del: fun_upd_apply) auto
qed

text \<open> C40
  What a rollback does to a running service: the step back to submitted-only rows goes through
  exactly when no request is queued (``High chance of failure'', as the file says); going back over
  the wallet number and forward again gives every request to wallet 0, so that the submitted rows of
  different wallets then belong to one; and the Down of the first file drops the schema together with
  the table in which goose keeps its versions.
\<close>

theorem Rollback_of_the_service:
  assumes "table_inv T" and "meta_transaction_processor db \<noteq> None"
  shows "(each run_ddl (down add_wallet_number @ down store_transaction_first) (service_database T db) = None) =
      (\<exists>r \<in> set T. \<not> active r) \<and>
    each run_ddl (down add_wallet_number @ up add_wallet_number) (service_database T db) =
      Some (service_database (map (\<lambda>r. r\<lparr>WalletIndex := 0\<rparr>) T) db) \<and>
    each run_ddl (down init_schema) (service_database T db) =
      Some ((service_database T db)\<lparr>meta_transaction_processor := None, public_create := True, public_usage := True\<rparr>)"
proof -
  let ?cs = "relax (transaction_columns @ boosted_columns)"
  let ?R = "\<lparr>columns = ?cs, tuples = map (\<lambda>t. t(''wallet_index'' := None)) (map row_tuple T)\<rparr>"
  have db: "meta_transaction_processor (service_database T db) \<noteq> None" "table_of (service_database T db) = Some (stored T)"
    using assms(2) by (simp_all add: service_database_def)
  have undone: "each run_ddl (down add_wallet_number) (service_database T db) = Some (with_table (Some ?R) db)"
    using db wallet_down_run [of "stored T"] assms(2)
    by (simp add: ddl_files on_requests_simps service_database_def stored_def del: alter.simps)
  have "each run_ddl (down store_transaction_first) (with_table (Some ?R) db) = None \<longleftrightarrow>
      (\<exists>r \<in> set T. \<not> active r)"
  proof -
    have "row_wf r" if "r \<in> set T" for r using assms(1) that by (simp add: table_inv_def)
    then have "(\<exists>t \<in> set (tuples ?R). \<exists>n \<in> set strict_order. t n = Some VNull) \<longleftrightarrow> (\<exists>r \<in> set T. \<not> active r)"
      using row_tuple_null by (simp add: image_image)
    then show ?thesis
      using assms(2) strict_run [of ?R] by (simp add: ddl_files on_requests_simps)
  qed
  moreover have "each run_ddl (up add_wallet_number) (with_table (Some ?R) db) =
      Some (service_database (map (\<lambda>r. r\<lparr>WalletIndex := 0\<rparr>) T) db)"
    using wallet_up [of "with_table (Some ?R) db" ?R] assms(2)
    by (simp add: service_database_def stored_def comp_def row_tuple_wallet)
  moreover have "each run_ddl (down init_schema) (service_database T db) =
      Some ((service_database T db)\<lparr>meta_transaction_processor := None, public_create := True, public_usage := True\<rparr>)"
    using db(1) by (auto simp: init_schema_def)
  ultimately show ?thesis by (simp add: each_append undone)
qed

theorem Rollback_of_the_service_witness:
  "each run_ddl (down add_wallet_number @ down store_transaction_first)
     (service_database [demo_row] fresh_database) = None \<and>
   each run_ddl (down add_wallet_number @ up add_wallet_number) (service_database [demo_sent, demo_other] fresh_database) =
     Some (service_database [demo_sent, demo_other\<lparr>WalletIndex := 0\<rparr>] fresh_database)"
proof -
  have z: "demo_sent\<lparr>WalletIndex := 0\<rparr> = demo_sent" by (simp add: MetaTransactionRequest.equality)
  show ?thesis
    using Rollback_of_the_service [OF demo_table_inv(1), of fresh_database]
      Rollback_of_the_service [OF demo_table_inv(5), of fresh_database] z
    by (simp add: active_def del: each.simps)
qed

end
