(* ===== verification/Spec2Isabelle.thy ===== *)
theory Spec2Isabelle
  imports Replacement Delivery Progress Process_Properties Watcher_Properties Lag Failures Component_Properties Migration_Properties
begin

text \<open>
  A model of DIMO-Network/meta-transaction-processor, a service that takes requests for Ethereum
  transactions from Kafka, submits them from a set of wallets, follows them on the chain and
  reports their status on another topic.

  The parts and how they interact. The consumer (internal/consumer/consumer.go) turns each request
  message into a row of the table \<open>meta_transaction_requests\<close>, assigned to a random wallet. For each
  wallet one watcher (internal/ticker/loop.go) ticks: it handles the wallet's submitted request, if
  there is one (wait, boost, record inclusion, follow a reorganisation, confirm), and otherwise
  submits the wallet's next request; it announces what happened through the status producer
  (internal/status/status.go) and signs through a sender (internal/sender). Both reach the database
  through the generated models (internal/models). The gRPC method (internal/rpc) removes the oldest
  row. The main package makes the senders, starts a watcher for each and the consumer, and runs the
  migrations (cmd/meta-transaction-processor, migrations/).

  The theories, and what they model.
  \<^item> Prelude: machine types, Go errors as values (with \<open>errors.Is\<close>), panics as outcomes,
    \<open>strconv.Itoa\<close>, and generic lemmas.
  \<^item> Schema: the row struct, columns and where helpers of internal/models, the constraints of
    migrations/, and the meaning of the SQL statements the code sends. Table: lemmas about them, and
    the interface of the store as the locales \<open>keyed_store\<close> and \<open>owned_store\<close>, interpreted on the
    SQL statements.
  \<^item> Status: messages, JSON documents and the Kafka producer of internal/status.
  \<^item> Effects: programs as trees of calls, their executions, the database behind them, and the
    locale \<open>monitor\<close> for rely/guarantee arguments about all executions of a program.
  \<^item> Models: the operations of internal/models (hooks, finders, insert, update, upsert, delete, the
    caches and their keys, the text of an upsert).
  \<^item> Ticker: \<open>New\<close> and \<open>Tick\<close> of internal/ticker. Tick_Safety, Tick_Invariant and Tick_Log hold the
    monitors of a tick (what it does to the table, what it announces and sends, how many calls it
    makes); Tick_Branches its branches as traces.
  \<^item> Consumer and Intake: \<open>ConsumeClaim\<close> and \<open>New\<close> of internal/consumer, and what the consumer does to
    the table. Service: internal/rpc. Sender: internal/sender, with the interface of a signer as a
    locale. App: settings, sub-commands, senders, watchers and their loop, the servers, the
    migration command.
  \<^item> Migrations: the statements of the files under migrations/, up and down, on a database.
  \<^item> System: the running service (watchers, claims, calls of the RPC method, restarts) as a step
    relation labelled with the calls made, its runs, its invariant, and the life cycle of a request
    that it refines. Its state has two history variables, which no program reads: what the RPC method
    has removed since the last start, and whether a claim has stored such a request again. History: the invariant that ties a run's calls to its rows, and what must have
    happened before a status message is sent. Replacement: what a watcher has read of the row it
    works on, so that a submitted row keeps its nonce. Delivery: what has become of a request whose
    message was marked. Progress: a watcher whose calls are
    answered, the others at work between its calls, and the measure of the work that is left.
  \<^item> Shutdown: the end of a watcher's loop. Process: the process around the service, with the making
    of its tickers (which panics when the block time is not positive), their ticks, the signal, the
    cancelled context, the shutdown of the monitoring server (which may take for ever), the
    \<open>WaitGroup\<close> and the return of \<open>main\<close> as steps; its histories as histories of the service; and the
    measure of what is left to do after a signal. Lag: executions in which a query is answered by an
    earlier state of the table, as a replica behind \<open>DBS().Reader\<close> would.
  \<^item> Rows: writing rows through internal/models and reading them back.
  \<^item> Demo holds concrete data for the witnesses; Watcher_Properties, Intake_Properties,
    Process_Properties, Component_Properties, Migration_Properties and this theory hold the
    properties; Races has the interleavings in which the RPC method gets in the way of a watcher,
    Failures what a failure in the middle of a tick does, and two processes that run side by side.

  How state and operations correspond to the code. A Go function that talks to the outside is a
  \<open>prog\<close>: the tree of its calls in the order of the code, with a continuation for every answer and
  a leaf for every return. A call and its answer is an \<open>event\<close>; \<open>run_trace\<close> runs a program
  against given events, so every list of events is an execution and every prefix one that was cut
  off by a crash. Nothing is assumed about answers in the model itself; \<open>db_run\<close> says which answers
  the database can give, including a failure reported for a statement that was carried out. Errors
  are values (\<open>goerror\<close>), a result with an error is a sum, a panic an outcome of its own. Block
  numbers, prices and wei are unbounded integers, as \<open>big.Int\<close> is; nonces and gas are 64-bit words;
  hashes, addresses and bytes are words. A row's NULL columns are options.

  What the properties show. C1 to C9 are about the whole service: its invariant and the absence of
  panics, the life cycle it refines, the process whose histories it contains and the end of that
  process after a signal, the order of the status messages over the whole history, that
  whatever replaces a submitted transaction competes with it, that no acknowledged request gets
  lost, that the backlog of a wallet is worked off, and the agreement of wallets. C10 to C13 are its
  limits: two races of the RPC method with a watcher, two processes side by side, and what a reader
  that lags behind the writer can do. C14 to C28 are about a watcher: the table under a tick, what it
  announces and sends and why, a bound on its calls and the end of its loop, each of its branches,
  the price and gas of what it sends, and what a failure in the middle of a tick can do. C29 to C31
  are about the consumer, C32 to C37 about the models (caches, what a cache does to the options of an
  upsert, insert and find), the status messages, the KMS signature and the RPC method, C38 to C40 about the migrations:
  the table they make is the one of the models, each can be taken back, and what a rollback does to
  the table of a running service.

  Bounds. No function runs on fuel: loops are recursions over the list of what their \<open>select\<close>
  yields, and a tick has no loop, its 19 calls being the longest branch (confirm and submit again).
  The backlog of n requests is worked off in 2 n + 1 ticks: one that submits the first, then for
  each one that records its block and one that confirms it and submits the next. After a signal a
  watcher has at most 23 steps left: the 21 of a turn, its end, and the turn that finds the context
  done; each tick that its \<open>select\<close> still prefers to the context adds 22.

  Assumptions, each a named hypothesis. \<open>plain\<close>: no boil hooks, no skipped timestamps, and the
  documented behaviour of SQLBoiler's column sets (\<open>boil_laws\<close>). \<open>eth_laws\<close>, \<open>consumer_laws\<close>,
  \<open>reads_back\<close>: documented behaviour of go-ethereum's conversions and text forms. Witnesses
  instantiate each with concrete functions. The properties of the service as a whole (C1, C2, C5, C6,
  C7, and the absence of panics in C3 and C4) have the further hypothesis \<open>\<not> redelivered s\<close>: so far no
  claim has stored a request again that the RPC method had removed since the start of the process.
  Kafka does not promise this, it delivers at least once; C11 shows what can happen otherwise.

  PostgreSQL. A time is a number of nanoseconds in the program and a column keeps it rounded to
  microseconds (\<open>to_micros\<close>, halves upward; no property depends on the choice between two equally near
  ones). The text that an option of \<open>Upsert\<close> puts into its statement is data of the model
  (\<open>WithText\<close>), and what PostgreSQL does with a statement that has one is left open. A call of
  \<open>SendMessage\<close> can leave any number of copies of its one message on the topic, as the client repeats
  it when an acknowledgement is lost.

  Not modelled: log lines; the values of metrics beyond the calls that set them; contexts, except
  that a loop ends when its context is done (a call whose context is done is a call that fails, as
  any may); what the consumer and the servers do at the end, for whom \<open>main\<close> does not wait; in the
  service as a whole, replication lag between the reader and the writer of the database, which are
  one table there (Lag treats one program); several processes of the service at once (a restart
  replaces the one there is; Failures shows why that matters); the text of SQL statements other than the upsert's; JSON below the
  document tree; the libraries of the servers and clients that
  cmd/meta-transaction-processor/main.go configures, and goose; generated bindings and mocks (pkg/grpc, internal/mocks,
  internal/testcontract). Strings are lists of bytes: the 27 characters of the id column are counted
  as bytes, as the consumer counts them, so ids with multi-byte characters are outside the model.
\<close>

declare One_nat_def [simp del]

section \<open>Data for the witnesses\<close>

definition demo_ws :: "Watcher list" where
  "demo_ws = [demo_watcher, demo_watcher1]"

text \<open>The service after its start, with one message to come.\<close>

definition demo_start :: system where
  "demo_start = \<lparr>tab = [],
     watching = [watch_loop demo_env demo_eth demo_watcher [], watch_loop demo_env demo_eth demo_watcher1 []],
     receiving = [ConsumeClaim demo_env demo_consumer 2 [Received demo_msg]], cleaning = [],
     block_time = 2, removed = {}, redelivered = False\<rparr>"

lemma demo_goroutine: "watcher_goroutine demo_env demo_eth 2 w wakeups = watch_loop demo_env demo_eth w wakeups"
  by (simp add: watcher_goroutine_def ticker_interval_def del: watch_loop.simps)

lemma demo_started: "started demo_env demo_eth demo_consumer demo_ws demo_start"
proof -
  have "\<exists>wakeups. watch_loop demo_env demo_eth w [] = watcher_goroutine demo_env demo_eth 2 w wakeups" for w
    unfolding demo_goroutine by blast
  moreover have "\<exists>inputs. ConsumeClaim demo_env demo_consumer 2 [Received demo_msg] =
      ConsumeClaim demo_env demo_consumer 2 inputs" by blast
  ultimately show ?thesis
    by (simp add: started_def demo_ws_def demo_start_def del: watch_loop.simps ConsumeClaim.simps)
qed

lemma demo_distinct: "distinct (map walletIndex demo_ws)"
  by (simp add: demo_ws_def demo_watcher1_def New_Watcher_def)

lemma demo_begins: "service_run demo_env demo_eth demo_consumer demo_ws demo_le [] demo_start"
  by (rule begins [OF demo_started]) (simp_all add: demo_start_def)

lemma demo_service_run:
  "service_run demo_env demo_eth demo_consumer demo_ws demo_le demo_intake
     (demo_start\<lparr>tab := [demo_arrival], receiving := [Ret (Returned Waiting)]\<rparr>)"
  using service_run_claim [OF demo_begins, of 0 demo_intake "Ret (Returned Waiting)" "[demo_arrival]"]
    demo_intake_run demo_intake_db
  by (simp add: demo_start_def demo_intake_def in_range_def)

text \<open>A watcher alone with one queued request: three ticks submit, record and confirm it.\<close>

definition demo_life :: "event list" where
  "demo_life = Inc TicksTotal # demo_submit @ Inc TicksTotal # demo_mine @ Inc TicksTotal # demo_confirm"

lemma demo_life_run:
  "run_trace (watch_loop demo_env demo_eth demo_watcher [Fired, Fired, Fired]) demo_life =
    Some (Ret (Returned False))"
  unfolding demo_life_def
  by (simp add: watch_loop_tick [OF demo_submit_run] watch_loop_tick [OF demo_mine_run]
      watch_loop_tick [OF demo_confirm_run, where fs = "[]", simplified append_Nil2] del: watch_loop.simps(2) run_trace.simps(2))

lemma demo_life_db: "db_run demo_le demo_life [demo_row] []"
proof -
  have "db_run demo_le (Inc TicksTotal # es) T T' \<longleftrightarrow> db_run demo_le es T T'" for es T T'
    by (auto simp: db_run_Cons_iff db_event_def)
  then show ?thesis
    unfolding demo_life_def
    using db_run_appendI [OF demo_submit_db] db_run_appendI [OF demo_mine_db] demo_confirm_db by simp
qed

definition demo_queued :: system where
  "demo_queued = \<lparr>tab = [demo_row],
     watching = [watch_loop demo_env demo_eth demo_watcher [Fired, Fired, Fired]], receiving = [],
     cleaning = [], block_time = 2, removed = {}, redelivered = False\<rparr>"

lemma demo_queued_run:
  "service_run demo_env demo_eth demo_consumer [demo_watcher] demo_le [] demo_queued"
proof -
  have st: "started demo_env demo_eth demo_consumer [demo_watcher] demo_queued"
    unfolding started_def demo_queued_def by (simp add: demo_goroutine del: watch_loop.simps) blast
  show ?thesis by (rule begins [OF st]) (simp_all add: demo_queued_def demo_table_inv active_def)
qed

lemma demo_life_service:
  "service_run demo_env demo_eth demo_consumer [demo_watcher] demo_le demo_life
     (demo_queued\<lparr>tab := [], watching := [Ret (Returned False)]\<rparr>)"
proof -
  from service_run_watcher [OF demo_queued_run, of 0 demo_life "Ret (Returned False)" "[]"] show ?thesis
    using demo_life_run demo_life_db by (simp add: demo_queued_def del: watch_loop.simps)
qed

section \<open>The properties of the whole service\<close>

text \<open> C1
  In every state the service can reach from a table of queued requests, with any interleaving of all
  watchers, claims of the consumer and calls of the RPC method, any answers, lost acknowledgements
  and restarts at any moment, but as long as Kafka has not delivered a request again that the RPC
  method had removed since the last start: the table satisfies its invariant, that is at most one row
  of each wallet is submitted and every submitted row has its nonce, price, hash and submission block;
  and no watcher panics, except that the ticker cannot be made when the configured block time, in
  nanoseconds on 64 bits, is not positive.
\<close>

theorem Service_invariant:
  assumes "plain B" and "distinct (map walletIndex ws)" and "service_run B E C ws le h s"
    and "\<not> redelivered s"
  shows "table_inv (tab s) \<and>
    (\<forall>r \<in> set (tab s). \<forall>r' \<in> set (tab s). active r \<and> active r' \<and> WalletIndex r = WalletIndex r'
       \<longrightarrow> r = r') \<and>
    (\<forall>r \<in> set (tab s). active r \<longrightarrow> Nonce r \<noteq> None \<and> GasPrice r \<noteq> None \<and> Hash r \<noteq> None) \<and>
    (\<forall>k < length ws. \<forall>r. watching s ! k = Ret r \<and> panicked r \<longrightarrow>
       r = Panicked ticker_panic \<and> ticker_interval (block_time s) \<le> 0)"
proof -
  note sys = service_run_inv [OF assms]
  have "r = Panicked ticker_panic \<and> ticker_interval (block_time s) \<le> 0"
    if "k < length ws" "watching s ! k = Ret r" "panicked r" for k r
  proof -
    from sys that obtain q where "watch_ok le (block_time s) (walletIndex (ws ! k)) (Ret r) q"
      by (auto simp: sys_inv_def)
    with that(3) show ?thesis by (simp add: watch_ok_def no_panic_def)
  qed
  moreover from sys have inv: "table_inv (tab s)" by (simp add: sys_inv_def)
  moreover have "row_wf r" if "r \<in> set (tab s)" for r using inv that by (simp add: table_inv_def)
  ultimately show ?thesis using table_inv_unique [OF inv] by (auto simp: row_wf_def)
qed

theorem Service_invariant_witness: "table_inv [demo_arrival]"
  using Service_invariant [OF plain_demo demo_distinct demo_service_run] by (simp add: demo_start_def)

text \<open> C2
  Refinement of the life cycle: as long as Kafka has not delivered a request again that the RPC method
  had removed since the last start, every step of the service moves every request along the abstract
  cycle (arrive, submit, mine, fall back on a reorganisation, leave) or leaves it where it is; no
  stage is skipped and no submitted request is queued again.
\<close>

theorem Service_refines_lifecycle:
  assumes "plain B" and "distinct (map walletIndex ws)" and "service_run B E C ws le h s"
    and "system_step B E C ws le s l s'" and "\<not> redelivered s'"
  shows "phase_of (rows_by_id (tab s') x) = phase_of (rows_by_id (tab s) x) \<or>
    lifecycle (phase_of (rows_by_id (tab s) x)) (phase_of (rows_by_id (tab s') x))"
proof -
  have "\<not> redelivered s" using step_redelivered [OF assms(4)] assms(5) by blast
  from system_step_phase [OF service_run_inv [OF assms(1-3) this] assms(4)] show ?thesis .
qed

theorem Service_refines_lifecycle_witness:
  "\<exists>(s :: system) (s' :: system). phase_of (rows_by_id (tab s) demo_id) = Absent \<and>
     phase_of (rows_by_id (tab s') demo_id) = Queued \<and>
     lifecycle (phase_of (rows_by_id (tab s) demo_id)) (phase_of (rows_by_id (tab s') demo_id))"
proof -
  let ?ex = "Exec (INSERT (bound_values arrival_cols demo_arrival) (DoNothing [Col_id])
        metaTransactionRequestAllColumns) (Inr (1, [demo_arrival]))"
  have split: "demo_intake = take 3 demo_intake @ ?ex # [MarkMessage demo_msg]"
    by (simp add: demo_intake_def)
  have "run_trace (ConsumeClaim demo_env demo_consumer 2 [Received demo_msg])
      (take 3 demo_intake @ ?ex # [MarkMessage demo_msg]) = Some (Ret (Returned Waiting))"
    by (simp only: split [symmetric] demo_intake_run)
  from run_trace_prefix [OF this] obtain p1 p2 where
    p1: "run_trace (ConsumeClaim demo_env demo_consumer 2 [Received demo_msg]) (take 3 demo_intake) = Some p1"
    and p2: "step_prog p1 ?ex = Some p2"
    by (auto simp del: ConsumeClaim.simps split: option.splits)
  have db: "db_run demo_le (take 3 demo_intake) [] []"
    by (auto simp: demo_intake_def db_run_Cons_iff db_event_def eval_nat_numeral One_nat_def)
  have rng: "list_all in_range (take 3 demo_intake)"
    by (simp add: demo_intake_def in_range_def eval_nat_numeral One_nat_def)
  from service_run_claim [OF demo_begins, of 0 "take 3 demo_intake" p1 "[]"] p1 db rng
  have r1: "service_run demo_env demo_eth demo_consumer demo_ws demo_le (take 3 demo_intake)
      (demo_start\<lparr>receiving := [p1]\<rparr>)"
    by (simp add: demo_start_def)
  have "db_run demo_le (drop 3 demo_intake) [] [demo_arrival]"
    using demo_intake_db by (auto simp: demo_intake_def db_run_Cons_iff db_event_def eval_nat_numeral One_nat_def)
  then obtain now where ev: "db_event demo_le now ?ex [] [demo_arrival]"
    by (auto simp: demo_intake_def db_run_Cons_iff db_event_def eval_nat_numeral One_nat_def)
  let ?s = "demo_start\<lparr>receiving := [p1]\<rparr>" and ?s' = "demo_start\<lparr>receiving := [p2], tab := [demo_arrival]\<rparr>"
  have st: "system_step demo_env demo_eth demo_consumer demo_ws demo_le ?s [?ex] ?s'"
    using claim_call [of 0 ?s ?ex p2 demo_le now "[demo_arrival]"] p2 ev
    by (simp add: demo_start_def in_range_def)
  have ph: "phase_of (rows_by_id (tab ?s) demo_id) = Absent" "phase_of (rows_by_id (tab ?s') demo_id) = Queued"
    using demo_arrival_new is_new_inactive by (simp_all add: demo_start_def phase_of_def)
  have "\<not> redelivered ?s'" by (simp add: demo_start_def)
  from Service_refines_lifecycle [OF plain_demo demo_distinct r1 st this, of demo_id]
  have "lifecycle Absent Queued" unfolding ph by simp
  with ph have "phase_of (rows_by_id (tab ?s) demo_id) = Absent \<and>
     phase_of (rows_by_id (tab ?s') demo_id) = Queued \<and>
     lifecycle (phase_of (rows_by_id (tab ?s) demo_id)) (phase_of (rows_by_id (tab ?s') demo_id))" by simp
  then show ?thesis by blast
qed

text \<open> C5
  The order of the status messages, over the whole history of the service: however watchers,
  consumers and calls of the RPC method are interleaved and wherever the process is restarted, as
  long as Kafka has not delivered a request again that the RPC method had removed since the last
  start, a request is announced as confirmed only after it was announced as mined, and every message
  but a failure comes only after the node has accepted a transaction that makes the very call of a
  row that was read for this request.
\<close>

theorem Status_history:
  assumes "plain B" and "eth_laws E" and "distinct (map walletIndex ws)"
    and "service_run B E C ws le (h @ Notify msg # h') s" and "\<not> redelivered s"
  shows "(\<forall>m. msg = Confirmed m \<longrightarrow>
       (\<exists>m'. Notify (Mined m') \<in> set h \<and> MinedMsg_ID m' = ConfirmedMsg_ID m)) \<and>
    ((\<exists>m. msg = Failed m) \<or>
     (\<exists>ms r rs st. Query ms (Inr (r # rs)) \<in> set h \<and> ID r = request_id msg \<and>
        SendTransaction st None \<in> set h \<and>
        LegacyTx_To (inner st) = BytesToAddress E (To r) \<and> LegacyTx_Data (inner st) = Data r))"
proof -
  from assms(4) have "service_run B E C ws le ((h @ [Notify msg]) @ h') s" by simp
  from service_run_prefix [OF this] obtain s' where s': "service_run B E C ws le (h @ [Notify msg]) s'"
    and "redelivered s' \<longrightarrow> redelivered s" by blast
  with assms(5) have "\<not> redelivered s'" by blast
  from service_run_hist [OF assms(1,3) s' this] have "has_cause E (h @ [Notify msg]) msg"
    by (simp add: hist_inv_def)
  then show ?thesis
    using carries_call [OF assms(2)]
    by (cases msg) (fastforce simp: has_cause_def announced_mined_def accepted_def was_read_def)+
qed

theorem Status_history_witness:
  "\<exists>h m. demo_life = h @ [Notify (Confirmed (confirmed_msg demo_eth demo_receipt demo_mined)),
       Exec (DELETE [demo_id]) (Inr (1, []))] @ idle_calls demo_watcher \<and>
     Notify (Mined m) \<in> set h \<and> MinedMsg_ID m = demo_id"
proof -
  let ?c = "confirmed_msg demo_eth demo_receipt demo_mined"
  let ?h = "Inc TicksTotal # demo_submit @ Inc TicksTotal # demo_mine @ Inc TicksTotal #
    active_calls demo_eth demo_watcher demo_mined (demo_head 105) (Inr demo_receipt)"
  have life: "demo_life = ?h @ Notify (Confirmed ?c) #
      Exec (DELETE [demo_id]) (Inr (1, [])) # idle_calls demo_watcher"
    by (simp add: demo_life_def demo_confirm_def confirm_calls_def)
  have "ConfirmedMsg_ID ?c = demo_id" by (simp add: confirmed_msg_def)
  with Status_history [OF plain_demo eth_laws_demo _ demo_life_service [unfolded life]]
  obtain m where "Notify (Mined m) \<in> set ?h" "MinedMsg_ID m = demo_id" by (auto simp: demo_queued_def)
  with life show ?thesis by (intro exI [of _ ?h] exI [of _ m]) simp
qed

text \<open> C6
  What replaces a submitted transaction competes with it. As long as Kafka has not delivered a request
  again that the RPC method had removed since the last start: while a row is submitted, its wallet's
  watcher sends nothing but transactions with the row's call and with the nonce stored in the row,
  so that the chain carries out at most one of them; and with every step of the service a row keeps
  its call and its wallet until it is removed, and a submitted one stays so and keeps its nonce.
\<close>

theorem Replacements_compete:
  assumes "plain B" and "eth_laws E" and "distinct (map walletIndex ws)"
    and "service_run B E C ws le h s" and "\<not> redelivered s" and "r \<in> set (tab s)"
  shows "(active r \<longrightarrow> (\<forall>k st res p. k < length ws \<and> walletIndex (ws ! k) = WalletIndex r \<and>
       step_prog (watching s ! k) (SendTransaction st res) = Some p \<longrightarrow>
       Nonce r = Some (uint (LegacyTx_Nonce (inner st))) \<and>
       LegacyTx_To (inner st) = BytesToAddress E (To r) \<and> LegacyTx_Data (inner st) = Data r)) \<and>
    (\<forall>l s' r'. system_step B E C ws le s l s' \<and> \<not> redelivered s' \<and>
         r' \<in> set (tab s') \<and> ID r' = ID r \<longrightarrow>
       To r' = To r \<and> Data r' = Data r \<and> WalletIndex r' = WalletIndex r \<and>
       (active r \<longrightarrow> active r' \<and> Nonce r' = Nonce r))"
proof -
  note sys = service_run_inv [OF assms(1,3,4,5)] and grip = service_run_grip [OF assms(1-5)]
  have tinv: "table_inv (tab s)" using sys by (simp add: sys_inv_def)
  have "keeps_rows (tab s) (tab s') \<and> table_inv (tab s')"
    if "system_step B E C ws le s l s'" "\<not> redelivered s'" for l s'
    using system_step_grip [OF assms(1-3) sys grip that] system_step_inv [OF assms(1,3) sys that]
    by (simp add: sys_inv_def)
  then have "keeps_row r r'"
    if "system_step B E C ws le s l s'" "\<not> redelivered s'" "r' \<in> set (tab s')" "ID r' = ID r" for l s' r'
    using that table_inv_rows_of(1) [OF tinv assms(6)] table_inv_rows_of(1) [of "tab s'" r']
    unfolding keeps_rows_def by metis
  with watcher_sends [OF assms(2) tinv grip assms(6)] show ?thesis
    unfolding keeps_row_def by blast
qed

text \<open>The service up to the send of a replacement.\<close>

definition demo_replace :: "event list" where
  "demo_replace = Inc TicksTotal # demo_submit @ Inc TicksTotal # butlast demo_boost"

lemma demo_boost_split:
  "demo_boost = butlast demo_boost @ [SendTransaction (demo_tx 80) None]"
  "lost_boost = butlast demo_boost @ [SendTransaction (demo_tx 80) (Some underpriced)]"
  by (simp_all add: demo_boost_def lost_boost_def boost_calls_def Let_def butlast_append)

lemma demo_replace_db: "db_run demo_le demo_replace [demo_row] [demo_boosted]"
proof -
  from db_run_append [OF lost_boost_db [unfolded demo_boost_split(2)]]
  have "db_run demo_le (butlast demo_boost) [demo_sent] [demo_boosted]"
    by (auto simp: db_run_Cons_iff db_event_def)
  moreover have "db_run demo_le (Inc TicksTotal # es) T T' \<longleftrightarrow> db_run demo_le es T T'" for es T T'
    by (auto simp: db_run_Cons_iff db_event_def)
  ultimately show ?thesis
    unfolding demo_replace_def using db_run_appendI [OF demo_submit_db] by simp
qed

lemma demo_replace_run:
  "\<exists>p p'. run_trace (watch_loop demo_env demo_eth demo_watcher [Fired, Fired, Fired]) demo_replace = Some p \<and>
     step_prog p (SendTransaction (demo_tx 80) None) = Some p'"
proof -
  have "run_trace (watch_loop demo_env demo_eth demo_watcher [Fired, Fired, Fired])
      (demo_replace @ [SendTransaction (demo_tx 80) None]) =
    Some (watch_loop demo_env demo_eth demo_watcher [Fired])"
    using watch_loop_tick [OF demo_boost_run, of "[Fired]" "[]"]
    unfolding demo_replace_def append_Cons append_assoc demo_boost_split(1) [symmetric]
    by (simp add: watch_loop_tick [OF demo_submit_run] del: watch_loop.simps(2) run_trace.simps(2))
  from run_trace_prefix [OF this] show ?thesis by (auto split: option.splits)
qed

theorem Replacements_compete_witness:
  "\<exists>s p. service_run demo_env demo_eth demo_consumer [demo_watcher] demo_le demo_replace s \<and>
     tab s = [demo_boosted] \<and> step_prog (watching s ! 0) (SendTransaction (demo_tx 80) None) = Some p \<and>
     Nonce demo_boosted = Some (uint (LegacyTx_Nonce (inner (demo_tx 80))))"
proof -
  from demo_replace_run obtain p p' where p: "run_trace (watch_loop demo_env demo_eth demo_watcher
      [Fired, Fired, Fired]) demo_replace = Some p" "step_prog p (SendTransaction (demo_tx 80) None) = Some p'"
    by blast
  let ?s = "demo_queued\<lparr>tab := [demo_boosted], watching := [p]\<rparr>"
  have "service_run demo_env demo_eth demo_consumer [demo_watcher] demo_le demo_replace ?s"
    using service_run_watcher [OF demo_queued_run, of 0 demo_replace p "[demo_boosted]"] p(1) demo_replace_db
    by (simp add: demo_queued_def del: watch_loop.simps)
  moreover from Replacements_compete [OF plain_demo eth_laws_demo _ this, of demo_boosted] p(2)
  have "Nonce demo_boosted = Some (uint (LegacyTx_Nonce (inner (demo_tx 80))))"
    by (fastforce simp: active_def demo_queued_def)
  ultimately show ?thesis using p(2) by (intro exI [of _ ?s] exI [of _ p']) simp
qed

text \<open> C7
  Delivery, from the request topic to the status topic: in every state the service can reach, across
  interleavings, lost acknowledgements and restarts, as long as Kafka has not delivered a request
  again that the RPC method had removed since the last start, a request whose message has been marked is
  still in the table, or its end has been announced, as confirmed or as failed, or a call of
  \<open>CleanStuckMetaTransactions\<close> has read its row as the oldest in order to remove it. No acknowledged
  request gets lost otherwise.
\<close>

theorem Acknowledged_requests_are_served:
  assumes "plain B" and "distinct (map walletIndex ws)" and "service_run B E C ws le h s"
    and "\<not> redelivered s" and "MarkMessage msg \<in> set h" and "Unmarshal C (Value msg) = Inr data"
    and "length (EventData_ID data) = 27"
  shows "(\<exists>r \<in> set (tab s). ID r = EventData_ID data) \<or>
    (\<exists>m. Notify (Confirmed m) \<in> set h \<and> ConfirmedMsg_ID m = EventData_ID data) \<or>
    (\<exists>m. Notify (Failed m) \<in> set h \<and> FailedMsg_ID m = EventData_ID data) \<or>
    (\<exists>r rs. Query (MetaTransactionRequests oldest_request @ [Limit 1]) (Inr (r # rs)) \<in> set h \<and>
       ID r = EventData_ID data)"
proof -
  from service_run_delivery [OF assms(1-4)] assms(5-7) have "settled h (tab s) (EventData_ID data)"
    unfolding delivery_inv_def by blast
  then consider "\<exists>r \<in> set (tab s). ID r = EventData_ID data" | "finished h (EventData_ID data)"
    | "asked_removal h (EventData_ID data)" by (auto simp: settled_def dest: rows_by_id_ID)
  then show ?thesis
  proof cases
    case 2
    then obtain m where "Notify m \<in> set h" "terminal m" "request_id m = EventData_ID data"
      by (auto simp: finished_def)
    then show ?thesis by (cases m) (auto simp: terminal_def)
  qed (auto simp: asked_removal_def)
qed

theorem Acknowledged_requests_are_served_witness:
  "\<exists>r \<in> set [demo_arrival]. ID r = EventData_ID demo_request"
proof -
  have "MarkMessage demo_msg \<in> set demo_intake" by (simp add: demo_intake_def)
  from Acknowledged_requests_are_served [OF plain_demo demo_distinct demo_service_run _ this demo_unmarshal]
  show ?thesis by (simp add: demo_intake_def demo_start_def)
qed

text \<open> C8
  Progress: while the calls of a watcher are answered, receipts are found and no new request arrives,
  the watcher works off its wallet's requests, whatever the rest of the service does to the other
  rows between its calls. With n rows of the wallet, after any number of ticks of which 2 n + 1 did
  not come too early for the confirmation depth, no row of the wallet is left and every one of them
  has been announced as confirmed.
\<close>

theorem Requests_drain:
  assumes "plain B" and "table_inv T" and "tick_runs B E w le ess T T'"
    and "\<forall>es \<in> set ess. list_all (smooth E w) es"
    and "2 * card (backlog (walletIndex w) T) + 1 \<le> length (filter (deep w) ess)"
  shows "backlog (walletIndex w) T' = {} \<and>
    (\<forall>r \<in> backlog (walletIndex w) T.
       \<exists>m. Notify (Confirmed m) \<in> set (concat ess) \<and> ConfirmedMsg_ID m = ID r)"
proof -
  note d = tick_runs_drain [OF assms(1-4)]
  then have "work (backlog (walletIndex w) T') = 0"
    using assms(5) work_bound [of "backlog (walletIndex w) T"] by linarith
  then have "backlog (walletIndex w) T' = {}" by (simp add: work_0)
  with d show ?thesis by auto
qed

theorem Requests_drain_witness:
  "\<exists>m. Notify (Confirmed m) \<in> set (concat [demo_submit, demo_mine, demo_confirm]) \<and>
     ConfirmedMsg_ID m = demo_id"
proof -
  have b: "backlog 0 [demo_row] = {demo_row}" by (auto simp: backlog_def)
  have "tick_runs demo_env demo_eth demo_watcher demo_le [demo_submit, demo_mine, demo_confirm] [demo_row] []"
    using next_tick [OF demo_submit_run db_run_shared [OF demo_submit_db]
        next_tick [OF demo_mine_run db_run_shared [OF demo_mine_db]
          next_tick [OF demo_confirm_run db_run_shared [OF demo_confirm_db] no_tick]]] .
  moreover have "\<forall>es \<in> set [demo_submit, demo_mine, demo_confirm]. list_all (smooth demo_eth demo_watcher) es"
    by (simp add: demo_submit_def demo_mine_def demo_confirm_def submit_calls_def next_calls_def
        active_calls_def mine_calls_def confirm_calls_def idle_calls_def Let_def demo_with_signature)
  moreover have "filter (deep demo_watcher) [demo_submit, demo_mine, demo_confirm] =
      [demo_submit, demo_mine, demo_confirm]"
    by (auto simp: deep_def demo_submit_def demo_mine_def demo_confirm_def submit_calls_def next_calls_def
        active_calls_def mine_calls_def confirm_calls_def idle_calls_def Let_def demo_head_def demo_receipt_def)
  ultimately show ?thesis
    using Requests_drain [OF plain_demo demo_table_inv(1), of demo_eth demo_watcher demo_le
        "[demo_submit, demo_mine, demo_confirm]" "[]"] b
    by (simp del: set_concat concat.simps add: One_nat_def)
qed

text \<open> C9
  Wallets, watchers and the consumer fit together: when \<open>main\<close> has started the service there is at
  least one wallet, the watchers have pairwise different wallet indices, exactly those from 0 to
  the number of senders, which is what the consumer draws from, and so the consumer, as long as
  its channel is open, never panics.
\<close>

theorem Wallets_are_covered:
  assumes "main P X args = Started sv" and "plain B" and "ChannelClosed \<notin> set inputs"
    and "run_trace (ConsumeClaim B C (consumer_wallets sv) inputs) es = Some (Ret r)"
    and "db_run le es T T'" and "list_all in_range es"
  shows "distinct (map walletIndex (ticking sv)) \<and>
    walletIndex ` set (ticking sv) = {0 ..< consumer_wallets sv} \<and>
    0 < consumer_wallets sv \<and> \<not> panicked r"
proof -
  from main_Started [OF assms(1)] obtain settings senders chain where
    sv: "senders \<noteq> []" "ticking sv = watchers settings chain senders"
      "consumer_wallets sv = numWallets senders" by blast
  then have n: "0 < consumer_wallets sv" by (simp add: numWallets_def)
  have "intake_fin (consumer_wallets sv) inputs es r"
    using intake_run [OF assms(2,4,5,6)] by simp
  with n assms(3) have "\<not> panicked r" by (simp add: intake_fin_def)
  with n sv watchers_distinct watchers_cover show ?thesis by simp
qed

definition demo_settings :: Settings where
  "demo_settings =
     \<lparr>MonitoringPort = ''8888'', KafkaServers = ''localhost:9092'', TransactionRequestTopic = ''req'',
      TransactionStatusTopic = ''status'', EthereumRPCURL = [], PrivateKeyMode = True, KMSKeyID = [],
      KMSKeyIDs = [], SenderPrivateKey = [], SenderPrivateKeys = ''0a,0b'', ConfirmationBlocks = 3,
      BoostAfterBlocks = 5, BlockTime = 2, GRPCPort = ''8086'', AWSEndpoint = [], AWSRegion = [],
      DisableBoosting = False\<rparr>"

definition demo_platform :: "(unit, string, unit, unit) platform" where
  "demo_platform =
     \<lparr>LoadConfig = Inr demo_settings, LoadDefaultConfig = (\<lambda>region. Inr ()), Dial = (\<lambda>url. Inr ()),
      NewClient = (\<lambda>hosts. if hosts = [] then Inl (ErrMsg ''no brokers'') else Inr (hd hosts)),
      NewSyncProducer = (\<lambda>c. Inr ()), ChainID = (\<lambda>c. Inr 137), migration_fails = (\<lambda>c. None)\<rparr>"

definition demo_service :: service where
  "demo_service =
     \<lparr>request_topic = ''req'', status_topic = ''status'', consumer_wallets = 2,
      ticking = [New_Watcher 3 5 137 7 0 False, New_Watcher 3 5 137 7 1 False], tick_seconds = 2\<rparr>"

lemma demo_starts: "main demo_platform demo_crypto [''serve''] = Started demo_service"
  by (simp add: main_def main_command_def demo_platform_def serve_def createSenders_def demo_settings_def
      map_ok_def FromKey_def demo_crypto_def createKafka_def NewKafka_def numWallets_def watchers_def
      demo_service_def Let_def)

theorem Wallets_are_covered_witness: "walletIndex ` set (ticking demo_service) = {0 ..< 2}"
proof -
  have n: "consumer_wallets demo_service = 2" by (simp add: demo_service_def)
  have "run_trace (ConsumeClaim demo_env demo_consumer (consumer_wallets demo_service)
      [Received demo_msg]) demo_intake = Some (Ret (Returned Waiting))"
    unfolding n by (rule demo_intake_run)
  from Wallets_are_covered [OF demo_starts plain_demo _ this demo_intake_db] show ?thesis
    by (simp add: demo_intake_def in_range_def n)
qed

end
